(* ===== verification/Prelude.thy ===== *)
theory Prelude
  imports Main "HOL-Library.Word" "HOL-Library.Monad_Syntax" "HOL-Library.Multiset"
begin

text \<open>
  Shared vocabulary of the development: the Go types the services use, the
  pieces of the Go standard library they call on strings and fixed byte arrays,
  and the generic lemmas on lists, options and words that the component theories
  rest on.

  A computation of type \<open>'a option\<close> stands for a Go call that may fail to return
  normally: \<open>None\<close> is a run-time panic (an index out of range) or a loop that
  does not end. Business errors are never \<open>None\<close>; they are values of a sum type
  or events.
\<close>

named_theorems book_simps \<open>projections and updates of the order book model\<close>
named_theorems db_simps \<open>projections and updates of the database models\<close>

section \<open>Go integer types\<close>

type_synonym uint8 = "8 word"
type_synonym uint16 = "16 word"
type_synonym uint32 = "32 word"

text \<open>\<open>int64\<close> values are integers kept in range; \<open>wrap64\<close> is Go's two's complement
  wrap-around of an arithmetic result.\<close>

definition int64_min :: int where
  "int64_min = - (2 ^ 63)"

definition int64_max :: int where
  "int64_max = 2 ^ 63 - 1"

definition in_int64 :: "int \<Rightarrow> bool" where
  "in_int64 x \<longleftrightarrow> int64_min \<le> x \<and> x \<le> int64_max"

definition wrap64 :: "int \<Rightarrow> int" where
  "wrap64 x = (x + 2 ^ 63) mod 2 ^ 64 - 2 ^ 63"

lemma wrap64_id: "in_int64 x \<Longrightarrow> wrap64 x = x"
  by (simp add: wrap64_def in_int64_def int64_min_def int64_max_def)

lemma in_int64_wrap64: "in_int64 (wrap64 x)"
proof -
  have "0 \<le> (x + 2 ^ 63) mod 2 ^ 64" and "(x + 2 ^ 63) mod 2 ^ 64 < 2 ^ 64"
    by (rule pos_mod_sign pos_mod_bound, simp)+
  then show ?thesis
    by (simp add: wrap64_def in_int64_def int64_min_def int64_max_def)
qed

section \<open>Strings and byte arrays\<close>

text \<open>A Go string is its byte sequence, a \<^typ>\<open>string\<close>; a \<open>[8]byte\<close> array is a list of
  eight characters. \<open>trimRightNul\<close> is \<open>strings.TrimRight (s, "\x00")\<close>; \<open>copy8 s\<close> is
  \<open>var t [8]byte; copy (t[:], s)\<close>.\<close>

definition nul :: char where
  "nul = CHR 0x00"

definition trimRightNul :: "string \<Rightarrow> string" where
  "trimRightNul s = rev (dropWhile (\<lambda>c. c = nul) (rev s))"

definition copy8 :: "string \<Rightarrow> string" where
  "copy8 s = take 8 s @ replicate (8 - length s) nul"

lemma length_copy8 [simp]: "length (copy8 s) = 8"
  by (simp add: copy8_def)

lemma takeWhile_eq_replicate: "takeWhile (\<lambda>c. c = a) xs = replicate (length (takeWhile (\<lambda>c. c = a) xs)) a"
  by (induction xs) auto

lemma trimRightNul_pad:
  "trimRightNul s @ replicate (length s - length (trimRightNul s)) nul = s"
proof -
  let ?tw = "takeWhile (\<lambda>c. c = nul) (rev s)"
  let ?dw = "dropWhile (\<lambda>c. c = nul) (rev s)"
  have s: "s = rev ?dw @ rev ?tw"
    by (metis rev_append rev_rev_ident takeWhile_dropWhile_id)
  have r: "rev ?tw = replicate (length ?tw) nul"
    by (metis rev_replicate takeWhile_eq_replicate)
  have "length ?tw = length s - length ?dw"
    by (metis add_diff_cancel_right' length_append length_rev takeWhile_dropWhile_id)
  with s r show ?thesis
    by (simp add: trimRightNul_def)
qed

lemma length_trimRightNul: "length (trimRightNul s) \<le> length s"
  by (simp add: trimRightNul_def) (metis length_dropWhile_le length_rev)

text \<open>Writing a trader array out as a trimmed string and copying it back is the identity.\<close>

lemma copy8_trimRightNul: "length t = 8 \<Longrightarrow> copy8 (trimRightNul t) = t"
  using length_trimRightNul [of t] trimRightNul_pad [of t] by (simp add: copy8_def)

section \<open>Option computations\<close>

lemma bind_Some_iff: "(do { x \<leftarrow> m; f x }) = Some y \<longleftrightarrow> (\<exists>x. m = Some x \<and> f x = Some y)"
  by (cases m) auto

section \<open>Lists\<close>

lemma sum_list_map_filter_split:
  "sum_list (map f xs) =
   sum_list (map f (filter P xs)) + (sum_list (map f (filter (\<lambda>x. \<not> P x) xs)) :: 'a::comm_monoid_add)"
  by (induction xs) (auto simp: ac_simps)

lemma list_ex_key: "list_ex (\<lambda>r. f r = k) xs \<longleftrightarrow> k \<in> f ` set xs"
  by (auto simp: list_ex_iff)

lemma filter_eq_dropWhile_head:
  "filter P xs = filter P (dropWhile (\<lambda>x. \<not> P x) xs)"
  by (induction xs) auto

lemma dropWhile_Cons_sat: "dropWhile (\<lambda>x. \<not> P x) xs = y # ys \<Longrightarrow> P y"
  by (metis dropWhile_eq_Cons_conv)

section \<open>Rows in an order the database chooses\<close>

text \<open>A query without ORDER BY returns its rows in some order: those with the listed keys first, in
  that order, then the others as they stand. Every order is reached by some list of keys.\<close>

definition orderBy :: "('a \<Rightarrow> 'k) \<Rightarrow> 'k list \<Rightarrow> 'a list \<Rightarrow> 'a list" where
  "orderBy f ks xs = concat (map (\<lambda>k. filter (\<lambda>x. f x = k) xs) (remdups ks)) @ filter (\<lambda>x. f x \<notin> set ks) xs"

lemma set_orderBy [simp]: "set (orderBy f ks xs) = set xs"
  by (auto simp: orderBy_def)

lemma mset_buckets:
  "distinct ks \<Longrightarrow> mset (concat (map (\<lambda>k. filter (\<lambda>x. f x = k) xs) ks)) = mset (filter (\<lambda>x. f x \<in> set ks) xs)"
proof (induction ks)
  case (Cons k ks)
  have "filter_mset (\<lambda>x. f x = k) M + filter_mset (\<lambda>x. f x \<in> set ks) M = filter_mset (\<lambda>x. f x = k \<or> f x \<in> set ks) M" for M
    using Cons.prems by (induction M) auto
  with Cons show ?case by simp
qed simp

lemma mset_orderBy [simp]: "mset (orderBy f ks xs) = mset xs"
  using mset_buckets [of "remdups ks" f xs] by (simp add: orderBy_def)

lemma length_orderBy [simp]: "length (orderBy f ks xs) = length xs"
  by (metis mset_orderBy size_mset)

end
