(* ===== verification/MatchTypes.thy ===== *)
theory MatchTypes
  imports Prelude
begin

text \<open>
  The data of the matching engine (\<open>matchengine/types.go\<close> and the type
  declarations of \<open>matchengine/book.go\<close>): identifiers, prices and sizes at their
  Go widths, orders, fill legs, the events an operation returns, the slots of the
  order pool, the price levels, the book itself and its exported state.
\<close>

section \<open>types.go\<close>

type_synonym OrderID = uint32
type_synonym Price = uint16
type_synonym Size = uint32

datatype Side = Buy | Sell

datatype ExecType = OrderAccepted | OrderFilled | OrderCancelled | OrderRejected

datatype RejectReason =
  RejectUnspecified | RejectPoolExhausted | RejectAlreadyFilled | RejectNotFound

text \<open>\<open>type Order struct\<close>: the trader is an eight byte array.\<close>

record Order =
  oTrader :: string
  oPrice :: Price
  oSize :: Size
  oSide :: Side

record Match =
  mOrderID :: OrderID
  mTrader :: string
  mPrice :: Price
  mQty :: Size

record OrderEvent =
  evOrderID :: OrderID
  evTrader :: string
  evType :: ExecType
  evQtyFilled :: Size
  evQtyRemaining :: Size
  evFills :: "Match list"
  evReason :: RejectReason

record BBOEvent =
  bboBid :: Price
  bboBidQty :: Size
  bboAsk :: Price
  bboAskQty :: Size

text \<open>The sealed interface \<open>Event\<close>.\<close>

datatype Event = EvOrder OrderEvent | EvBBO BBOEvent

record OrderEntry =
  enID :: OrderID
  enTrader :: string
  enPrice :: Price
  enSize :: Size
  enSide :: Side
  enQtyFilled :: Size
  enFills :: "Match list"

record BookState =
  bsOrders :: "OrderEntry list"
  bsBestBid :: Price
  bsBestAsk :: Price
  bsPoolTop :: OrderID

section \<open>The types of book.go\<close>

definition MaxPrice :: nat where
  "MaxPrice = 65536"

definition MaxOrders :: OrderID where
  "MaxOrders = 2 ^ 20"

record orderSlot =
  sTrader :: string
  sSize :: Size
  sNext :: OrderID
  sPrice :: Price
  sSide :: Side
  sActive :: bool
  sQtyFilled :: Size
  sFills :: "Match list"

record priceLevel =
  lHead :: OrderID
  lTail :: OrderID

definition none :: OrderID where
  "none = 0"

type_synonym pool = "OrderID \<Rightarrow> orderSlot"

text \<open>The arrays of the book are functions of the index; the definitions of
  \<open>OrderBook\<close> guard every index by the array's length. The pool is indexed by
  order identifiers, the level arrays by prices read as natural numbers.\<close>

record OrderBook =
  pool :: pool
  poolTop :: OrderID
  buys :: "nat \<Rightarrow> priceLevel"
  sells :: "nat \<Rightarrow> priceLevel"
  bidMax :: uint32
  askMin :: uint32

text \<open>The zero values Go gives a fresh slot and a fresh level.\<close>

definition zeroSlot :: orderSlot where
  "zeroSlot = \<lparr>sTrader = replicate 8 nul, sSize = 0, sNext = 0, sPrice = 0, sSide = Sell,
     sActive = False, sQtyFilled = 0, sFills = []\<rparr>"

definition zeroLevel :: priceLevel where
  "zeroLevel = \<lparr>lHead = 0, lTail = 0\<rparr>"

end
