(* ===== verification/OrderBook.thy ===== *)
theory OrderBook
  imports MatchTypes
begin

text \<open>
  The operations of \<open>matchengine/book.go\<close>. The book keeps its resting orders in a
  pool of slots; every price level is a singly linked FIFO list through the pool,
  and a cancelled order stays linked, marked inactive, until a sweep skips it.
  Walks along a list are \<open>partial_function (option)\<close>: on a cyclic list they would
  not end, and an identifier past the pool is a panic; both are \<^const>\<open>None\<close>.
\<close>

section \<open>Helpers\<close>

definition copyFills :: "Match list \<Rightarrow> Match list" where
  "copyFills src = (if length src = 0 then [] else src)"

definition traderStr :: "string \<Rightarrow> string" where
  "traderStr t = trimRightNul t"

definition min32 :: "Size \<Rightarrow> Size \<Rightarrow> Size" where
  "min32 a b = (if a < b then a else b)"

definition OrderBook_reset :: OrderBook where
  "OrderBook_reset = \<lparr>pool = (\<lambda>_. zeroSlot), poolTop = 1, buys = (\<lambda>_. zeroLevel),
     sells = (\<lambda>_. zeroLevel), bidMax = 0, askMin = of_nat MaxPrice\<rparr>"

definition OrderBook_New :: OrderBook where
  "OrderBook_New = OrderBook_reset"

definition setSlot :: "OrderBook \<Rightarrow> OrderID \<Rightarrow> orderSlot \<Rightarrow> OrderBook" where
  "setSlot b i s = b\<lparr>pool := (pool b)(i := s)\<rparr>"

definition setBuys :: "OrderBook \<Rightarrow> nat \<Rightarrow> priceLevel \<Rightarrow> OrderBook" where
  "setBuys b q l = b\<lparr>buys := (buys b)(q := l)\<rparr>"

definition setSells :: "OrderBook \<Rightarrow> nat \<Rightarrow> priceLevel \<Rightarrow> OrderBook" where
  "setSells b q l = b\<lparr>sells := (sells b)(q := l)\<rparr>"

section \<open>Walking a price level\<close>

text \<open>\<open>for h != none && !b.pool[h].active { h = b.pool[h].next }\<close>\<close>

partial_function (option) firstActive :: "pool \<Rightarrow> OrderID \<Rightarrow> OrderID option" where
  [code]: "firstActive p h =
     (if h = none then Some none
      else if MaxOrders \<le> h then None
      else if sActive (p h) then Some h
      else firstActive p (sNext (p h)))"

text \<open>The quantity loop of \<open>BestBidQty\<close> and \<open>BestAskQty\<close>; the sum wraps at 32 bits.\<close>

partial_function (option) sumActive :: "pool \<Rightarrow> OrderID \<Rightarrow> Size \<Rightarrow> Size option" where
  [code]: "sumActive p cur qty =
     (if cur = none then Some qty
      else if MaxOrders \<le> cur then None
      else sumActive p (sNext (p cur)) (if sActive (p cur) then qty + sSize (p cur) else qty))"

definition entryOf :: "Side \<Rightarrow> pool \<Rightarrow> OrderID \<Rightarrow> OrderEntry" where
  "entryOf sd p i = \<lparr>enID = i, enTrader = sTrader (p i), enPrice = sPrice (p i), enSize = sSize (p i),
     enSide = sd, enQtyFilled = sQtyFilled (p i), enFills = copyFills (sFills (p i))\<rparr>"

text \<open>The inner loops of \<open>Snapshot\<close>.\<close>

partial_function (option) collectActive ::
    "Side \<Rightarrow> pool \<Rightarrow> OrderID \<Rightarrow> OrderEntry list \<Rightarrow> OrderEntry list option" where
  [code]: "collectActive sd p cur acc =
     (if cur = none then Some acc
      else if MaxOrders \<le> cur then None
      else collectActive sd p (sNext (p cur))
             (if sActive (p cur) then acc @ [entryOf sd p cur] else acc))"

definition skipInactive :: "pool \<Rightarrow> priceLevel \<Rightarrow> priceLevel option" where
  "skipInactive p lvl = do {
     h \<leftarrow> firstActive p (lHead lvl);
     Some (if h = none then lvl\<lparr>lHead := h, lTail := none\<rparr> else lvl\<lparr>lHead := h\<rparr>)
   }"

definition enqueue :: "pool \<Rightarrow> priceLevel \<Rightarrow> OrderID \<Rightarrow> (pool \<times> priceLevel) option" where
  "enqueue p lvl i =
     (if MaxOrders \<le> i then None
      else let p1 = p(i := (p i)\<lparr>sNext := none\<rparr>) in
        if lTail lvl \<noteq> none
        then if MaxOrders \<le> lTail lvl then None
             else Some (p1(lTail lvl := (p1 (lTail lvl))\<lparr>sNext := i\<rparr>), lvl\<lparr>lTail := i\<rparr>)
        else Some (p1, lvl\<lparr>lHead := i, lTail := i\<rparr>))"

section \<open>Best prices\<close>

fun bestBidFrom :: "OrderBook \<Rightarrow> nat \<Rightarrow> Price option" where
  "bestBidFrom b 0 = Some 0"
| "bestBidFrom b (Suc p) =
     (if MaxPrice \<le> Suc p then None
      else do {
        h \<leftarrow> firstActive (pool b) (lHead (buys b (Suc p)));
        if h \<noteq> none then Some (of_nat (Suc p)) else bestBidFrom b p
      })"

definition BestBid :: "OrderBook \<Rightarrow> Price option" where
  "BestBid b = bestBidFrom b (unat (bidMax b))"

function bestAskFrom :: "OrderBook \<Rightarrow> nat \<Rightarrow> Price option" where
  "bestAskFrom b p =
     (if p < MaxPrice
      then do {
        h \<leftarrow> firstActive (pool b) (lHead (sells b p));
        if h \<noteq> none then Some (of_nat p) else bestAskFrom b (Suc p)
      }
      else Some 0)"
  by pat_completeness auto
termination
  by (relation "measure (\<lambda>(b, p). MaxPrice - p)") auto

declare bestAskFrom.simps [simp del]

definition BestAsk :: "OrderBook \<Rightarrow> Price option" where
  "BestAsk b = bestAskFrom b (unat (askMin b))"

definition BestBidQty :: "OrderBook \<Rightarrow> Size option" where
  "BestBidQty b = do {
     p \<leftarrow> BestBid b;
     if p = 0 then Some 0 else sumActive (pool b) (lHead (buys b (unat p))) 0
   }"

definition BestAskQty :: "OrderBook \<Rightarrow> Size option" where
  "BestAskQty b = do {
     p \<leftarrow> BestAsk b;
     if p = 0 then Some 0 else sumActive (pool b) (lHead (sells b (unat p))) 0
   }"

text \<open>The four values every operation reads before and after it changes the book.\<close>

definition bbo :: "OrderBook \<Rightarrow> BBOEvent option" where
  "bbo b = do {
     bid \<leftarrow> BestBid b; bidQty \<leftarrow> BestBidQty b;
     ask \<leftarrow> BestAsk b; askQty \<leftarrow> BestAskQty b;
     Some \<lparr>bboBid = bid, bboBidQty = bidQty, bboAsk = ask, bboAskQty = askQty\<rparr>
   }"

definition appendBBOIfChanged :: "OrderBook \<Rightarrow> Event list \<Rightarrow> BBOEvent \<Rightarrow> Event list option" where
  "appendBBOIfChanged b events prev = do {
     new \<leftarrow> bbo b;
     Some (if bboBid new \<noteq> bboBid prev \<or> bboBidQty new \<noteq> bboBidQty prev \<or>
              bboAsk new \<noteq> bboAsk prev \<or> bboAskQty new \<noteq> bboAskQty prev
           then events @ [EvBBO new] else events)
   }"

section \<open>Matching\<close>

definition alloc :: "OrderBook \<Rightarrow> Order \<Rightarrow> OrderBook \<times> OrderID" where
  "alloc b o' =
     (let i = poolTop b in
      (b\<lparr>poolTop := poolTop b + 1,
         pool := (pool b)(i := \<lparr>sTrader = oTrader o', sSize = oSize o', sNext = none,
                                sPrice = oPrice o', sSide = oSide o', sActive = True,
                                sQtyFilled = 0, sFills = []\<rparr>)\<rparr>, i))"

definition filledEvent :: "OrderID \<Rightarrow> orderSlot \<Rightarrow> Event" where
  "filledEvent i s = EvOrder \<lparr>evOrderID = i, evTrader = traderStr (sTrader s), evType = OrderFilled,
     evQtyFilled = sQtyFilled s, evQtyRemaining = sSize s, evFills = copyFills (sFills s),
     evReason = RejectUnspecified\<rparr>"

definition acceptedEvent :: "OrderID \<Rightarrow> orderSlot \<Rightarrow> Event" where
  "acceptedEvent i s = EvOrder \<lparr>evOrderID = i, evTrader = traderStr (sTrader s), evType = OrderAccepted,
     evQtyFilled = sQtyFilled s, evQtyRemaining = sSize s, evFills = copyFills (sFills s),
     evReason = RejectUnspecified\<rparr>"

definition fillSlot :: "orderSlot \<Rightarrow> Match \<Rightarrow> orderSlot" where
  "fillSlot s m = s\<lparr>sSize := sSize s - mQty m, sQtyFilled := sQtyFilled s + mQty m,
     sFills := sFills s @ [m]\<rparr>"

text \<open>The body the loops of \<open>matchBuy\<close> and \<open>matchSell\<close> share, from \<open>fill := min32 (\<dots>)\<close> to the
  aggressor's event: both orders give up \<open>fill\<close> at the resting price and record the leg.\<close>

definition fillPair :: "OrderBook \<Rightarrow> OrderID \<Rightarrow> OrderID \<Rightarrow> OrderBook \<times> Event list" where
  "fillPair b i restingID =
     (let fill = min32 (sSize (pool b i)) (sSize (pool b restingID));
          price = sPrice (pool b restingID);
          b1 = setSlot b i (fillSlot (pool b i)
                 \<lparr>mOrderID = restingID, mTrader = traderStr (sTrader (pool b restingID)),
                  mPrice = price, mQty = fill\<rparr>);
          b2 = setSlot b1 restingID (fillSlot (pool b1 restingID)
                 \<lparr>mOrderID = i, mTrader = traderStr (sTrader (pool b1 i)),
                  mPrice = price, mQty = fill\<rparr>)
      in (b2, [filledEvent restingID (pool b2 restingID), filledEvent i (pool b2 i)]))"

text \<open>\<open>resting.active = false; lvl.head = resting.next; if lvl.head == none { lvl.tail = none }\<close>\<close>

definition popHead :: "orderSlot \<Rightarrow> priceLevel \<Rightarrow> priceLevel" where
  "popHead s lvl = (if sNext s = none then lvl\<lparr>lHead := sNext s, lTail := none\<rparr>
                    else lvl\<lparr>lHead := sNext s\<rparr>)"

partial_function (option) matchBuyLoop ::
    "OrderBook \<Rightarrow> OrderID \<Rightarrow> Price \<Rightarrow> Event list \<Rightarrow> (OrderBook \<times> Event list) option" where
  [code]: "matchBuyLoop b i price events =
     (if 0 < sSize (pool b i) \<and> askMin b \<le> ucast price
      then if MaxPrice \<le> unat (askMin b) then None
      else do {
        lvl \<leftarrow> skipInactive (pool b) (sells b (unat (askMin b)));
        let q = unat (askMin b); b1 = setSells b q lvl in
        if lHead lvl = none then matchBuyLoop (b1\<lparr>askMin := askMin b1 + 1\<rparr>) i price events
        else let r = lHead lvl; (b2, es) = fillPair b1 i r in
          if sSize (pool b2 r) = 0
          then let b3 = setSlot b2 r ((pool b2 r)\<lparr>sActive := False\<rparr>);
                   lvl' = popHead (pool b3 r) lvl;
                   b4 = setSells b3 q lvl';
                   b5 = (if lHead lvl' = none then b4\<lparr>askMin := askMin b4 + 1\<rparr> else b4)
               in matchBuyLoop b5 i price (events @ es)
          else matchBuyLoop b2 i price (events @ es)
      }
      else Some (b, events))"

partial_function (option) matchSellLoop ::
    "OrderBook \<Rightarrow> OrderID \<Rightarrow> Price \<Rightarrow> Event list \<Rightarrow> (OrderBook \<times> Event list) option" where
  [code]: "matchSellLoop b i price events =
     (if 0 < sSize (pool b i) \<and> ucast price \<le> bidMax b \<and> 0 < bidMax b
      then if MaxPrice \<le> unat (bidMax b) then None
      else do {
        lvl \<leftarrow> skipInactive (pool b) (buys b (unat (bidMax b)));
        let q = unat (bidMax b); b1 = setBuys b q lvl in
        if lHead lvl = none then matchSellLoop (b1\<lparr>bidMax := bidMax b1 - 1\<rparr>) i price events
        else let r = lHead lvl; (b2, es) = fillPair b1 i r in
          if sSize (pool b2 r) = 0
          then let b3 = setSlot b2 r ((pool b2 r)\<lparr>sActive := False\<rparr>);
                   lvl' = popHead (pool b3 r) lvl;
                   b4 = setBuys b3 q lvl';
                   b5 = (if lHead lvl' = none
                         then if 0 < bidMax b4 then b4\<lparr>bidMax := bidMax b4 - 1\<rparr> else b4
                         else b4)
               in matchSellLoop b5 i price (events @ es)
          else matchSellLoop b2 i price (events @ es)
      }
      else Some (b, events))"

definition matchBuy :: "OrderBook \<Rightarrow> OrderID \<Rightarrow> Order \<Rightarrow> Event list \<Rightarrow> (OrderBook \<times> Event list) option" where
  "matchBuy b i order events = do {
     (b1, events1) \<leftarrow> matchBuyLoop b i (oPrice order) events;
     if 0 < sSize (pool b1 i)
     then do {
       (p, lvl) \<leftarrow> enqueue (pool b1) (buys b1 (unat (oPrice order))) i;
       let b2 = setBuys (b1\<lparr>pool := p\<rparr>) (unat (oPrice order)) lvl;
       let b3 = (if bidMax b2 < ucast (oPrice order) then b2\<lparr>bidMax := ucast (oPrice order)\<rparr> else b2);
       Some (b3, events1 @ [acceptedEvent i (pool b3 i)])
     }
     else Some (setSlot b1 i ((pool b1 i)\<lparr>sActive := False\<rparr>), events1)
   }"

definition matchSell :: "OrderBook \<Rightarrow> OrderID \<Rightarrow> Order \<Rightarrow> Event list \<Rightarrow> (OrderBook \<times> Event list) option" where
  "matchSell b i order events = do {
     (b1, events1) \<leftarrow> matchSellLoop b i (oPrice order) events;
     if 0 < sSize (pool b1 i)
     then do {
       (p, lvl) \<leftarrow> enqueue (pool b1) (sells b1 (unat (oPrice order))) i;
       let b2 = setSells (b1\<lparr>pool := p\<rparr>) (unat (oPrice order)) lvl;
       let b3 = (if ucast (oPrice order) < askMin b2 then b2\<lparr>askMin := ucast (oPrice order)\<rparr> else b2);
       Some (b3, events1 @ [acceptedEvent i (pool b3 i)])
     }
     else Some (setSlot b1 i ((pool b1 i)\<lparr>sActive := False\<rparr>), events1)
   }"

section \<open>Limit, Cancel\<close>

definition rejectEvent :: "OrderID \<Rightarrow> string \<Rightarrow> RejectReason \<Rightarrow> Event" where
  "rejectEvent i t reason = EvOrder \<lparr>evOrderID = i, evTrader = t, evType = OrderRejected,
     evQtyFilled = 0, evQtyRemaining = 0, evFills = [], evReason = reason\<rparr>"

definition Limit :: "OrderBook \<Rightarrow> Order \<Rightarrow> (OrderBook \<times> OrderID \<times> Event list) option" where
  "Limit b order =
     (if oPrice order = 0
      then Some (b, none, [rejectEvent none (traderStr (oTrader order)) RejectUnspecified])
      else if MaxOrders \<le> poolTop b
      then Some (b, none, [rejectEvent none (traderStr (oTrader order)) RejectPoolExhausted])
      else do {
        let (b1, i) = alloc b order;
        prev \<leftarrow> bbo b1;
        (b2, events) \<leftarrow> (if oSide order = Buy then matchBuy b1 i order [] else matchSell b1 i order []);
        events' \<leftarrow> appendBBOIfChanged b2 events prev;
        Some (b2, i, events')
      })"

definition cancelledEvent :: "OrderID \<Rightarrow> orderSlot \<Rightarrow> Size \<Rightarrow> Event" where
  "cancelledEvent i s remaining = EvOrder \<lparr>evOrderID = i, evTrader = traderStr (sTrader s),
     evType = OrderCancelled, evQtyFilled = sQtyFilled s, evQtyRemaining = remaining,
     evFills = copyFills (sFills s), evReason = RejectUnspecified\<rparr>"

definition Cancel :: "OrderBook \<Rightarrow> OrderID \<Rightarrow> (OrderBook \<times> Event list) option" where
  "Cancel b i =
     (if i = none \<or> poolTop b \<le> i then Some (b, [rejectEvent i [] RejectNotFound])
      else if MaxOrders \<le> i then None
      else if \<not> sActive (pool b i)
      then Some (b, [rejectEvent i [] (if sSize (pool b i) = 0 \<and> i < poolTop b
                                       then RejectAlreadyFilled else RejectNotFound)])
      else do {
        prev \<leftarrow> bbo b;
        let remaining = sSize (pool b i);
        let sd = sSide (pool b i);
        let price = sPrice (pool b i);
        let b1 = setSlot b i ((pool b i)\<lparr>sActive := False, sSize := 0\<rparr>);
        b2 \<leftarrow> (if sd = Buy \<and> ucast price = bidMax b1
               then do { bb \<leftarrow> BestBid b1; Some (b1\<lparr>bidMax := ucast bb\<rparr>) }
               else if sd = Sell
               then do { ba \<leftarrow> BestAsk b1;
                         Some (b1\<lparr>askMin := (if ba = 0 then of_nat MaxPrice else ucast ba)\<rparr>) }
               else Some b1);
        events \<leftarrow> appendBBOIfChanged b2 [cancelledEvent i (pool b2 i) remaining] prev;
        Some (b2, events)
      })"

section \<open>Snapshot, Restore\<close>

fun snapshotBids :: "OrderBook \<Rightarrow> nat \<Rightarrow> OrderEntry list \<Rightarrow> OrderEntry list option" where
  "snapshotBids b 0 acc = Some acc"
| "snapshotBids b (Suc p) acc =
     (if MaxPrice \<le> Suc p then None
      else do {
        acc' \<leftarrow> collectActive Buy (pool b) (lHead (buys b (Suc p))) acc;
        snapshotBids b p acc'
      })"

function snapshotAsks :: "OrderBook \<Rightarrow> nat \<Rightarrow> OrderEntry list \<Rightarrow> OrderEntry list option" where
  "snapshotAsks b p acc =
     (if p < MaxPrice
      then do {
        acc' \<leftarrow> collectActive Sell (pool b) (lHead (sells b p)) acc;
        snapshotAsks b (Suc p) acc'
      }
      else Some acc)"
  by pat_completeness auto
termination
  by (relation "measure (\<lambda>(b, p, acc). MaxPrice - p)") auto

declare snapshotAsks.simps [simp del]

definition Snapshot :: "OrderBook \<Rightarrow> BookState option" where
  "Snapshot b = do {
     bid \<leftarrow> BestBid b;
     ask \<leftarrow> BestAsk b;
     os \<leftarrow> snapshotBids b (unat bid) [];
     if ask = 0
     then Some \<lparr>bsOrders = os, bsBestBid = bid, bsBestAsk = ask, bsPoolTop = poolTop b\<rparr>
     else do {
       os' \<leftarrow> snapshotAsks b (unat ask) os;
       Some \<lparr>bsOrders = os', bsBestBid = bid, bsBestAsk = ask, bsPoolTop = poolTop b\<rparr>
     }
   }"

text \<open>One iteration of the loop of \<open>Restore\<close>.\<close>

definition restoreEntry :: "OrderBook \<Rightarrow> OrderEntry \<Rightarrow> OrderBook option" where
  "restoreEntry b e =
     (if enID e = none \<or> MaxOrders \<le> enID e then Some b
      else let b1 = setSlot b (enID e)
                 \<lparr>sTrader = enTrader e, sSize = enSize e, sNext = none, sPrice = enPrice e,
                  sSide = enSide e, sActive = True, sQtyFilled = enQtyFilled e,
                  sFills = copyFills (enFills e)\<rparr>
           in if enSide e = Buy
              then do {
                (p, lvl) \<leftarrow> enqueue (pool b1) (buys b1 (unat (enPrice e))) (enID e);
                Some (setBuys (b1\<lparr>pool := p\<rparr>) (unat (enPrice e)) lvl)
              }
              else do {
                (p, lvl) \<leftarrow> enqueue (pool b1) (sells b1 (unat (enPrice e))) (enID e);
                Some (setSells (b1\<lparr>pool := p\<rparr>) (unat (enPrice e)) lvl)
              })"

fun restoreEntries :: "OrderBook \<Rightarrow> OrderEntry list \<Rightarrow> OrderBook option" where
  "restoreEntries b [] = Some b"
| "restoreEntries b (e # es) = do { b' \<leftarrow> restoreEntry b e; restoreEntries b' es }"

definition Restore :: "BookState \<Rightarrow> OrderBook option" where
  "Restore state = do {
     b \<leftarrow> restoreEntries OrderBook_reset (bsOrders state);
     let top = (if bsPoolTop state < 1 then 1 else bsPoolTop state);
     Some (b\<lparr>bidMax := ucast (bsBestBid state),
             askMin := (if bsBestAsk state = 0 then of_nat MaxPrice else ucast (bsBestAsk state)),
             poolTop := top\<rparr>)
   }"

end
