(* ===== verification/Chain.thy ===== *)
theory Chain
  imports OrderBook
begin

text \<open>
  Price levels as lists. \<open>chain p h is\<close> says that following \<open>next\<close> from \<open>h\<close> in the
  pool \<open>p\<close> visits exactly \<open>is\<close> and stops; \<open>level_rep\<close> adds the tail pointer. Every
  walk and every pointer operation of the engine is characterised on the list it
  denotes; in particular the walks return, which an arbitrary pool does not
  guarantee.
\<close>

section \<open>Linked lists in the pool\<close>

fun chain :: "pool \<Rightarrow> OrderID \<Rightarrow> OrderID list \<Rightarrow> bool" where
  "chain p h [] \<longleftrightarrow> h = none"
| "chain p h (i # is) \<longleftrightarrow> h = i \<and> i \<noteq> none \<and> i < MaxOrders \<and> chain p (sNext (p i)) is"

lemma chain_none [simp]: "chain p none is \<longleftrightarrow> is = []"
  by (cases "is") auto

lemma chain_unique: "chain p h is \<Longrightarrow> chain p h js \<Longrightarrow> is = js"
proof (induction "is" arbitrary: h js)
  case Nil
  then show ?case by simp
next
  case (Cons i "is")
  then show ?case by (cases js) auto
qed

lemma chain_append: "chain p h (is @ js) \<Longrightarrow> \<exists>k. chain p k js"
  by (induction "is" arbitrary: h) auto

lemma chain_head_notin: "chain p h (i # is) \<Longrightarrow> i \<notin> set is"
proof
  assume c: "chain p h (i # is)" and "i \<in> set is"
  then obtain xs ys where s: "is = xs @ i # ys"
    by (meson split_list)
  from c s obtain k where "chain p k (i # ys)"
    using chain_append [of p h "i # xs" "i # ys"] by auto
  with c have "chain p (sNext (p i)) ys" and "chain p (sNext (p i)) is"
    by auto
  then have "ys = is"
    by (rule chain_unique)
  with s show False
    by (metis append_eq_append_conv2 append_self_conv2 length_Cons length_append lessI
        not_add_less2 order.irrefl)
qed

lemma chain_distinct: "chain p h is \<Longrightarrow> distinct is"
proof (induction "is" arbitrary: h)
  case Nil
  then show ?case by simp
next
  case (Cons i "is")
  then have "distinct is"
    by auto
  with Cons.prems show ?case
    using chain_head_notin by fastforce
qed

lemma chain_ids: "chain p h is \<Longrightarrow> i \<in> set is \<Longrightarrow> i \<noteq> none \<and> i < MaxOrders"
  by (induction "is" arbitrary: h) auto

text \<open>Only the \<open>next\<close> fields of the listed slots matter.\<close>

lemma chain_cong:
  "(\<And>i. i \<in> set is \<Longrightarrow> sNext (p' i) = sNext (p i)) \<Longrightarrow> chain p' h is = chain p h is"
  by (induction "is" arbitrary: h) auto

lemma chain_upd_notin [simp]: "i \<notin> set is \<Longrightarrow> chain (p(i := s)) h is = chain p h is"
  by (rule chain_cong) auto

lemma chain_dropWhile: "chain p h is \<Longrightarrow> \<exists>k. chain p k (dropWhile P is)"
  by (induction "is" arbitrary: h) auto

lemma chain_snoc:
  "chain p h (xs @ [t]) \<Longrightarrow> i \<notin> set (xs @ [t]) \<Longrightarrow> i \<noteq> none \<Longrightarrow> i < MaxOrders \<Longrightarrow>
   sNext (p i) = none \<Longrightarrow> chain (p(t := (p t)\<lparr>sNext := i\<rparr>)) h (xs @ [t, i])"
proof (induction xs arbitrary: h)
  case Nil
  then show ?case by auto
next
  case (Cons x xs)
  then have "x \<notin> set (xs @ [t])"
    by (metis append_Cons chain_head_notin)
  with Cons show ?case by auto
qed

section \<open>The walks return\<close>

definition live :: "pool \<Rightarrow> OrderID list \<Rightarrow> OrderID list" where
  "live p is = filter (\<lambda>i. sActive (p i)) is"

lemma live_simps [simp]:
  "live p [] = []"
  "live p (i # is) = (if sActive (p i) then i # live p is else live p is)"
  "live p (is @ js) = live p is @ live p js"
  by (auto simp: live_def)

lemma set_live: "set (live p is) = {i \<in> set is. sActive (p i)}"
  by (auto simp: live_def)

lemma live_cong: "(\<And>i. i \<in> set is \<Longrightarrow> sActive (p' i) = sActive (p i)) \<Longrightarrow> live p' is = live p is"
  by (induction "is") auto

lemma live_upd_notin [simp]: "i \<notin> set is \<Longrightarrow> live (p(i := s)) is = live p is"
  by (rule live_cong) auto

lemma live_dropWhile: "live p (dropWhile (\<lambda>i. \<not> sActive (p i)) is) = live p is"
  by (induction "is") auto

lemma live_Nil_dropWhile: "live p is = [] \<longleftrightarrow> dropWhile (\<lambda>i. \<not> sActive (p i)) is = []"
  by (induction "is") auto

definition hdOrNone :: "OrderID list \<Rightarrow> OrderID" where
  "hdOrNone is = (case is of [] \<Rightarrow> none | i # _ \<Rightarrow> i)"

lemma hdOrNone_simps [simp]: "hdOrNone [] = none" "hdOrNone (i # is) = i"
  by (auto simp: hdOrNone_def)

lemma chain_head: "chain p h is \<Longrightarrow> h = hdOrNone is"
  by (cases "is") auto

lemma firstActive_chain: "chain p h is \<Longrightarrow> firstActive p h = Some (hdOrNone (live p is))"
proof (induction "is" arbitrary: h)
  case Nil
  then show ?case by (simp add: firstActive.simps)
next
  case (Cons i "is")
  then show ?case by (subst firstActive.simps) auto
qed

lemma sumActive_chain:
  "chain p h is \<Longrightarrow> sumActive p h qty = Some (qty + sum_list (map (\<lambda>i. sSize (p i)) (live p is)))"
proof (induction "is" arbitrary: h qty)
  case Nil
  then show ?case by (simp add: sumActive.simps)
next
  case (Cons i "is")
  then show ?case by (subst sumActive.simps) (auto simp: add.assoc)
qed

lemma collectActive_chain:
  "chain p h is \<Longrightarrow> collectActive sd p h acc = Some (acc @ map (entryOf sd p) (live p is))"
proof (induction "is" arbitrary: h acc)
  case Nil
  then show ?case by (simp add: collectActive.simps)
next
  case (Cons i "is")
  then show ?case by (subst collectActive.simps) auto
qed

section \<open>Levels\<close>

definition level_rep :: "pool \<Rightarrow> priceLevel \<Rightarrow> OrderID list \<Rightarrow> bool" where
  "level_rep p l is \<longleftrightarrow> chain p (lHead l) is \<and> lTail l = (if is = [] then none else last is)"

lemma level_rep_chain: "level_rep p l is \<Longrightarrow> chain p (lHead l) is"
  by (simp add: level_rep_def)

lemma level_rep_zero: "level_rep p zeroLevel []"
  by (simp add: level_rep_def zeroLevel_def none_def)

lemma level_rep_cong:
  "(\<And>i. i \<in> set is \<Longrightarrow> sNext (p' i) = sNext (p i)) \<Longrightarrow> level_rep p' l is = level_rep p l is"
  using chain_cong [of "is" p' p] by (auto simp: level_rep_def)

lemma level_rep_upd_notin [simp]: "i \<notin> set is \<Longrightarrow> level_rep (p(i := s)) l is = level_rep p l is"
  by (rule level_rep_cong) auto

lemma hdOrNone_live_dropWhile:
  "hdOrNone (dropWhile (\<lambda>i. \<not> sActive (p i)) is) = hdOrNone (live p is)"
  by (induction "is") auto

lemma skipInactive_rep:
  assumes "level_rep p l is"
  shows "\<exists>l'. skipInactive p l = Some l' \<and> level_rep p l' (dropWhile (\<lambda>i. \<not> sActive (p i)) is) \<and>
    lHead l' = hdOrNone (live p is)"
proof -
  define d where "d = dropWhile (\<lambda>i. \<not> sActive (p i)) is"
  have c: "chain p (lHead l) is"
    using assms by (rule level_rep_chain)
  obtain k where k: "chain p k d"
    using c chain_dropWhile unfolding d_def by blast
  have hd: "hdOrNone d = hdOrNone (live p is)"
    unfolding d_def by (rule hdOrNone_live_dropWhile)
  have last: "last d = last is \<and> is \<noteq> []" if "d \<noteq> []"
    using that unfolding d_def by (metis dropWhile.simps(1) last_appendR takeWhile_dropWhile_id)
  have "level_rep p (if k = none then l\<lparr>lHead := k, lTail := none\<rparr> else l\<lparr>lHead := k\<rparr>) d"
    using k last assms by (cases d) (auto simp: level_rep_def)
  moreover have "k = hdOrNone (live p is)"
    using chain_head [OF k] hd by simp
  ultimately show ?thesis
    using c unfolding d_def [symmetric] by (auto simp: skipInactive_def firstActive_chain)
qed

lemma enqueue_rep:
  assumes "level_rep p l is" and "i \<notin> set is" and "i \<noteq> none" and "i < MaxOrders"
  shows "\<exists>p' l'. enqueue p l i = Some (p', l') \<and> level_rep p' l' (is @ [i]) \<and>
    (\<forall>j. p' j = (p j)\<lparr>sNext := sNext (p' j)\<rparr>) \<and> (\<forall>j. j \<noteq> i \<longrightarrow> j \<notin> set is \<longrightarrow> p' j = p j)"
proof (cases "is" rule: rev_cases)
  case Nil
  with assms show ?thesis
    by (auto simp: enqueue_def level_rep_def Let_def)
next
  case (snoc xs t)
  with assms have t: "lTail l = t" "t \<noteq> none" "t < MaxOrders" "t \<noteq> i"
    using chain_ids [OF level_rep_chain [OF assms(1)], of t] by (auto simp: level_rep_def)
  let ?p1 = "p(i := (p i)\<lparr>sNext := none\<rparr>)"
  have "chain ?p1 (lHead l) (xs @ [t])"
    using assms(1,2) snoc by (simp add: level_rep_def)
  then have "chain (?p1(t := (?p1 t)\<lparr>sNext := i\<rparr>)) (lHead l) (xs @ [t, i])"
    using assms(2-4) snoc by (intro chain_snoc) auto
  with assms t snoc show ?thesis
    by (auto simp: enqueue_def level_rep_def Let_def not_le)
qed

lemma popHead_rep:
  assumes "level_rep p l (r # is)"
  shows "level_rep p (popHead (p r) l) is \<and> lHead (popHead (p r) l) = hdOrNone is"
  using assms by (cases "is") (auto simp: level_rep_def popHead_def)

end
