(* ===== verification/BookSpec.thy ===== *)
theory BookSpec
  imports OrderBook
begin

text \<open>
  What the order book promises, without pool, pointers or cursors: two lists of
  resting orders in priority order (best price first, oldest first within a
  price) and the next identifier. An incoming order sweeps the opposite list from
  its head while the price crosses, the remainder is inserted behind the orders
  of its own price, and a cancel removes one entry. \<open>BookRefine\<close> shows that the
  engine of \<open>book.go\<close> implements these operations, event for event.
\<close>

record abook =
  aBids :: "OrderEntry list"
  aAsks :: "OrderEntry list"
  aTop :: OrderID

definition aNew :: abook where
  "aNew = \<lparr>aBids = [], aAsks = [], aTop = 1\<rparr>"

section \<open>Events and fills of an entry\<close>

definition entryEvent :: "ExecType \<Rightarrow> OrderEntry \<Rightarrow> Event" where
  "entryEvent t e = EvOrder \<lparr>evOrderID = enID e, evTrader = traderStr (enTrader e), evType = t,
     evQtyFilled = enQtyFilled e, evQtyRemaining = enSize e, evFills = enFills e,
     evReason = RejectUnspecified\<rparr>"

definition legOf :: "OrderEntry \<Rightarrow> Price \<Rightarrow> Size \<Rightarrow> Match" where
  "legOf e price qty = \<lparr>mOrderID = enID e, mTrader = traderStr (enTrader e), mPrice = price, mQty = qty\<rparr>"

definition fillEntry :: "OrderEntry \<Rightarrow> Match \<Rightarrow> OrderEntry" where
  "fillEntry e m = e\<lparr>enSize := enSize e - mQty m, enQtyFilled := enQtyFilled e + mQty m,
     enFills := enFills e @ [m]\<rparr>"

definition tradeQty :: "OrderEntry \<Rightarrow> OrderEntry \<Rightarrow> Size" where
  "tradeQty a r = min32 (enSize a) (enSize r)"

text \<open>One trade: the aggressor \<open>a\<close> and the resting order \<open>r\<close> after it.\<close>

definition tradeAgg :: "OrderEntry \<Rightarrow> OrderEntry \<Rightarrow> OrderEntry" where
  "tradeAgg a r = fillEntry a (legOf r (enPrice r) (tradeQty a r))"

definition tradeRest :: "OrderEntry \<Rightarrow> OrderEntry \<Rightarrow> OrderEntry" where
  "tradeRest a r = fillEntry r (legOf a (enPrice r) (tradeQty a r))"

lemma fillEntry_simps [simp]:
  "enID (fillEntry e m) = enID e" "enTrader (fillEntry e m) = enTrader e"
  "enPrice (fillEntry e m) = enPrice e" "enSide (fillEntry e m) = enSide e"
  "enSize (fillEntry e m) = enSize e - mQty m"
  "enQtyFilled (fillEntry e m) = enQtyFilled e + mQty m"
  "enFills (fillEntry e m) = enFills e @ [m]"
  by (simp_all add: fillEntry_def)

lemma trade_simps [simp]:
  "enID (tradeAgg a r) = enID a" "enID (tradeRest a r) = enID r"
  "enTrader (tradeAgg a r) = enTrader a" "enTrader (tradeRest a r) = enTrader r"
  "enPrice (tradeAgg a r) = enPrice a" "enPrice (tradeRest a r) = enPrice r"
  "enSide (tradeAgg a r) = enSide a" "enSide (tradeRest a r) = enSide r"
  "enSize (tradeAgg a r) = enSize a - tradeQty a r"
  "enSize (tradeRest a r) = enSize r - tradeQty a r"
  by (simp_all add: tradeAgg_def tradeRest_def legOf_def)

text \<open>Every trade exhausts one of the two orders.\<close>

lemma trade_exhausts: "enSize (tradeRest a r) \<noteq> 0 \<Longrightarrow> enSize (tradeAgg a r) = 0"
  by (auto simp: tradeQty_def min32_def split: if_splits)

section \<open>Sweeping\<close>

fun sweep :: "(Price \<Rightarrow> bool) \<Rightarrow> OrderEntry \<Rightarrow> OrderEntry list \<Rightarrow>
    OrderEntry \<times> OrderEntry list \<times> Event list" where
  "sweep ok a [] = (a, [], [])"
| "sweep ok a (r # rs) =
     (if enSize a = 0 \<or> \<not> ok (enPrice r) then (a, r # rs, [])
      else let a' = tradeAgg a r; r' = tradeRest a r;
               evs = [entryEvent OrderFilled r', entryEvent OrderFilled a'] in
        if enSize r' = 0
        then let (a2, rs2, es) = sweep ok a' rs in (a2, rs2, evs @ es)
        else (a', r' # rs, evs))"

lemma sweep_done [simp]: "enSize a = 0 \<Longrightarrow> sweep ok a rs = (a, rs, [])"
  by (cases rs) auto

lemma sweep_not_ok: "(\<And>r. r \<in> set rs \<Longrightarrow> \<not> ok (enPrice r)) \<Longrightarrow> sweep ok a rs = (a, rs, [])"
  by (cases rs) auto

section \<open>The operations\<close>

definition buyOk :: "Price \<Rightarrow> Price \<Rightarrow> bool" where
  "buyOk limit p \<longleftrightarrow> p \<le> limit"

definition sellOk :: "Price \<Rightarrow> Price \<Rightarrow> bool" where
  "sellOk limit p \<longleftrightarrow> limit \<le> p"

definition insertBid :: "OrderEntry \<Rightarrow> OrderEntry list \<Rightarrow> OrderEntry list" where
  "insertBid e es = takeWhile (\<lambda>x. enPrice e \<le> enPrice x) es @ e #
     dropWhile (\<lambda>x. enPrice e \<le> enPrice x) es"

definition insertAsk :: "OrderEntry \<Rightarrow> OrderEntry list \<Rightarrow> OrderEntry list" where
  "insertAsk e es = takeWhile (\<lambda>x. enPrice x \<le> enPrice e) es @ e #
     dropWhile (\<lambda>x. enPrice x \<le> enPrice e) es"

definition bestPrice :: "OrderEntry list \<Rightarrow> Price" where
  "bestPrice es = (case es of [] \<Rightarrow> 0 | e # _ \<Rightarrow> enPrice e)"

definition bestQty :: "OrderEntry list \<Rightarrow> Size" where
  "bestQty es = sum_list (map enSize (filter (\<lambda>e. enPrice e = bestPrice es) es))"

definition aBBO :: "abook \<Rightarrow> BBOEvent" where
  "aBBO a = \<lparr>bboBid = bestPrice (aBids a), bboBidQty = bestQty (aBids a),
     bboAsk = bestPrice (aAsks a), bboAskQty = bestQty (aAsks a)\<rparr>"

definition bboChange :: "abook \<Rightarrow> abook \<Rightarrow> Event list" where
  "bboChange a a' = (if aBBO a' = aBBO a then [] else [EvBBO (aBBO a')])"

definition newEntry :: "abook \<Rightarrow> Order \<Rightarrow> OrderEntry" where
  "newEntry a order = \<lparr>enID = aTop a, enTrader = oTrader order, enPrice = oPrice order,
     enSize = oSize order, enSide = oSide order, enQtyFilled = 0, enFills = []\<rparr>"

definition aBuy :: "abook \<Rightarrow> Order \<Rightarrow> abook \<times> Event list" where
  "aBuy a order =
     (let (e, asks, evs) = sweep (buyOk (oPrice order)) (newEntry a order) (aAsks a) in
      if enSize e = 0 then (a\<lparr>aAsks := asks, aTop := aTop a + 1\<rparr>, evs)
      else (a\<lparr>aAsks := asks, aBids := insertBid e (aBids a), aTop := aTop a + 1\<rparr>,
            evs @ [entryEvent OrderAccepted e]))"

definition aSell :: "abook \<Rightarrow> Order \<Rightarrow> abook \<times> Event list" where
  "aSell a order =
     (let (e, bids, evs) = sweep (sellOk (oPrice order)) (newEntry a order) (aBids a) in
      if enSize e = 0 then (a\<lparr>aBids := bids, aTop := aTop a + 1\<rparr>, evs)
      else (a\<lparr>aBids := bids, aAsks := insertAsk e (aAsks a), aTop := aTop a + 1\<rparr>,
            evs @ [entryEvent OrderAccepted e]))"

definition aLimit :: "abook \<Rightarrow> Order \<Rightarrow> abook \<times> OrderID \<times> Event list" where
  "aLimit a order =
     (if oPrice order = 0
      then (a, none, [rejectEvent none (traderStr (oTrader order)) RejectUnspecified])
      else if MaxOrders \<le> aTop a
      then (a, none, [rejectEvent none (traderStr (oTrader order)) RejectPoolExhausted])
      else let (a', evs) = (if oSide order = Buy then aBuy a order else aSell a order)
           in (a', aTop a, evs @ bboChange a a'))"

definition findEntry :: "abook \<Rightarrow> OrderID \<Rightarrow> OrderEntry option" where
  "findEntry a i = List.find (\<lambda>e. enID e = i) (aBids a @ aAsks a)"

definition dropEntry :: "OrderID \<Rightarrow> abook \<Rightarrow> abook" where
  "dropEntry i a = a\<lparr>aBids := filter (\<lambda>e. enID e \<noteq> i) (aBids a),
     aAsks := filter (\<lambda>e. enID e \<noteq> i) (aAsks a)\<rparr>"

definition aCancel :: "abook \<Rightarrow> OrderID \<Rightarrow> abook \<times> Event list" where
  "aCancel a i =
     (if i = none \<or> aTop a \<le> i then (a, [rejectEvent i [] RejectNotFound])
      else case findEntry a i of
        None \<Rightarrow> (a, [rejectEvent i [] RejectAlreadyFilled])
      | Some e \<Rightarrow> (let a' = dropEntry i a in (a', entryEvent OrderCancelled e # bboChange a a')))"

definition aState :: "abook \<Rightarrow> BookState" where
  "aState a = \<lparr>bsOrders = aBids a @ aAsks a, bsBestBid = bestPrice (aBids a),
     bsBestAsk = bestPrice (aAsks a), bsPoolTop = aTop a\<rparr>"

end
