(* ===== verification/MatchSide.thy ===== *)
theory MatchSide
  imports Chain BookSpec
begin

text \<open>
  One side of the book and the loop that sweeps it. \<open>matchBuy\<close> runs along the ask
  levels upwards, \<open>matchSell\<close> along the bid levels downwards; apart from that their
  loops are the same text. The locale \<open>match_side\<close> states what such a side provides
  (its levels, its cursor, the order in which levels are scanned, the equation of
  its loop) and proves once that the loop returns and computes
  \<^const>\<open>sweep\<close> of the abstract book. It is interpreted for both sides.
\<close>

section \<open>One side as per-price lists\<close>

definition side_rep :: "Side \<Rightarrow> pool \<Rightarrow> (nat \<Rightarrow> priceLevel) \<Rightarrow> (nat \<Rightarrow> OrderID list) \<Rightarrow> bool" where
  "side_rep sd p lv L \<longleftrightarrow>
     (\<forall>q<MaxPrice. level_rep p (lv q) (L q) \<and>
        (\<forall>i\<in>set (L q). sSide (p i) = sd \<and> unat (sPrice (p i)) = q)) \<and> L 0 = []"

definition flat :: "Side \<Rightarrow> pool \<Rightarrow> (nat \<Rightarrow> OrderID list) \<Rightarrow> nat list \<Rightarrow> OrderEntry list" where
  "flat sd p L qs = concat (map (\<lambda>q. map (entryOf sd p) (live p (L q))) qs)"

lemma flat_simps [simp]:
  "flat sd p L [] = []"
  "flat sd p L (q # qs) = map (entryOf sd p) (live p (L q)) @ flat sd p L qs"
  "flat sd p L (qs @ qs') = flat sd p L qs @ flat sd p L qs'"
  by (simp_all add: flat_def)

lemma flat_cong:
  assumes "\<And>q. q \<in> set qs \<Longrightarrow> L' q = L q" and "\<And>q j. q \<in> set qs \<Longrightarrow> j \<in> set (L q) \<Longrightarrow> p' j = p j"
  shows "flat sd p' L' qs = flat sd p L qs"
proof -
  have "map (entryOf sd p') (live p' (L' q)) = map (entryOf sd p) (live p (L q))" if "q \<in> set qs" for q
  proof -
    have "live p' (L q) = live p (L q)"
      using that assms(2) by (intro live_cong) auto
    with that assms show ?thesis
      by (auto simp: set_live entryOf_def)
  qed
  then show ?thesis
    by (simp add: flat_def cong: map_cong)
qed

lemma side_rep_level: "side_rep sd p lv L \<Longrightarrow> q < MaxPrice \<Longrightarrow> level_rep p (lv q) (L q)"
  by (simp add: side_rep_def)

lemma side_rep_ids:
  "side_rep sd p lv L \<Longrightarrow> q < MaxPrice \<Longrightarrow> i \<in> set (L q) \<Longrightarrow>
   sSide (p i) = sd \<and> unat (sPrice (p i)) = q \<and> i \<noteq> none \<and> i < MaxOrders"
  using chain_ids [OF level_rep_chain] by (fastforce simp: side_rep_def)

text \<open>The price of a slot determines the level that can hold it.\<close>

lemma side_rep_same_level:
  "side_rep sd p lv L \<Longrightarrow> q < MaxPrice \<Longrightarrow> q' < MaxPrice \<Longrightarrow> i \<in> set (L q) \<Longrightarrow> i \<in> set (L q') \<Longrightarrow> q' = q"
  by (metis side_rep_ids)

lemma side_rep_cong:
  assumes "\<And>j. sNext (p' j) = sNext (p j) \<and> sSide (p' j) = sSide (p j) \<and> sPrice (p' j) = sPrice (p j)"
  shows "side_rep sd p' lv L = side_rep sd p lv L"
  using assms level_rep_cong [of _ p' p] by (simp add: side_rep_def)

lemma side_rep_upd_notin:
  assumes "side_rep sd p lv L" and "\<And>q. q < MaxPrice \<Longrightarrow> i \<notin> set (L q)"
  shows "side_rep sd (p(i := s)) lv L"
proof -
  have "level_rep (p(i := s)) (lv q) (L q) \<and>
      (\<forall>j\<in>set (L q). sSide ((p(i := s)) j) = sd \<and> unat (sPrice ((p(i := s)) j)) = q)"
    if q: "q < MaxPrice" for q
  proof
    show "level_rep (p(i := s)) (lv q) (L q)"
      using assms q by (simp add: side_rep_def)
    show "\<forall>j\<in>set (L q). sSide ((p(i := s)) j) = sd \<and> unat (sPrice ((p(i := s)) j)) = q"
      using assms q by (auto simp: side_rep_def)
  qed
  then show ?thesis
    using assms(1) by (simp add: side_rep_def)
qed

lemma side_rep_setLevel:
  "side_rep sd p lv L \<Longrightarrow> level_rep p l is \<Longrightarrow> set is \<subseteq> set (L q) \<Longrightarrow>
   side_rep sd p (lv(q := l)) (L(q := is))"
  by (auto simp: side_rep_def)

section \<open>One trade on the pool\<close>

lemma copyFills_id [simp]: "copyFills xs = xs"
  by (simp add: copyFills_def)

lemma entryOf_simps [simp]:
  "enID (entryOf sd p i) = i" "enSize (entryOf sd p i) = sSize (p i)"
  "enPrice (entryOf sd p i) = sPrice (p i)" "enSide (entryOf sd p i) = sd"
  "enTrader (entryOf sd p i) = sTrader (p i)"
  by (simp_all add: entryOf_def)

lemma entryOf_upd_other [simp]: "j \<noteq> i \<Longrightarrow> entryOf sd (p(i := s)) j = entryOf sd p j"
  by (simp add: entryOf_def)

lemma filledEvent_entry: "filledEvent i (p i) = entryEvent OrderFilled (entryOf sd p i)"
  by (simp add: filledEvent_def entryEvent_def entryOf_def)

lemma acceptedEvent_entry: "acceptedEvent i (p i) = entryEvent OrderAccepted (entryOf sd p i)"
  by (simp add: acceptedEvent_def entryEvent_def entryOf_def)

lemma fillSlot_simps [simp]:
  "sNext (fillSlot s m) = sNext s" "sSide (fillSlot s m) = sSide s" "sPrice (fillSlot s m) = sPrice s"
  "sTrader (fillSlot s m) = sTrader s" "sActive (fillSlot s m) = sActive s"
  "sSize (fillSlot s m) = sSize s - mQty m"
  by (simp_all add: fillSlot_def)

lemma setSlot_simps [simp]:
  "pool (setSlot b i s) = (pool b)(i := s)" "buys (setSlot b i s) = buys b"
  "sells (setSlot b i s) = sells b" "bidMax (setSlot b i s) = bidMax b"
  "askMin (setSlot b i s) = askMin b" "poolTop (setSlot b i s) = poolTop b"
  by (simp_all add: setSlot_def)

text \<open>\<open>fillPair\<close> is one trade of the specification.\<close>

definition aggSlot :: "pool \<Rightarrow> OrderID \<Rightarrow> OrderID \<Rightarrow> orderSlot" where
  "aggSlot p i r = fillSlot (p i) \<lparr>mOrderID = r, mTrader = traderStr (sTrader (p r)),
     mPrice = sPrice (p r), mQty = min32 (sSize (p i)) (sSize (p r))\<rparr>"

definition restSlot :: "pool \<Rightarrow> OrderID \<Rightarrow> OrderID \<Rightarrow> orderSlot" where
  "restSlot p i r = fillSlot (p r) \<lparr>mOrderID = i, mTrader = traderStr (sTrader (p i)),
     mPrice = sPrice (p r), mQty = min32 (sSize (p i)) (sSize (p r))\<rparr>"

definition tradeP :: "pool \<Rightarrow> OrderID \<Rightarrow> OrderID \<Rightarrow> pool" where
  "tradeP p i r = p(i := aggSlot p i r, r := restSlot p i r)"

lemma tradeP_static [simp]:
  "sNext (tradeP p i r j) = sNext (p j)" "sSide (tradeP p i r j) = sSide (p j)"
  "sPrice (tradeP p i r j) = sPrice (p j)" "sTrader (tradeP p i r j) = sTrader (p j)"
  "sActive (tradeP p i r j) = sActive (p j)"
  by (simp_all add: tradeP_def aggSlot_def restSlot_def)

lemma tradeP_other [simp]: "j \<noteq> i \<Longrightarrow> j \<noteq> r \<Longrightarrow> tradeP p i r j = p j"
  by (simp add: tradeP_def)

lemma tradeP_agg:
  "i \<noteq> r \<Longrightarrow> entryOf ad (tradeP p i r) i = tradeAgg (entryOf ad p i) (entryOf sd p r)"
  by (simp add: tradeP_def aggSlot_def entryOf_def tradeAgg_def fillEntry_def legOf_def tradeQty_def
      fillSlot_def)

lemma tradeP_rest:
  "entryOf sd (tradeP p i r) r = tradeRest (entryOf ad p i) (entryOf sd p r)"
  by (simp add: tradeP_def restSlot_def entryOf_def tradeRest_def fillEntry_def legOf_def
      tradeQty_def fillSlot_def)

lemma fillPair_trade:
  assumes "i \<noteq> r"
  shows "fst (fillPair b i r) = b\<lparr>pool := tradeP (pool b) i r\<rparr>"
    and "snd (fillPair b i r) =
      [entryEvent OrderFilled (tradeRest (entryOf ad (pool b) i) (entryOf sd (pool b) r)),
       entryEvent OrderFilled (tradeAgg (entryOf ad (pool b) i) (entryOf sd (pool b) r))]"
proof -
  have eq: "fillPair b i r = (b\<lparr>pool := tradeP (pool b) i r\<rparr>,
      [filledEvent r (tradeP (pool b) i r r), filledEvent i (tradeP (pool b) i r i)])"
    using assms by (simp add: fillPair_def Let_def tradeP_def aggSlot_def restSlot_def setSlot_def)
  show "fst (fillPair b i r) = b\<lparr>pool := tradeP (pool b) i r\<rparr>"
    by (simp add: eq)
  show "snd (fillPair b i r) =
      [entryEvent OrderFilled (tradeRest (entryOf ad (pool b) i) (entryOf sd (pool b) r)),
       entryEvent OrderFilled (tradeAgg (entryOf ad (pool b) i) (entryOf sd (pool b) r))]"
    by (simp add: eq filledEvent_entry [of r _ sd] filledEvent_entry [of i _ ad]
        tradeP_rest [where ad = ad] tradeP_agg [OF assms, where sd = sd])
qed

section \<open>What one iteration keeps\<close>

definition sized :: "pool \<Rightarrow> (nat \<Rightarrow> OrderID list) \<Rightarrow> bool" where
  "sized p L \<longleftrightarrow> (\<forall>q<MaxPrice. \<forall>j\<in>set (L q). sActive (p j) \<longleftrightarrow> 0 < sSize (p j))"

definition floating :: "(nat \<Rightarrow> OrderID list) \<Rightarrow> OrderID \<Rightarrow> bool" where
  "floating L i \<longleftrightarrow> (\<forall>q<MaxPrice. i \<notin> set (L q))"

text \<open>\<open>frame p L i p' L'\<close>: the sweep touched only the aggressor and the slots of this side,
  never their trader, price or side; it only shortened levels, and what it unlinked is dead.\<close>

definition frame :: "pool \<Rightarrow> (nat \<Rightarrow> OrderID list) \<Rightarrow> OrderID \<Rightarrow> pool \<Rightarrow> (nat \<Rightarrow> OrderID list) \<Rightarrow> bool" where
  "frame p L i p' L' \<longleftrightarrow>
     (\<forall>j. sTrader (p' j) = sTrader (p j) \<and> sPrice (p' j) = sPrice (p j) \<and> sSide (p' j) = sSide (p j)) \<and>
     (\<forall>j. j \<noteq> i \<longrightarrow> floating L j \<longrightarrow> p' j = p j) \<and>
     (\<forall>q<MaxPrice. set (L' q) \<subseteq> set (L q) \<and> (\<forall>j\<in>set (L q) - set (L' q). \<not> sActive (p' j) \<and> sSize (p' j) = 0)) \<and>
     sActive (p' i) = sActive (p i)"

lemma frame_refl: "frame p L i p L"
  by (simp add: frame_def)

lemma frame_trans:
  assumes f1: "frame p L i p1 L1" and f2: "frame p1 L1 i p2 L2"
    and rep: "side_rep sd p lv L" and fl: "floating L i"
  shows "frame p L i p2 L2"
proof -
  have sub: "set (L1 q) \<subseteq> set (L q)" if "q < MaxPrice" for q
    using f1 that by (simp add: frame_def)
  have dead: "\<not> sActive (p2 j) \<and> sSize (p2 j) = 0"
    if q: "q < MaxPrice" and j: "j \<in> set (L q)" "j \<notin> set (L2 q)" for q j
  proof (cases "j \<in> set (L1 q)")
    case True
    with q j f2 show ?thesis by (auto simp: frame_def)
  next
    case False
    have "floating L1 j"
      unfolding floating_def
    proof (intro allI impI notI)
      fix q' assume "q' < MaxPrice" "j \<in> set (L1 q')"
      then have "q' = q"
        using side_rep_same_level [OF rep q] j sub by blast
      with \<open>j \<in> set (L1 q')\<close> False show False by simp
    qed
    moreover have "j \<noteq> i"
      using fl q j by (auto simp: floating_def)
    ultimately have "p2 j = p1 j"
      using f2 by (simp add: frame_def)
    moreover have "\<not> sActive (p1 j) \<and> sSize (p1 j) = 0"
      using f1 q j False by (auto simp: frame_def)
    ultimately show ?thesis by simp
  qed
  have same: "p2 j = p j" if "j \<noteq> i" "floating L j" for j
  proof -
    have "floating L1 j"
      using that(2) sub by (auto simp: floating_def)
    with that f1 f2 show ?thesis by (simp add: frame_def)
  qed
  have sub2: "set (L2 q) \<subseteq> set (L q)" if "q < MaxPrice" for q
    using f2 sub that by (fastforce simp: frame_def)
  from f1 f2 dead same sub2 show ?thesis
    by (auto simp: frame_def)
qed

lemma dropWhile_dead: "j \<in> set is \<Longrightarrow> j \<notin> set (dropWhile (\<lambda>i. \<not> sActive (p i)) is) \<Longrightarrow> \<not> sActive (p j)"
  by (induction "is") (auto split: if_splits)

lemma frame_skip: "sized p L \<Longrightarrow> frame p L i p (L(q := dropWhile (\<lambda>j. \<not> sActive (p j)) (L q)))"
  unfolding frame_def sized_def using dropWhile_dead [of _ "L q" p]
  by (auto dest: set_dropWhileD simp flip: word_neq_0_conv)

lemma frame_trade: "floating L i \<Longrightarrow> q < MaxPrice \<Longrightarrow> r \<in> set (L q) \<Longrightarrow> frame p L i (tradeP p i r) L"
  unfolding frame_def floating_def using tradeP_other by (metis DiffD1 DiffD2 subset_refl tradeP_static(2-5))

lemma sized_trade_other:
  assumes "sized p L" and "floating L i" and "q < MaxPrice" and "j \<in> set (L q)" and "j \<noteq> r"
  shows "sActive (tradeP p i r j) \<longleftrightarrow> 0 < sSize (tradeP p i r j)"
proof -
  have "j \<noteq> i"
    using assms by (auto simp: floating_def)
  with assms show ?thesis
    by (simp add: sized_def)
qed

lemma sized_trade:
  assumes "sized p L" and "floating L i" and "sActive (p r)" and "sSize (tradeP p i r r) \<noteq> 0"
  shows "sized (tradeP p i r) L"
proof -
  have "sActive (tradeP p i r r) \<longleftrightarrow> 0 < sSize (tradeP p i r r)"
    using assms(3,4) by (simp add: word_neq_0_conv)
  then show ?thesis
    using sized_trade_other [OF assms(1,2)] unfolding sized_def by metis
qed

definition deadP :: "pool \<Rightarrow> OrderID \<Rightarrow> pool" where
  "deadP p r = p(r := (p r)\<lparr>sActive := False\<rparr>)"

lemma deadP_static [simp]:
  "sNext (deadP p r j) = sNext (p j)" "sSide (deadP p r j) = sSide (p j)"
  "sPrice (deadP p r j) = sPrice (p j)" "sTrader (deadP p r j) = sTrader (p j)"
  "sSize (deadP p r j) = sSize (p j)" "j \<noteq> r \<Longrightarrow> deadP p r j = p j" "\<not> sActive (deadP p r r)"
  by (auto simp: deadP_def)

lemma pop_side:
  assumes "side_rep sd p lv L" and "q < MaxPrice" and L: "L q = r # is"
  shows "side_rep sd (deadP p r) (lv(q := popHead (deadP p r r) (lv q))) (L(q := is))"
proof -
  have rep: "side_rep sd (deadP p r) lv L"
    using assms(1) side_rep_cong [of "deadP p r" p] by simp
  then have "level_rep (deadP p r) (lv q) (r # is)"
    using assms(2) L side_rep_level by metis
  then have "level_rep (deadP p r) (popHead (deadP p r r) (lv q)) is"
    by (rule popHead_rep [THEN conjunct1])
  with rep show ?thesis
    using L by (intro side_rep_setLevel) auto
qed

lemma pop_frame:
  assumes "side_rep sd p lv L" and "q < MaxPrice" and "L q = r # is" and "i \<noteq> r" and "sSize (p r) = 0"
  shows "frame p L i (deadP p r) (L(q := is))"
  using assms by (auto simp: frame_def floating_def)

lemma pop_sized:
  assumes rep: "side_rep sd p lv L" and q: "q < MaxPrice" and L: "L q = r # is"
    and sz: "\<And>q' j. q' < MaxPrice \<Longrightarrow> j \<in> set (L q') \<Longrightarrow> j \<noteq> r \<Longrightarrow> sActive (p j) \<longleftrightarrow> 0 < sSize (p j)"
  shows "sized (deadP p r) (L(q := is))"
proof -
  have "r \<notin> set is"
    using rep q L chain_head_notin level_rep_chain side_rep_level by metis
  moreover have "r \<notin> set (L q')" if "q' < MaxPrice" "q' \<noteq> q" for q'
    using side_rep_same_level [OF rep q that(1), of r] that L by auto
  ultimately have "j \<noteq> r" if "q' < MaxPrice" "j \<in> set ((L(q := is)) q')" for q' j
    using that by (auto split: if_splits)
  moreover have "j \<in> set (L q')" if "j \<in> set ((L(q := is)) q')" for q' j
    using that L by (auto split: if_splits)
  ultimately show ?thesis
    using sz unfolding sized_def by (metis deadP_static(5,6))
qed

section \<open>The sweeping loop\<close>

locale match_side =
  fixes sd :: Side
    and lvl :: "OrderBook \<Rightarrow> nat \<Rightarrow> priceLevel"
    and setLvl :: "OrderBook \<Rightarrow> nat \<Rightarrow> priceLevel \<Rightarrow> OrderBook"
    and cur :: "OrderBook \<Rightarrow> nat"
    and adv :: "OrderBook \<Rightarrow> OrderBook"
    and scan :: "OrderBook \<Rightarrow> nat list"
    and crosses :: "Price \<Rightarrow> OrderBook \<Rightarrow> bool"
    and valid :: "OrderBook \<Rightarrow> bool"
    and ok :: "Price \<Rightarrow> Price \<Rightarrow> bool"
    and rest :: "OrderBook \<Rightarrow> 'r"
    and loop :: "OrderBook \<Rightarrow> OrderID \<Rightarrow> Price \<Rightarrow> Event list \<Rightarrow> (OrderBook \<times> Event list) option"
  assumes lvl_laws: "lvl (setLvl b q l) = (lvl b)(q := l)" "lvl (adv b) = lvl b"
      "lvl (b\<lparr>pool := p\<rparr>) = lvl b"
    and pool_laws: "pool (setLvl b q l) = pool b" "pool (adv b) = pool b"
    and scan_laws: "scan (setLvl b q l) = scan b" "scan (b\<lparr>pool := p\<rparr>) = scan b"
    and cur_laws: "cur (setLvl b q l) = cur b" "cur (b\<lparr>pool := p\<rparr>) = cur b"
    and rest_laws: "rest (setLvl b q l) = rest b" "rest (adv b) = rest b" "rest (b\<lparr>pool := p\<rparr>) = rest b"
    and valid_laws: "valid (setLvl b q l) = valid b" "valid (b\<lparr>pool := p\<rparr>) = valid b"
    and crosses_laws: "crosses price (setLvl b q l) = crosses price b"
      "crosses price (b\<lparr>pool := p\<rparr>) = crosses price b"
    and valid_adv: "valid b \<Longrightarrow> crosses price b \<Longrightarrow> valid (adv b)"
    and scan_adv: "valid b \<Longrightarrow> crosses price b \<Longrightarrow> scan b = cur b # scan (adv b)"
    and scan_range: "q \<in> set (scan b) \<Longrightarrow> valid b \<Longrightarrow> q < MaxPrice"
    and scan_distinct: "distinct (scan b)"
    and crosses_ok: "valid b \<Longrightarrow> crosses price b \<Longrightarrow> unat x = cur b \<Longrightarrow> ok price x"
    and not_crosses: "valid b \<Longrightarrow> \<not> crosses price b \<Longrightarrow> unat x \<in> set (scan b) \<Longrightarrow> \<not> ok price x"
    and loop_eq: "loop b i price events =
      (if 0 < sSize (pool b i) \<and> crosses price b
       then if MaxPrice \<le> cur b then None
       else (case skipInactive (pool b) (lvl b (cur b)) of
         None \<Rightarrow> None
       | Some l \<Rightarrow>
           if lHead l = none then loop (adv (setLvl b (cur b) l)) i price events
           else let b2 = fst (fillPair (setLvl b (cur b) l) i (lHead l));
                    es = snd (fillPair (setLvl b (cur b) l) i (lHead l)) in
             if sSize (pool b2 (lHead l)) = 0
             then let b3 = b2\<lparr>pool := deadP (pool b2) (lHead l)\<rparr>;
                      l' = popHead (pool b3 (lHead l)) l;
                      b4 = setLvl b3 (cur b) l'
                  in loop (if lHead l' = none then adv b4 else b4) i price (events @ es)
             else loop b2 i price (events @ es))
       else Some (b, events))"
begin

lemmas laws = lvl_laws pool_laws scan_laws cur_laws rest_laws valid_laws crosses_laws

text \<open>The loop invariant: \<open>L\<close> are the identifiers on each level, and every level the cursor
  has passed is dead.\<close>

definition swept :: "OrderBook \<Rightarrow> (nat \<Rightarrow> OrderID list) \<Rightarrow> bool" where
  "swept b L \<longleftrightarrow> (\<forall>q<MaxPrice. q \<notin> set (scan b) \<longrightarrow> live (pool b) (L q) = [])"

definition linv :: "OrderBook \<Rightarrow> (nat \<Rightarrow> OrderID list) \<Rightarrow> OrderID \<Rightarrow> bool" where
  "linv b L i \<longleftrightarrow> side_rep sd (pool b) (lvl b) L \<and> sized (pool b) L \<and> floating L i \<and> valid b \<and> swept b L"

lemma skip_step:
  assumes inv: "linv b L i" and c: "cur b < MaxPrice"
  obtains l where "skipInactive (pool b) (lvl b (cur b)) = Some l"
    and "linv (setLvl b (cur b) l) (L(cur b := dropWhile (\<lambda>j. \<not> sActive (pool b j)) (L (cur b)))) i"
    and "lHead l = hdOrNone (live (pool b) (L (cur b)))"
    and "level_rep (pool b) l (dropWhile (\<lambda>j. \<not> sActive (pool b j)) (L (cur b)))"
proof -
  let ?L1 = "L(cur b := dropWhile (\<lambda>j. \<not> sActive (pool b j)) (L (cur b)))"
  from inv have rep: "side_rep sd (pool b) (lvl b) L" and sz: "sized (pool b) L"
    and fl: "floating L i" and va: "valid b" and sw: "swept b L"
    by (simp_all add: linv_def)
  from skipInactive_rep [OF side_rep_level [OF rep c]]
  obtain l where l: "skipInactive (pool b) (lvl b (cur b)) = Some l"
      "level_rep (pool b) l (dropWhile (\<lambda>j. \<not> sActive (pool b j)) (L (cur b)))"
      "lHead l = hdOrNone (live (pool b) (L (cur b)))"
    by blast
  have sub: "set (?L1 q) \<subseteq> set (L q)" for q
    by (auto dest: set_dropWhileD simp flip: word_neq_0_conv)
  have "side_rep sd (pool b) ((lvl b)(cur b := l)) ?L1"
    using rep l(2) sub [of "cur b"] by (intro side_rep_setLevel) auto
  moreover have "sized (pool b) ?L1"
    using sz sub unfolding sized_def by blast
  moreover have "floating ?L1 i"
    using fl sub unfolding floating_def by blast
  moreover have "swept (setLvl b (cur b) l) ?L1"
    using sw by (simp add: swept_def laws live_dropWhile)
  ultimately have "linv (setLvl b (cur b) l) ?L1 i"
    using va by (simp add: linv_def laws)
  with l that show ?thesis by blast
qed

lemma adv_step:
  assumes inv: "linv b L i" and x: "crosses price b" and e: "live (pool b) (L (cur b)) = []"
  shows "linv (adv b) L i" and "flat sd (pool b) L (scan (adv b)) = flat sd (pool b) L (scan b)"
proof -
  have sc: "scan b = cur b # scan (adv b)"
    using inv x by (auto simp: linv_def intro: scan_adv)
  show "linv (adv b) L i"
    using inv sc x e valid_adv [of b price] by (auto simp: linv_def swept_def laws)
  show "flat sd (pool b) L (scan (adv b)) = flat sd (pool b) L (scan b)"
    using sc e by simp
qed

lemma others_untouched:
  assumes inv: "linv b L i" and x: "crosses price b" and L: "L (cur b) = r # is"
  shows "j \<in> set is \<Longrightarrow> j \<noteq> i \<and> j \<noteq> r"
    and "q \<in> set (scan (adv b)) \<Longrightarrow> j \<in> set (L q) \<Longrightarrow> j \<noteq> i \<and> j \<noteq> r \<and> q \<noteq> cur b"
proof -
  from inv have rep: "side_rep sd (pool b) (lvl b) L" and fl: "floating L i" and va: "valid b"
    by (simp_all add: linv_def)
  have sc: "scan b = cur b # scan (adv b)"
    using va x by (rule scan_adv)
  then have c: "cur b < MaxPrice" and d: "cur b \<notin> set (scan (adv b))"
    using scan_range [of "cur b" b] va scan_distinct [of b] by auto
  show "j \<noteq> i \<and> j \<noteq> r" if "j \<in> set is"
    using that fl c L chain_head_notin level_rep_chain [OF side_rep_level [OF rep c]]
    by (fastforce simp: floating_def)
  show "j \<noteq> i \<and> j \<noteq> r \<and> q \<noteq> cur b" if q: "q \<in> set (scan (adv b))" and j: "j \<in> set (L q)"
  proof -
    have "q < MaxPrice"
      using q sc scan_range [of q b] va by simp
    then show ?thesis
      using side_rep_same_level [OF rep c, of q r] q j d L fl by (auto simp: floating_def)
  qed
qed

lemma trade_flat:
  assumes inv: "linv b L i" and x: "crosses price b" and L: "L (cur b) = r # is" and act: "sActive (pool b r)"
  defines "p2 \<equiv> tradeP (pool b) i r"
    and "R \<equiv> map (entryOf sd (pool b)) (live (pool b) is) @ flat sd (pool b) L (scan (adv b))"
  shows "flat sd (pool b) L (scan b) = entryOf sd (pool b) r # R"
    and "flat sd p2 L (scan b) = tradeRest (entryOf ad (pool b) i) (entryOf sd (pool b) r) # R"
    and "flat sd (deadP p2 r) (L(cur b := is)) (scan b) = R"
proof -
  have sc: "scan b = cur b # scan (adv b)"
    using inv x by (auto simp: linv_def intro: scan_adv)
  note oth = others_untouched [OF inv x L]
  have same: "p2 j = pool b j" "deadP p2 r j = pool b j" if "j \<noteq> i" "j \<noteq> r" for j
    using that by (simp_all add: p2_def)
  have lv: "live p2 is = live (pool b) is" "live (deadP p2 r) is = live (pool b) is"
    using oth(1) same by (auto intro!: live_cong)
  have ents: "map (entryOf sd p2) (live (pool b) is) = map (entryOf sd (pool b)) (live (pool b) is)"
      "map (entryOf sd (deadP p2 r)) (live (pool b) is) = map (entryOf sd (pool b)) (live (pool b) is)"
    using oth(1) same by (auto simp: set_live entryOf_def)
  have fl2: "flat sd p2 L (scan (adv b)) = flat sd (pool b) L (scan (adv b))"
    using oth(2) same by (intro flat_cong) auto
  have fl3: "flat sd (deadP p2 r) (L(cur b := is)) (scan (adv b)) = flat sd (pool b) L (scan (adv b))"
  proof (rule flat_cong)
    fix q assume "q \<in> set (scan (adv b))"
    then show "(L(cur b := is)) q = L q"
      using sc scan_distinct [of b] by auto
  qed (use oth(2) same in auto)
  show "flat sd (pool b) L (scan b) = entryOf sd (pool b) r # R"
    unfolding sc R_def using L act by simp
  have act2: "sActive (p2 r)"
    using act by (simp add: p2_def)
  have e2: "entryOf sd p2 r = tradeRest (entryOf ad (pool b) i) (entryOf sd (pool b) r)"
    unfolding p2_def by (rule tradeP_rest)
  show "flat sd p2 L (scan b) = tradeRest (entryOf ad (pool b) i) (entryOf sd (pool b) r) # R"
    unfolding sc R_def using L act2 lv(1) ents(1) fl2 e2 by simp
  show "flat sd (deadP p2 r) (L(cur b := is)) (scan b) = R"
    unfolding sc R_def using lv(2) ents(2) fl3 by simp
qed

lemma trade_step:
  assumes inv: "linv b L i" and x: "crosses price b" and L: "L (cur b) = r # is" and act: "sActive (pool b r)"
  defines "p2 \<equiv> tradeP (pool b) i r"
  shows "sSize (p2 r) \<noteq> 0 \<Longrightarrow> linv (b\<lparr>pool := p2\<rparr>) L i \<and> frame (pool b) L i p2 L"
    and "sSize (p2 r) = 0 \<Longrightarrow>
      linv (setLvl (b\<lparr>pool := deadP p2 r\<rparr>) (cur b) (popHead (deadP p2 r r) (lvl b (cur b)))) (L(cur b := is)) i \<and>
      frame (pool b) L i (deadP p2 r) (L(cur b := is)) \<and>
      lHead (popHead (deadP p2 r r) (lvl b (cur b))) = hdOrNone is"
proof -
  from inv have rep: "side_rep sd (pool b) (lvl b) L" and sz: "sized (pool b) L"
    and fl: "floating L i" and va: "valid b" and sw: "swept b L"
    by (simp_all add: linv_def)
  have sc: "scan b = cur b # scan (adv b)"
    using va x by (rule scan_adv)
  then have c: "cur b < MaxPrice"
    using scan_range [of "cur b" b] va by auto
  have ir: "i \<noteq> r"
    using fl c L by (auto simp: floating_def)
  have rep2: "side_rep sd p2 (lvl b) L"
    using rep side_rep_cong [of p2 "pool b"] by (simp add: p2_def)
  have fr2: "frame (pool b) L i p2 L"
    unfolding p2_def using fl c L by (intro frame_trade) auto
  have lv2: "live p2 xs = live (pool b) xs" for xs
    by (rule live_cong) (simp add: p2_def)
  show "linv (b\<lparr>pool := p2\<rparr>) L i \<and> frame (pool b) L i p2 L" if "sSize (p2 r) \<noteq> 0"
    using that sized_trade [OF sz fl act] rep2 fl va sw fr2 lv2
    by (simp add: linv_def laws swept_def p2_def)
  show "linv (setLvl (b\<lparr>pool := deadP p2 r\<rparr>) (cur b) (popHead (deadP p2 r r) (lvl b (cur b)))) (L(cur b := is)) i \<and>
      frame (pool b) L i (deadP p2 r) (L(cur b := is)) \<and>
      lHead (popHead (deadP p2 r r) (lvl b (cur b))) = hdOrNone is" if z: "sSize (p2 r) = 0"
  proof -
    have "sActive (p2 j) \<longleftrightarrow> 0 < sSize (p2 j)" if "q < MaxPrice" "j \<in> set (L q)" "j \<noteq> r" for q j
      unfolding p2_def using sz fl that by (rule sized_trade_other)
    then have sz3: "sized (deadP p2 r) (L(cur b := is))"
      using pop_sized [OF rep2 c L] by blast
    have rep3: "side_rep sd (deadP p2 r) ((lvl b)(cur b := popHead (deadP p2 r r) (lvl b (cur b)))) (L(cur b := is))"
      using pop_side [OF rep2 c L] .
    have fl3: "floating (L(cur b := is)) i"
      using fl L c by (auto simp: floating_def)
    have sw3: "live (deadP p2 r) ((L(cur b := is)) q) = []" if q: "q < MaxPrice" "q \<notin> set (scan b)" for q
    proof -
      have "q \<noteq> cur b" using q sc by auto
      then have "r \<notin> set (L q)"
        using side_rep_same_level [OF rep c q(1), of r] L by auto
      then have "live (deadP p2 r) (L q) = live (pool b) (L q)"
        using lv2 by (simp add: deadP_def)
      with sw q \<open>q \<noteq> cur b\<close> show ?thesis by (simp add: swept_def)
    qed
    have fr: "frame (pool b) L i (deadP p2 r) (L(cur b := is))"
      using frame_trans [OF fr2 pop_frame [OF rep2 c L ir z] rep fl] .
    have hd: "lHead (popHead (deadP p2 r r) (lvl b (cur b))) = hdOrNone is"
      using popHead_rep [of "deadP p2 r" "lvl b (cur b)" r "is"] rep2 c L side_rep_level
        side_rep_cong [of "deadP p2 r" p2 sd "lvl b" L] by force
    show ?thesis
      using rep3 sz3 fl3 va sw3 fr hd by (simp add: linv_def laws swept_def)
  qed
qed

text \<open>\<open>swp\<close>: from \<open>b\<close> the loop returns, and it computes the sweep of the abstract book.\<close>

definition swp :: "Side \<Rightarrow> Price \<Rightarrow> OrderBook \<Rightarrow> (nat \<Rightarrow> OrderID list) \<Rightarrow> OrderID \<Rightarrow> Event list \<Rightarrow> bool" where
  "swp ad price b L i events \<longleftrightarrow> (\<exists>b' L' a' F' es.
     sweep (ok price) (entryOf ad (pool b) i) (flat sd (pool b) L (scan b)) = (a', F', es) \<and>
     loop b i price events = Some (b', events @ es) \<and> linv b' L' i \<and>
     flat sd (pool b') L' (scan b') = F' \<and> entryOf ad (pool b') i = a' \<and>
     frame (pool b) L i (pool b') L' \<and> rest b' = rest b)"

lemma swp_done:
  assumes inv: "linv b L i" and stop: "sSize (pool b i) = 0 \<or> \<not> crosses price b"
  shows "swp ad price b L i events"
proof -
  from inv have rep: "side_rep sd (pool b) (lvl b) L" and va: "valid b"
    by (simp_all add: linv_def)
  have "sweep (ok price) (entryOf ad (pool b) i) (flat sd (pool b) L (scan b)) =
      (entryOf ad (pool b) i, flat sd (pool b) L (scan b), [])"
  proof (cases "sSize (pool b i) = 0")
    case True
    then show ?thesis by simp
  next
    case False
    with stop have nx: "\<not> crosses price b" by simp
    have "\<not> ok price (enPrice e)" if e: "e \<in> set (flat sd (pool b) L (scan b))" for e
    proof -
      from e obtain q j where q: "q \<in> set (scan b)" "j \<in> set (L q)" "e = entryOf sd (pool b) j"
        by (auto simp: flat_def set_live)
      with va scan_range [of q b] have "unat (enPrice e) \<in> set (scan b)"
        using side_rep_ids [OF rep, of q j] by simp
      with va nx show ?thesis by (rule not_crosses)
    qed
    then show ?thesis by (rule sweep_not_ok)
  qed
  moreover have "loop b i price events = Some (b, events)"
    using stop by (subst loop_eq) auto
  ultimately show ?thesis
    using inv frame_refl unfolding swp_def by fastforce
qed

lemma swp_step:
  assumes inv: "linv b L i" and run: "loop b i price events = loop bb i price (events @ el)"
    and sw: "sweep (ok price) (entryOf ad (pool b) i) (flat sd (pool b) L (scan b)) =
      (let (a2, r2, es) = sweep (ok price) (entryOf ad (pool bb) i) (flat sd (pool bb) LL (scan bb))
       in (a2, r2, el @ es))"
    and fr: "frame (pool b) L i (pool bb) LL" and re: "rest bb = rest b"
    and nxt: "swp ad price bb LL i (events @ el)"
  shows "swp ad price b L i events"
proof -
  from nxt obtain b' L' a' F' es where IH:
      "sweep (ok price) (entryOf ad (pool bb) i) (flat sd (pool bb) LL (scan bb)) = (a', F', es)"
      "loop bb i price (events @ el) = Some (b', (events @ el) @ es)" "linv b' L' i"
      "flat sd (pool b') L' (scan b') = F'" "entryOf ad (pool b') i = a'"
      "frame (pool bb) LL i (pool b') L'" "rest b' = rest bb"
    unfolding swp_def by blast
  have "frame (pool b) L i (pool b') L'"
    using frame_trans [OF fr IH(6)] inv by (auto simp: linv_def)
  with IH run sw re show ?thesis
    unfolding swp_def by (intro exI [of _ b'] exI [of _ L'] exI [of _ a'] exI [of _ F'] exI [of _ "el @ es"]) simp
qed

text \<open>An iteration that finds the level dead.\<close>

lemma swp_empty_level:
  assumes inv: "linv b L i" and x: "crosses price b" and e: "live (pool b) (L (cur b)) = []"
    and go: "0 < sSize (pool b i)"
    and nxt: "\<And>b1 L1. linv b1 L1 i \<Longrightarrow> length (scan b1) < length (scan b) \<Longrightarrow>
      flat sd (pool b1) L1 (scan b1) = flat sd (pool b) L (scan b) \<Longrightarrow> swp ad price b1 L1 i events"
  shows "swp ad price b L i events"
proof -
  have va: "valid b" using inv by (simp add: linv_def)
  have sc: "scan b = cur b # scan (adv b)"
    using va x by (rule scan_adv)
  then have c: "cur b < MaxPrice"
    using scan_range [of "cur b" b] va by auto
  let ?L1 = "L(cur b := dropWhile (\<lambda>j. \<not> sActive (pool b j)) (L (cur b)))"
  obtain l where l: "skipInactive (pool b) (lvl b (cur b)) = Some l"
    and inv1: "linv (setLvl b (cur b) l) ?L1 i" and hd: "lHead l = hdOrNone (live (pool b) (L (cur b)))"
    using skip_step [OF inv c] by metis
  let ?b1 = "setLvl b (cur b) l"
  have F1: "flat sd (pool ?b1) ?L1 (scan ?b1) = flat sd (pool b) L (scan b)"
    by (auto simp: flat_def laws live_dropWhile intro!: arg_cong [where f = concat] map_cong)
  have x1: "crosses price ?b1" using x by (simp add: laws)
  have e1: "live (pool ?b1) (?L1 (cur ?b1)) = []" using e by (simp add: laws live_dropWhile)
  note adv = adv_step [OF inv1 x1 e1]
  have len: "length (scan (adv ?b1)) < length (scan b)"
    using scan_adv [of ?b1 price] inv1 x1 by (simp add: laws linv_def)
  have F2: "flat sd (pool (adv ?b1)) ?L1 (scan (adv ?b1)) = flat sd (pool b) L (scan b)"
    using adv(2) F1 by (simp only: laws)
  show ?thesis
  proof (rule swp_step [OF inv, where bb = "adv ?b1" and LL = ?L1 and el = "[]"])
    show "loop b i price events = loop (adv ?b1) i price (events @ [])"
      using go x c l hd e by (subst loop_eq) simp
    show "frame (pool b) L i (pool (adv ?b1)) ?L1"
      using frame_skip inv by (simp add: laws linv_def)
    show "swp ad price (adv ?b1) ?L1 i (events @ [])"
      using nxt [OF adv(1) len F2] by simp
    show "sweep (ok price) (entryOf ad (pool b) i) (flat sd (pool b) L (scan b)) =
        (let (a2, r2, es) = sweep (ok price) (entryOf ad (pool (adv ?b1)) i)
             (flat sd (pool (adv ?b1)) ?L1 (scan (adv ?b1)))
         in (a2, r2, [] @ es))"
      unfolding F2 by (simp add: laws split: prod.splits)
    show "rest (adv ?b1) = rest b"
      by (simp add: laws)
  qed
qed

text \<open>An iteration that trades with the head of the level.\<close>

lemma loop_trade:
  fixes ad :: Side
  assumes inv: "linv b L i" and x: "crosses price b" and go: "0 < sSize (pool b i)"
    and l: "skipInactive (pool b) (lvl b (cur b)) = Some l" and r: "lHead l = r" "r \<noteq> none" "i \<noteq> r"
  defines "b1 \<equiv> setLvl b (cur b) l" and "p2 \<equiv> tradeP (pool b) i r"
    and "es \<equiv> [entryEvent OrderFilled (tradeRest (entryOf ad (pool b) i) (entryOf sd (pool b) r)),
      entryEvent OrderFilled (tradeAgg (entryOf ad (pool b) i) (entryOf sd (pool b) r))]"
  shows "sSize (p2 r) \<noteq> 0 \<Longrightarrow> loop b i price events = loop (b1\<lparr>pool := p2\<rparr>) i price (events @ es)"
    and "sSize (p2 r) = 0 \<Longrightarrow> loop b i price events =
      (let l' = popHead (deadP p2 r r) l; b4 = setLvl (b1\<lparr>pool := deadP p2 r\<rparr>) (cur b) l'
       in loop (if lHead l' = none then adv b4 else b4) i price (events @ es))"
proof -
  have va: "valid b" using inv by (simp add: linv_def)
  have "scan b = cur b # scan (adv b)"
    using va x by (rule scan_adv)
  then have c: "cur b < MaxPrice"
    using scan_range [of "cur b" b] va by auto
  have f: "fst (fillPair b1 i r) = b1\<lparr>pool := p2\<rparr>" "snd (fillPair b1 i r) = es"
    unfolding es_def p2_def using fillPair_trade(1) [OF r(3), of b1] fillPair_trade(2) [OF r(3), of b1 ad sd]
    by (simp_all add: b1_def laws)
  note unfold = loop_eq [of b i price events]
  show "loop b i price events = loop (b1\<lparr>pool := p2\<rparr>) i price (events @ es)" if "sSize (p2 r) \<noteq> 0"
    using that go x c l r f unfolding b1_def by (subst unfold) (simp add: Let_def)
  show "loop b i price events =
      (let l' = popHead (deadP p2 r r) l; b4 = setLvl (b1\<lparr>pool := deadP p2 r\<rparr>) (cur b) l'
       in loop (if lHead l' = none then adv b4 else b4) i price (events @ es))" if "sSize (p2 r) = 0"
    using that go x c l r f unfolding b1_def by (subst unfold) (simp add: Let_def)
qed

lemma swp_trade:
  assumes inv: "linv b L i" and x: "crosses price b" and e: "live (pool b) (L (cur b)) \<noteq> []"
    and go: "0 < sSize (pool b i)"
    and nxt: "\<And>bb LL events. linv bb LL i \<Longrightarrow> length (scan bb) \<le> length (scan b) \<Longrightarrow>
      length (flat sd (pool bb) LL (scan bb)) < length (flat sd (pool b) L (scan b)) \<Longrightarrow>
      swp ad price bb LL i events"
  shows "swp ad price b L i events"
proof -
  from inv have va: "valid b" and rep: "side_rep sd (pool b) (lvl b) L" and fl: "floating L i"
    by (simp_all add: linv_def)
  have sc: "scan b = cur b # scan (adv b)"
    using va x by (rule scan_adv)
  then have c: "cur b < MaxPrice"
    using scan_range [of "cur b" b] va by auto
  define D where "D = dropWhile (\<lambda>j. \<not> sActive (pool b j)) (L (cur b))"
  define L1 where "L1 = L(cur b := D)"
  obtain l where l: "skipInactive (pool b) (lvl b (cur b)) = Some l"
    and inv1: "linv (setLvl b (cur b) l) L1 i" and hd: "lHead l = hdOrNone (live (pool b) (L (cur b)))"
    using skip_step [OF inv c] unfolding L1_def D_def by metis
  have "D \<noteq> []"
    using e unfolding D_def live_Nil_dropWhile .
  then obtain r "is" where D: "D = r # is"
    by (cases D) auto
  then have act: "sActive (pool b r)"
    unfolding D_def by (rule dropWhile_Cons_sat)
  have lr: "lHead l = r"
    using hd D hdOrNone_live_dropWhile [of "pool b" "L (cur b)"] by (simp only: D_def hdOrNone_simps)
  define b1 where "b1 = setLvl b (cur b) l"
  have b1: "pool b1 = pool b" "scan b1 = scan b" "cur b1 = cur b" "rest b1 = rest b" "lvl b1 (cur b) = l"
    "crosses price b1"
    using x by (simp_all add: b1_def laws)
  have L1: "L1 (cur b1) = r # is" using D b1 by (simp add: L1_def)
  note inv1 = inv1 [folded b1_def]
  have F1: "flat sd (pool b1) L1 (scan b1) = flat sd (pool b) L (scan b)"
    unfolding b1 L1_def D_def by (auto simp: flat_def live_dropWhile intro!: arg_cong [where f = concat] map_cong)
  have rin: "r \<noteq> none" "i \<noteq> r"
    using inv1 c L1 side_rep_ids [of sd "pool b1" "lvl b1" L1 "cur b" r] b1(3)
    by (auto simp: linv_def floating_def)
  have fr1: "frame (pool b) L i (pool b1) L1"
    using frame_skip [of "pool b" L i "cur b"] inv b1(1) by (simp add: L1_def D_def linv_def)
  have act1: "sActive (pool b1 r)" using act b1 by simp
  note step = trade_step [OF inv1 b1(6) L1 act1]
  note run = loop_trade [OF inv x go l lr rin, where ad = ad, folded b1_def]
  define a rr R where "a = entryOf ad (pool b1) i" and "rr = entryOf sd (pool b1) r"
    and "R = map (entryOf sd (pool b1)) (live (pool b1) is) @ flat sd (pool b1) L1 (scan (adv b1))"
  define p2 where "p2 = tradeP (pool b1) i r"
  let ?es = "[entryEvent OrderFilled (tradeRest a rr), entryEvent OrderFilled (tradeAgg a rr)]"
  note fl1 = trade_flat(1) [OF inv1 b1(6) L1 act1, folded rr_def R_def]
    and fl2 = trade_flat(2) [OF inv1 b1(6) L1 act1, where ad = ad, folded a_def rr_def R_def p2_def]
    and fl3 = trade_flat(3) [OF inv1 b1(6) L1 act1, folded R_def p2_def]
  note step = step [folded p2_def]
  note run = run [folded b1(1), folded a_def rr_def p2_def]
  have a2: "entryOf ad p2 i = tradeAgg a rr" and r2: "sSize (p2 r) = enSize (tradeRest a rr)"
    unfolding p2_def a_def rr_def
    using tradeP_agg [OF rin(2)] tradeP_rest [of sd "pool b1" i r ad] by (metis, metis entryOf_simps(2))
  have "unat (sPrice (pool b1 r)) = cur b1"
    using inv1 L1 c b1(3) side_rep_ids [of sd "pool b1" "lvl b1" L1 "cur b1" r] by (auto simp: linv_def)
  then have okr: "ok price (enPrice rr)"
    using crosses_ok [of b1 price] b1(6) inv1 by (simp add: rr_def linv_def)
  have nz: "enSize a \<noteq> 0" using go b1(1) by (auto simp: a_def)
  have S: "sweep (ok price) (entryOf ad (pool b) i) (flat sd (pool b) L (scan b)) =
      (if enSize (tradeRest a rr) = 0 then (let (a2, r2, es) = sweep (ok price) (tradeAgg a rr) R in (a2, r2, ?es @ es))
       else (tradeAgg a rr, tradeRest a rr # R, ?es))"
    unfolding F1 [symmetric] fl1 using okr nz b1(1) by (simp add: a_def Let_def)
  show ?thesis
  proof (cases "enSize (tradeRest a rr) = 0")
    case False
    have z: "enSize (tradeAgg a rr) = 0" using False by (rule trade_exhausts)
    show ?thesis
    proof (rule swp_step [OF inv])
      show "loop b i price events = loop (b1\<lparr>pool := p2\<rparr>) i price (events @ ?es)"
        using run(1) False r2 by simp
      show "frame (pool b) L i (pool (b1\<lparr>pool := p2\<rparr>)) L1"
        using frame_trans [OF fr1 _ rep fl] step(1) False r2 by simp
      have "sSize (p2 i) = 0" using z a2 by (metis entryOf_simps(2))
      then show "swp ad price (b1\<lparr>pool := p2\<rparr>) L1 i (events @ ?es)"
        using step(1) False r2 by (intro swp_done) auto
    qed (use S False z a2 fl2 b1 in \<open>simp_all add: laws\<close>)
  next
    case True
    let ?l' = "popHead (deadP p2 r r) l"
    define b4 where "b4 = setLvl (b1\<lparr>pool := deadP p2 r\<rparr>) (cur b) ?l'"
    define LL where "LL = L1(cur b := is)"
    have inv4: "linv b4 LL i" and fr4: "frame (pool b1) L1 i (pool b4) LL" and hd4: "lHead ?l' = hdOrNone is"
      using step(2) True r2 b1 by (simp_all add: b4_def LL_def laws)
    have b4: "pool b4 = deadP p2 r" "scan b4 = scan b" "cur b4 = cur b" "rest b4 = rest b" "crosses price b4"
      using b1 by (simp_all add: b4_def laws)
    have F4: "flat sd (pool b4) LL (scan b4) = R"
      using fl3 b1 b4 by (simp add: LL_def)
    define b5 where "b5 = (if lHead ?l' = none then adv b4 else b4)"
    have inv5: "linv b5 LL i" and F5: "flat sd (pool b5) LL (scan b5) = R"
      and b5: "pool b5 = deadP p2 r" "rest b5 = rest b" "length (scan b5) \<le> length (scan b)"
    proof -
      have "is = []" if "lHead ?l' = none"
        using that hd4 inv1 c L1 b1(3) side_rep_ids [of sd "pool b1" "lvl b1" L1 "cur b"]
        by (cases "is") (auto simp: linv_def)
      then have e4: "lHead ?l' = none \<Longrightarrow> live (pool b4) (LL (cur b4)) = []" using b4(3) by (simp add: LL_def)
      have sc4: "scan b4 = cur b4 # scan (adv b4)" using inv4 b4(5) by (auto simp: linv_def intro: scan_adv)
      then have len4: "length (scan b) = Suc (length (scan (adv b4)))" using b4(2) by (metis length_Cons)
      note adv4 = adv_step [OF inv4 b4(5) e4]
      show "linv b5 LL i" "flat sd (pool b5) LL (scan b5) = R" "pool b5 = deadP p2 r" "rest b5 = rest b"
        "length (scan b5) \<le> length (scan b)"
        using adv4 F4 inv4 b4 len4 by (auto simp: b5_def laws)
    qed
    have len_R: "length R < length (flat sd (pool b) L (scan b))"
      using F1 fl1 by (metis length_Cons lessI)
    show ?thesis
    proof (rule swp_step [OF inv])
      show "loop b i price events = loop b5 i price (events @ ?es)"
        using run(2) True r2 by (simp add: b5_def b4_def Let_def)
      show "frame (pool b) L i (pool b5) LL"
        using frame_trans [OF fr1 fr4 rep fl] b4(1) b5(1) by simp
      show "swp ad price b5 LL i (events @ ?es)"
        using nxt [OF inv5 b5(3)] F5 len_R by simp
      have "entryOf ad (pool b5) i = tradeAgg a rr"
        using a2 rin(2) b5(1) by (simp add: deadP_def)
      then show "sweep (ok price) (entryOf ad (pool b) i) (flat sd (pool b) L (scan b)) =
          (let (a2, r2, es) = sweep (ok price) (entryOf ad (pool b5) i) (flat sd (pool b5) LL (scan b5))
           in (a2, r2, ?es @ es))"
        using S True F5 by simp
    qed (use b5 in simp)
  qed
qed

theorem loop_sweep: "linv b L i \<Longrightarrow> swp ad price b L i events"
proof (induction "length (scan b) + length (flat sd (pool b) L (scan b))" arbitrary: b L events rule: less_induct)
  case less
  show ?case
  proof (cases "0 < sSize (pool b i) \<and> crosses price b")
    case False
    then show ?thesis
      using less.prems by (intro swp_done) (auto simp: word_neq_0_conv)
  next
    case True
    then show ?thesis
      using swp_empty_level [OF less.prems] swp_trade [OF less.prems] less.hyps
      by (cases "live (pool b) (L (cur b)) = []") (simp_all add: add_le_less_mono)
  qed
qed

end

end
