(* ===== verification/MatchLoops.thy ===== *)
theory MatchLoops
  imports MatchSide
begin

text \<open>
  The two sides of the book as instances of \<open>match_side\<close>: the ask levels swept
  upwards by \<open>matchBuy\<close> and the bid levels swept downwards by \<open>matchSell\<close>. The
  interpretations discharge the laws for the definitions of \<open>OrderBook\<close>; from
  them both loops return and compute \<^const>\<open>sweep\<close>.
\<close>

definition askAdv :: "OrderBook \<Rightarrow> OrderBook" where
  "askAdv b = b\<lparr>askMin := askMin b + 1\<rparr>"

definition askScan :: "OrderBook \<Rightarrow> nat list" where
  "askScan b = [unat (askMin b)..<MaxPrice]"

definition askCrosses :: "Price \<Rightarrow> OrderBook \<Rightarrow> bool" where
  "askCrosses price b \<longleftrightarrow> askMin b \<le> ucast price"

definition askValid :: "OrderBook \<Rightarrow> bool" where
  "askValid b \<longleftrightarrow> unat (askMin b) \<le> MaxPrice"

definition bidAdv :: "OrderBook \<Rightarrow> OrderBook" where
  "bidAdv b = b\<lparr>bidMax := bidMax b - 1\<rparr>"

definition bidScan :: "OrderBook \<Rightarrow> nat list" where
  "bidScan b = rev [1..<Suc (unat (bidMax b))]"

definition bidCrosses :: "Price \<Rightarrow> OrderBook \<Rightarrow> bool" where
  "bidCrosses price b \<longleftrightarrow> ucast price \<le> bidMax b \<and> 0 < bidMax b"

definition bidValid :: "OrderBook \<Rightarrow> bool" where
  "bidValid b \<longleftrightarrow> unat (bidMax b) < MaxPrice"

section \<open>Prices and cursors\<close>

lemma unat_price_less: "unat (x :: Price) < MaxPrice"
  using unsigned_less [of x, where ?'a = nat] by (simp add: MaxPrice_def)

lemma unat_ucast_price [simp]: "unat (ucast (x :: Price) :: uint32) = unat x"
  by transfer simp

lemma unat_MaxPrice [simp]: "unat (of_nat MaxPrice :: uint32) = MaxPrice"
  by (simp add: MaxPrice_def)

lemma unat_of_nat_price: "q < MaxPrice \<Longrightarrow> unat (of_nat q :: Price) = q"
  by (simp add: MaxPrice_def unat_of_nat)

lemma unat_succ_cursor: "unat (x :: uint32) < MaxPrice \<Longrightarrow> unat (x + 1) = Suc (unat x)"
  by (simp add: MaxPrice_def unat_word_ariths)

lemma unat_pred_cursor: "0 < (x :: uint32) \<Longrightarrow> unat (x - 1) = unat x - 1"
  by (metis unat_minus_one word_neq_0_conv)

lemma askCrosses_iff: "askCrosses price b \<longleftrightarrow> unat (askMin b) \<le> unat price"
  by (simp add: askCrosses_def word_le_nat_alt)

lemma bidCrosses_iff: "bidCrosses price b \<longleftrightarrow> unat price \<le> unat (bidMax b) \<and> 0 < unat (bidMax b)"
  by (simp add: bidCrosses_def word_le_nat_alt word_less_nat_alt)

lemma deadP_setSlot: "setSlot b r ((pool b r)\<lparr>sActive := False\<rparr>) = b\<lparr>pool := deadP (pool b) r\<rparr>"
  by (simp add: setSlot_def deadP_def)

section \<open>The interpretations\<close>

lemma matchBuyLoop_eq:
  "matchBuyLoop b i price events =
    (if 0 < sSize (pool b i) \<and> askCrosses price b
     then if MaxPrice \<le> unat (askMin b) then None
     else (case skipInactive (pool b) (sells b (unat (askMin b))) of
       None \<Rightarrow> None
     | Some l \<Rightarrow>
         if lHead l = none then matchBuyLoop (askAdv (setSells b (unat (askMin b)) l)) i price events
         else let b2 = fst (fillPair (setSells b (unat (askMin b)) l) i (lHead l));
                  es = snd (fillPair (setSells b (unat (askMin b)) l) i (lHead l)) in
           if sSize (pool b2 (lHead l)) = 0
           then let b3 = b2\<lparr>pool := deadP (pool b2) (lHead l)\<rparr>;
                    l' = popHead (pool b3 (lHead l)) l;
                    b4 = setSells b3 (unat (askMin b)) l'
                in matchBuyLoop (if lHead l' = none then askAdv b4 else b4) i price (events @ es)
           else matchBuyLoop b2 i price (events @ es))
     else Some (b, events))"
  by (subst matchBuyLoop.simps)
    (simp add: askCrosses_def askAdv_def deadP_setSlot Let_def split_beta split: option.split)

lemma fillPair_cursors [simp]:
  "bidMax (fst (fillPair b i r)) = bidMax b" "askMin (fst (fillPair b i r)) = askMin b"
  by (simp_all add: fillPair_def Let_def)

lemma setLevel_simps [simp]:
  "pool (setBuys b q l) = pool b" "buys (setBuys b q l) = (buys b)(q := l)" "sells (setBuys b q l) = sells b"
  "bidMax (setBuys b q l) = bidMax b" "askMin (setBuys b q l) = askMin b" "poolTop (setBuys b q l) = poolTop b"
  "pool (setSells b q l) = pool b" "buys (setSells b q l) = buys b" "sells (setSells b q l) = (sells b)(q := l)"
  "bidMax (setSells b q l) = bidMax b" "askMin (setSells b q l) = askMin b" "poolTop (setSells b q l) = poolTop b"
  by (simp_all add: setBuys_def setSells_def)

lemma matchSellLoop_eq:
  "matchSellLoop b i price events =
    (if 0 < sSize (pool b i) \<and> bidCrosses price b
     then if MaxPrice \<le> unat (bidMax b) then None
     else (case skipInactive (pool b) (buys b (unat (bidMax b))) of
       None \<Rightarrow> None
     | Some l \<Rightarrow>
         if lHead l = none then matchSellLoop (bidAdv (setBuys b (unat (bidMax b)) l)) i price events
         else let b2 = fst (fillPair (setBuys b (unat (bidMax b)) l) i (lHead l));
                  es = snd (fillPair (setBuys b (unat (bidMax b)) l) i (lHead l)) in
           if sSize (pool b2 (lHead l)) = 0
           then let b3 = b2\<lparr>pool := deadP (pool b2) (lHead l)\<rparr>;
                    l' = popHead (pool b3 (lHead l)) l;
                    b4 = setBuys b3 (unat (bidMax b)) l'
                in matchSellLoop (if lHead l' = none then bidAdv b4 else b4) i price (events @ es)
           else matchSellLoop b2 i price (events @ es))
     else Some (b, events))"
  by (subst matchSellLoop.simps)
    (simp add: bidCrosses_def bidAdv_def deadP_setSlot Let_def split_beta split: option.split)

interpretation asks: match_side Sell sells setSells "\<lambda>b. unat (askMin b)" askAdv askScan askCrosses
  askValid buyOk "\<lambda>b. (poolTop b, buys b, bidMax b)" matchBuyLoop
proof (unfold_locales, goal_cases)
  case (23 b i price events)
  show ?case by (rule matchBuyLoop_eq)
next
  case (17 b price)
  then have "unat (askMin b) < MaxPrice"
    using unat_price_less [of price] by (simp add: askCrosses_iff)
  then show ?case
    by (simp add: askValid_def askAdv_def unat_succ_cursor)
next
  case (18 b price)
  then have "unat (askMin b) < MaxPrice"
    using unat_price_less [of price] by (simp add: askCrosses_iff)
  then show ?case
    by (simp add: askScan_def askAdv_def unat_succ_cursor upt_conv_Cons)
qed (auto simp: setSells_def askAdv_def askScan_def askValid_def askCrosses_iff buyOk_def word_le_nat_alt)

interpretation bids: match_side Buy buys setBuys "\<lambda>b. unat (bidMax b)" bidAdv bidScan bidCrosses
  bidValid sellOk "\<lambda>b. (poolTop b, sells b, askMin b)" matchSellLoop
proof (unfold_locales, goal_cases)
  case (23 b i price events)
  show ?case by (rule matchSellLoop_eq)
next
  case (17 b price)
  then show ?case
    by (auto simp: bidValid_def bidAdv_def bidCrosses_def unat_pred_cursor)
next
  case (18 b price)
  then have "0 < unat (bidMax b)" by (simp add: bidCrosses_iff)
  moreover have "unat (bidMax b - 1) = unat (bidMax b) - 1"
    using 18 by (simp add: bidCrosses_def unat_pred_cursor)
  ultimately show ?case
    by (cases "unat (bidMax b)") (simp_all add: bidScan_def bidAdv_def)
qed (auto simp: setBuys_def bidAdv_def bidScan_def bidValid_def bidCrosses_iff sellOk_def word_le_nat_alt)

end
