(* ===== verification/BookRep.thy ===== *)
theory BookRep
  imports MatchLoops
begin

text \<open>
  The representation invariant of the order book and the abstract book it
  represents. \<open>book_rep b B A fl\<close>: the levels of \<open>b\<close> list the identifiers \<open>B\<close> and
  \<open>A\<close> per price; a slot is active exactly when it has quantity left; every active
  slot is linked on the level of its side and price, but for the identifiers in
  \<open>fl\<close> (the incoming order while it is being matched); the two cursors have passed
  dead levels only. The read-only operations are characterised here.
\<close>

definition bidFull :: "nat list" where
  "bidFull = rev [1..<MaxPrice]"

definition askFull :: "nat list" where
  "askFull = [1..<MaxPrice]"

definition book_rep :: "OrderBook \<Rightarrow> (nat \<Rightarrow> OrderID list) \<Rightarrow> (nat \<Rightarrow> OrderID list) \<Rightarrow> OrderID set \<Rightarrow> bool" where
  "book_rep b B A fl \<longleftrightarrow>
     side_rep Buy (pool b) (buys b) B \<and> side_rep Sell (pool b) (sells b) A \<and>
     (\<forall>i. sActive (pool b i) \<longrightarrow> i \<in> fl \<or>
        i \<in> set ((case sSide (pool b i) of Buy \<Rightarrow> B | Sell \<Rightarrow> A) (unat (sPrice (pool b i))))) \<and>
     (\<forall>i. i \<notin> fl \<longrightarrow> (sActive (pool b i) \<longleftrightarrow> 0 < sSize (pool b i))) \<and>
     (\<forall>i\<in>fl. floating B i \<and> floating A i \<and> i < poolTop b) \<and>
     (\<forall>q<MaxPrice. \<forall>i\<in>set (B q) \<union> set (A q). i < poolTop b) \<and>
     bidValid b \<and> askValid b \<and> bids.swept b B \<and> asks.swept b A \<and>
     1 \<le> poolTop b \<and> poolTop b \<le> MaxOrders"

definition absOf :: "OrderBook \<Rightarrow> (nat \<Rightarrow> OrderID list) \<Rightarrow> (nat \<Rightarrow> OrderID list) \<Rightarrow> abook" where
  "absOf b B A = \<lparr>aBids = flat Buy (pool b) B bidFull, aAsks = flat Sell (pool b) A askFull, aTop = poolTop b\<rparr>"

definition rep :: "OrderBook \<Rightarrow> abook \<Rightarrow> bool" where
  "rep b a \<longleftrightarrow> (\<exists>B A. book_rep b B A {} \<and> a = absOf b B A)"

lemma absOf_simps [simp]:
  "aBids (absOf b B A) = flat Buy (pool b) B bidFull" "aAsks (absOf b B A) = flat Sell (pool b) A askFull"
  "aTop (absOf b B A) = poolTop b"
  by (simp_all add: absOf_def)

lemma MaxPrice_pos: "0 < MaxPrice" "1 < MaxPrice"
  by (simp_all add: MaxPrice_def)

section \<open>Flattened levels\<close>

lemma flat_dead: "(\<And>q. q \<in> set qs \<Longrightarrow> live p (L q) = []) \<Longrightarrow> flat sd p L qs = []"
  by (induction qs) auto

lemma upt_split: "m \<le> n \<Longrightarrow> n \<le> k \<Longrightarrow> [m..<k] = [m..<n] @ [n..<k]"
  by (metis le_Suc_ex upt_add_eq_append)

text \<open>Levels the cursor has passed contribute nothing.\<close>

lemma flat_bids_upto:
  assumes "n < MaxPrice" and "\<And>q. q < MaxPrice \<Longrightarrow> n < q \<Longrightarrow> live p (L q) = []"
  shows "flat Buy p L (rev [1..<Suc n]) = flat Buy p L bidFull"
proof -
  have eq: "bidFull = rev [Suc n..<MaxPrice] @ rev [1..<Suc n]"
    unfolding bidFull_def using upt_split [of 1 "Suc n" MaxPrice] assms(1) by (simp del: upt_Suc)
  have "flat Buy p L (rev [Suc n..<MaxPrice]) = []"
    using assms(2) by (intro flat_dead) auto
  then show ?thesis unfolding eq flat_simps by (simp only: append_Nil)
qed

lemma flat_asks_from:
  assumes "n \<le> MaxPrice" and "\<And>q. q < n \<Longrightarrow> live p (L q) = []" and "live p (L 0) = []"
  shows "flat Sell p L [n..<MaxPrice] = flat Sell p L askFull"
proof (cases "n = 0")
  case True
  have "[0..<MaxPrice] = 0 # askFull"
    unfolding askFull_def using MaxPrice_pos by (simp add: upt_conv_Cons)
  with True assms(3) show ?thesis by simp
next
  case False
  then have eq: "askFull = [1..<n] @ [n..<MaxPrice]"
    unfolding askFull_def using upt_split [of 1 n MaxPrice] assms(1) by simp
  have "flat Sell p L [1..<n] = []"
    using assms(2) by (intro flat_dead) auto
  then show ?thesis unfolding eq flat_simps by (simp only: append_Nil)
qed

lemma flat_bidScan:
  assumes "bidValid b" and "bids.swept b B"
  shows "flat Buy (pool b) B (bidScan b) = flat Buy (pool b) B bidFull"
  unfolding bidScan_def using assms
  by (intro flat_bids_upto) (auto simp: bidValid_def bids.swept_def bidScan_def)

lemma flat_askScan:
  assumes "askValid b" and "asks.swept b A" and "A 0 = []"
  shows "flat Sell (pool b) A (askScan b) = flat Sell (pool b) A askFull"
  unfolding askScan_def using assms
  by (intro flat_asks_from) (auto simp: askValid_def asks.swept_def askScan_def)

section \<open>Best prices and quantities\<close>

lemma bestPrice_simps [simp]: "bestPrice [] = 0" "bestPrice (e # es) = enPrice e"
  by (simp_all add: bestPrice_def)

lemma bestPrice_live:
  assumes "side_rep sd p lv L" and "q < MaxPrice" and "live p (L q) \<noteq> []"
  shows "bestPrice (map (entryOf sd p) (live p (L q)) @ es) = of_nat q"
proof -
  from assms(3) obtain i "is" where i: "live p (L q) = i # is"
    by (cases "live p (L q)") auto
  then have "i \<in> set (L q)"
    using set_live [of p "L q"] by auto
  then have "unat (sPrice (p i)) = q"
    using side_rep_ids [OF assms(1,2)] by blast
  then have "sPrice (p i) = of_nat q"
    by (metis of_nat_unat ucast_id)
  then show ?thesis
    using i by simp
qed

lemma firstActive_level:
  assumes "side_rep sd p lv L" and "q < MaxPrice"
  shows "firstActive p (lHead (lv q)) = Some (hdOrNone (live p (L q)))"
  using assms by (intro firstActive_chain level_rep_chain side_rep_level)

lemma hdOrNone_live_none:
  assumes "side_rep sd p lv L" and "q < MaxPrice"
  shows "hdOrNone (live p (L q)) = none \<longleftrightarrow> live p (L q) = []"
proof (cases "live p (L q)")
  case (Cons i "is")
  then have "i \<in> set (L q)"
    using set_live [of p "L q"] by auto
  with Cons side_rep_ids [OF assms] show ?thesis by auto
qed simp

lemma bestBidFrom_rep:
  assumes "side_rep Buy (pool b) (buys b) B"
  shows "n < MaxPrice \<Longrightarrow> bestBidFrom b n = Some (bestPrice (flat Buy (pool b) B (rev [1..<Suc n])))"
proof (induction n)
  case 0
  then show ?case by simp
next
  case (Suc n)
  have "rev [1..<Suc (Suc n)] = Suc n # rev [1..<Suc n]"
    by simp
  with Suc show ?case
    using firstActive_level [OF assms, of "Suc n"] hdOrNone_live_none [OF assms, of "Suc n"]
      bestPrice_live [OF assms, of "Suc n"]
    by (cases "live (pool b) (B (Suc n)) = []") (simp_all del: upt_Suc)
qed

lemma bestAskFrom_rep:
  assumes "side_rep Sell (pool b) (sells b) A"
  shows "bestAskFrom b n = Some (bestPrice (flat Sell (pool b) A [n..<MaxPrice]))"
proof (induction "MaxPrice - n" arbitrary: n)
  case 0
  then show ?case by (subst bestAskFrom.simps) simp
next
  case (Suc k)
  then have n: "n < MaxPrice" and "k = MaxPrice - Suc n" by auto
  then have "bestAskFrom b (Suc n) = Some (bestPrice (flat Sell (pool b) A [Suc n..<MaxPrice]))"
    using Suc.hyps(1) by blast
  with n show ?case
    using firstActive_level [OF assms n] hdOrNone_live_none [OF assms n] bestPrice_live [OF assms n]
    by (subst bestAskFrom.simps) (cases "live (pool b) (A n) = []", simp_all add: upt_conv_Cons)
qed

lemma flat_mem:
  "e \<in> set (flat sd p L qs) \<longleftrightarrow> (\<exists>q\<in>set qs. \<exists>i\<in>set (L q). sActive (p i) \<and> e = entryOf sd p i)"
  by (auto simp: flat_def set_live)

lemma price_of_nat: "q < MaxPrice \<Longrightarrow> x = (of_nat q :: Price) \<longleftrightarrow> unat x = q"
  using unat_of_nat_price [of q] by (metis of_nat_unat ucast_id)

lemma flat_price:
  assumes rep: "side_rep sd p lv L" and "distinct qs" and "set qs \<subseteq> {..<MaxPrice}" and q: "q < MaxPrice"
  shows "filter (\<lambda>e. enPrice e = of_nat q) (flat sd p L qs) =
    (if q \<in> set qs then map (entryOf sd p) (live p (L q)) else [])"
  using assms(2,3)
proof (induction qs)
  case Nil
  then show ?case by simp
next
  case (Cons q' qs)
  have "unat (sPrice (p i)) = q'" if "i \<in> set (live p (L q'))" for i
    using that Cons.prems side_rep_ids [OF rep, of q' i] by (auto simp: set_live)
  then have "filter (\<lambda>e. enPrice e = of_nat q) (map (entryOf sd p) (live p (L q'))) =
      (if q = q' then map (entryOf sd p) (live p (L q')) else [])"
    using price_of_nat [OF q] by (auto simp: filter_map o_def filter_id_conv filter_empty_conv)
  with Cons show ?case by auto
qed

lemma flat_price_pos:
  assumes rep: "side_rep sd p lv L" and "set qs \<subseteq> {..<MaxPrice}" and "e \<in> set (flat sd p L qs)"
  shows "0 < unat (enPrice e)" and "unat (enPrice e) \<in> set qs"
proof -
  from assms(3) obtain q i where q: "q \<in> set qs" "i \<in> set (L q)" "e = entryOf sd p i"
    by (auto simp: flat_mem)
  with assms(2) have "unat (enPrice e) = q"
    using side_rep_ids [OF rep, of q i] by auto
  moreover have "q \<noteq> 0"
    using q(2) rep by (metis empty_iff empty_set side_rep_def)
  ultimately show "0 < unat (enPrice e)" "unat (enPrice e) \<in> set qs"
    using q(1) by auto
qed

lemma bestPrice_0:
  assumes "side_rep sd p lv L" and "set qs \<subseteq> {..<MaxPrice}"
  shows "bestPrice (flat sd p L qs) = 0 \<longleftrightarrow> flat sd p L qs = []"
  using flat_price_pos(1) [OF assms] by (cases "flat sd p L qs") force+

lemma bestQty_flat:
  assumes rep: "side_rep sd p lv L" and qs: "distinct qs" "set qs \<subseteq> {..<MaxPrice}"
    and ne: "bestPrice (flat sd p L qs) \<noteq> 0"
  shows "bestQty (flat sd p L qs) =
    sum_list (map (\<lambda>i. sSize (p i)) (live p (L (unat (bestPrice (flat sd p L qs))))))"
proof -
  let ?q = "unat (bestPrice (flat sd p L qs))"
  obtain e es where e: "flat sd p L qs = e # es"
    using ne by (cases "flat sd p L qs") auto
  then have "?q \<in> set qs"
    using flat_price_pos(2) [OF rep qs(2), of e] by simp
  moreover have "bestPrice (flat sd p L qs) = of_nat ?q"
    by simp
  moreover have "?q < MaxPrice" by (rule unat_price_less)
  ultimately show ?thesis
    using flat_price [OF rep qs, of ?q] by (simp add: bestQty_def o_def)
qed

section \<open>The read-only operations\<close>

lemma full_simps [simp]: "distinct bidFull" "distinct askFull" "set bidFull \<subseteq> {..<MaxPrice}"
  "set askFull \<subseteq> {..<MaxPrice}" "q \<in> set bidFull \<longleftrightarrow> 0 < q \<and> q < MaxPrice" "q \<in> set askFull \<longleftrightarrow> 0 < q \<and> q < MaxPrice"
  by (auto simp: bidFull_def askFull_def)

lemma book_rep_sides:
  assumes "book_rep b B A fl"
  shows "side_rep Buy (pool b) (buys b) B" and "side_rep Sell (pool b) (sells b) A"
    and "bidValid b" and "askValid b" and "bids.swept b B" and "asks.swept b A" and "A 0 = []"
  using assms by (auto simp: book_rep_def side_rep_def)

lemma BestBid_rep:
  assumes "side_rep Buy (pool b) (buys b) B" and "bidValid b" and "bids.swept b B"
  shows "BestBid b = Some (bestPrice (flat Buy (pool b) B bidFull))"
  unfolding BestBid_def flat_bidScan [OF assms(2,3), symmetric] bidScan_def
  using assms by (intro bestBidFrom_rep) (auto simp: bidValid_def)

lemma BestAsk_rep:
  assumes "side_rep Sell (pool b) (sells b) A" and "askValid b" and "asks.swept b A"
  shows "BestAsk b = Some (bestPrice (flat Sell (pool b) A askFull))"
proof -
  have "A 0 = []" using assms(1) by (simp add: side_rep_def)
  then show ?thesis
    unfolding BestAsk_def flat_askScan [OF assms(2,3) \<open>A 0 = []\<close>, symmetric] askScan_def
    by (intro bestAskFrom_rep assms(1))
qed

lemma bestQty_0: "side_rep sd p lv L \<Longrightarrow> set qs \<subseteq> {..<MaxPrice} \<Longrightarrow> bestPrice (flat sd p L qs) = 0 \<Longrightarrow>
    bestQty (flat sd p L qs) = 0"
  by (simp add: bestPrice_0 bestQty_def)

lemma sumActive_level:
  assumes "side_rep sd p lv L"
  shows "sumActive p (lHead (lv (unat (q :: Price)))) 0 =
    Some (sum_list (map (\<lambda>i. sSize (p i)) (live p (L (unat q)))))"
  using sumActive_chain [OF level_rep_chain [OF side_rep_level [OF assms unat_price_less]], of q 0]
  by simp

lemma BestBidQty_rep:
  assumes "side_rep Buy (pool b) (buys b) B" and "bidValid b" and "bids.swept b B"
  shows "BestBidQty b = Some (bestQty (flat Buy (pool b) B bidFull))"
  using BestBid_rep [OF assms] bestQty_0 [OF assms(1), of bidFull] bestQty_flat [OF assms(1), of bidFull]
    sumActive_level [OF assms(1)]
  by (simp add: BestBidQty_def)

lemma BestAskQty_rep:
  assumes "side_rep Sell (pool b) (sells b) A" and "askValid b" and "asks.swept b A"
  shows "BestAskQty b = Some (bestQty (flat Sell (pool b) A askFull))"
  using BestAsk_rep [OF assms] bestQty_0 [OF assms(1), of askFull] bestQty_flat [OF assms(1), of askFull]
    sumActive_level [OF assms(1)]
  by (simp add: BestAskQty_def)

lemma bbo_rep:
  assumes "book_rep b B A fl"
  shows "bbo b = Some (aBBO (absOf b B A))"
  using book_rep_sides [OF assms] BestBid_rep BestAsk_rep BestBidQty_rep BestAskQty_rep
  by (simp add: bbo_def aBBO_def)

lemma appendBBO_rep:
  assumes "book_rep b B A fl"
  shows "appendBBOIfChanged b events (aBBO a) = Some (events @ bboChange a (absOf b B A))"
  using bbo_rep [OF assms] by (auto simp: appendBBOIfChanged_def bboChange_def)

lemma snapshotBids_rep:
  assumes "side_rep Buy (pool b) (buys b) B"
  shows "n < MaxPrice \<Longrightarrow> snapshotBids b n acc = Some (acc @ flat Buy (pool b) B (rev [1..<Suc n]))"
proof (induction n arbitrary: acc)
  case 0
  then show ?case by simp
next
  case (Suc n)
  have "rev [1..<Suc (Suc n)] = Suc n # rev [1..<Suc n]"
    by simp
  with Suc show ?case
    using collectActive_chain [OF level_rep_chain [OF side_rep_level [OF assms, of "Suc n"]]]
    by (simp del: upt_Suc)
qed

lemma snapshotAsks_rep:
  assumes "side_rep Sell (pool b) (sells b) A"
  shows "snapshotAsks b n acc = Some (acc @ flat Sell (pool b) A [n..<MaxPrice])"
proof (induction "MaxPrice - n" arbitrary: n acc)
  case 0
  then show ?case by (subst snapshotAsks.simps) simp
next
  case (Suc k)
  then have n: "n < MaxPrice" and "k = MaxPrice - Suc n" by auto
  then have "snapshotAsks b (Suc n) acc' = Some (acc' @ flat Sell (pool b) A [Suc n..<MaxPrice])" for acc'
    using Suc.hyps(1) by blast
  with n show ?case
    using collectActive_chain [OF level_rep_chain [OF side_rep_level [OF assms n]]]
    by (subst snapshotAsks.simps) (simp add: upt_conv_Cons)
qed

text \<open>The flattened side is sorted the way its levels are scanned.\<close>

lemma flat_sorted:
  assumes rep: "side_rep sd p lv L" and "\<And>q. f q q"
  shows "sorted_wrt f qs \<Longrightarrow> set qs \<subseteq> {..<MaxPrice} \<Longrightarrow>
    sorted_wrt (\<lambda>e e'. f (unat (enPrice e)) (unat (enPrice e'))) (flat sd p L qs)"
proof (induction qs)
  case Nil
  then show ?case by simp
next
  case (Cons q qs)
  have pr: "unat (sPrice (p i)) = q" if "i \<in> set (live p (L q))" for i
    using that Cons.prems side_rep_ids [OF rep, of q i] by (auto simp: set_live)
  then have "sorted_wrt (\<lambda>e e'. f (unat (enPrice e)) (unat (enPrice e'))) (map (entryOf sd p) xs)"
    if "set xs \<subseteq> set (live p (L q))" for xs
    using that assms(2) by (induction xs) auto
  moreover have "f q (unat (enPrice e))" if "e \<in> set (flat sd p L qs)" for e
    using Cons.prems flat_price_pos(2) [OF rep _ that] by auto
  ultimately show ?case
    using Cons pr by (auto simp: sorted_wrt_append)
qed

lemma bids_sorted:
  assumes "side_rep Buy p lv L"
  shows "sorted_wrt (\<lambda>e e'. enPrice e' \<le> enPrice e) (flat Buy p L bidFull)"
  using flat_sorted [OF assms, of "\<lambda>x y. y \<le> x" bidFull]
  by (force simp: bidFull_def sorted_wrt_rev word_le_nat_alt)

lemma asks_sorted:
  assumes "side_rep Sell p lv L"
  shows "sorted_wrt (\<lambda>e e'. enPrice e \<le> enPrice e') (flat Sell p L askFull)"
  using flat_sorted [OF assms, of "\<lambda>x y. x \<le> y" askFull]
  by (force simp: askFull_def word_le_nat_alt)

lemma sorted_best:
  assumes "sorted_wrt (\<lambda>e e'. f (enPrice e) (enPrice e')) es" and "\<And>x. f x x" and "e \<in> set es"
  shows "f (bestPrice es) (enPrice e)"
  using assms by (cases es) auto

lemma live_mem_flat:
  assumes "side_rep sd p lv L" and "q \<in> set qs" and "q < MaxPrice" and "live p (L q) \<noteq> []"
  obtains e where "e \<in> set (flat sd p L qs)" and "unat (enPrice e) = q"
proof -
  from assms(4) obtain i where "i \<in> set (live p (L q))"
    by (cases "live p (L q)") auto
  then have i: "i \<in> set (L q)" "sActive (p i)"
    by (auto simp: set_live)
  with assms(2) have "entryOf sd p i \<in> set (flat sd p L qs)"
    by (auto simp: flat_mem)
  moreover have "unat (enPrice (entryOf sd p i)) = q"
    using side_rep_ids [OF assms(1,3) i(1)] by simp
  ultimately show ?thesis by (rule that)
qed

lemma bids_above_best:
  assumes "side_rep Buy p lv L" and q: "q < MaxPrice" "unat (bestPrice (flat Buy p L bidFull)) < q"
  shows "live p (L q) = []"
proof (rule ccontr)
  assume "live p (L q) \<noteq> []"
  then obtain e where e: "e \<in> set (flat Buy p L bidFull)" "unat (enPrice e) = q"
    using live_mem_flat [OF assms(1), of q bidFull] q by auto
  have "enPrice e \<le> bestPrice (flat Buy p L bidFull)"
    using sorted_best [OF bids_sorted [OF assms(1)] _ e(1)] by simp
  with e(2) q(2) show False by (simp add: word_le_nat_alt)
qed

lemma asks_below_best:
  assumes "side_rep Sell p lv L" and q: "q < unat (bestPrice (flat Sell p L askFull))"
  shows "live p (L q) = []"
proof (rule ccontr)
  assume ne: "live p (L q) \<noteq> []"
  have z: "L 0 = []" using assms(1) by (simp add: side_rep_def)
  have "q < MaxPrice" using q unat_price_less less_trans by blast
  moreover have "q \<noteq> 0" using ne z by (metis live_simps(1))
  ultimately obtain e where e: "e \<in> set (flat Sell p L askFull)" "unat (enPrice e) = q"
    using live_mem_flat [OF assms(1), of q askFull] ne by auto
  have "bestPrice (flat Sell p L askFull) \<le> enPrice e"
    using sorted_best [OF asks_sorted [OF assms(1)] _ e(1)] by simp
  with e(2) q show False by (simp add: word_le_nat_alt)
qed

lemma bids_from_best:
  assumes "side_rep Buy p lv L"
  shows "flat Buy p L (rev [1..<Suc (unat (bestPrice (flat Buy p L bidFull)))]) = flat Buy p L bidFull"
  using bids_above_best [OF assms] by (rule flat_bids_upto [OF unat_price_less])

lemma asks_from_best:
  assumes "side_rep Sell p lv L"
  shows "flat Sell p L [unat (bestPrice (flat Sell p L askFull))..<MaxPrice] = flat Sell p L askFull"
proof (rule flat_asks_from [OF less_imp_le [OF unat_price_less]])
  show "live p (L q) = []" if "q < unat (bestPrice (flat Sell p L askFull))" for q
    using assms that by (rule asks_below_best)
  show "live p (L 0) = []" using assms by (simp add: side_rep_def)
qed

theorem Snapshot_rep:
  assumes "rep b a"
  shows "Snapshot b = Some (aState a)"
proof -
  from assms obtain B A where r: "book_rep b B A {}" and a: "a = absOf b B A"
    by (auto simp: rep_def)
  note s = book_rep_sides [OF r]
  show ?thesis
    unfolding a Snapshot_def using BestBid_rep [OF s(1,3,5)] BestAsk_rep [OF s(2,4,6)]
      snapshotBids_rep [OF s(1) unat_price_less] bids_from_best [OF s(1)]
      snapshotAsks_rep [OF s(2)] asks_from_best [OF s(2)] bestPrice_0 [OF s(2), of askFull]
    by (auto simp: aState_def simp del: upt_Suc)
qed

end
