(* ===== verification/BookRefine.thy ===== *)
theory BookRefine
  imports BookRep
begin

text \<open>
  The engine implements the abstract book: each operation of \<open>matchengine/book.go\<close>
  returns on every book that represents an abstract one, emits the events the
  abstract operation emits, and leaves a book that represents its result.
\<close>

section \<open>What does not read the links\<close>

lemma flat_next:
  assumes "\<And>j. p' j = (p j)\<lparr>sNext := sNext (p' j)\<rparr>"
  shows "flat sd p' L qs = flat sd p L qs"
proof -
  have act: "sActive (p' j) = sActive (p j)" for j
    by (subst assms) simp
  have ent: "entryOf sd p' j = entryOf sd p j" for j
    unfolding entryOf_def by (subst (1 2 3 4 5) assms) simp
  have "live p' is = live p is" for "is"
    by (rule live_cong) (rule act)
  moreover have "entryOf sd p' = entryOf sd p"
    by (rule ext) (rule ent)
  ultimately show ?thesis by (simp add: flat_def)
qed

lemma live_next:
  assumes "\<And>j. p' j = (p j)\<lparr>sNext := sNext (p' j)\<rparr>"
  shows "live p' is = live p is"
proof (rule live_cong)
  show "sActive (p' j) = sActive (p j)" for j
    by (subst assms) simp
qed

lemma side_rep_same:
  assumes "side_rep sd p lv L" and "\<And>q j. q < MaxPrice \<Longrightarrow> j \<in> set (L q) \<Longrightarrow> p' j = p j"
  shows "side_rep sd p' lv L"
  using assms level_rep_cong [of "L q" p' p for q] by (simp add: side_rep_def)

section \<open>Queueing an order on its side\<close>

lemma enqueue_side:
  assumes rep: "side_rep sd p lv L" and i: "floating L i" "sSide (p i) = sd" "unat (sPrice (p i)) = q"
    "i \<noteq> none" "i < MaxOrders" and q: "0 < q" "q < MaxPrice"
  obtains p' l where "enqueue p (lv q) i = Some (p', l)"
    and "side_rep sd p' (lv(q := l)) (L(q := L q @ [i]))"
    and "\<And>j. p' j = (p j)\<lparr>sNext := sNext (p' j)\<rparr>" and "\<And>j. j \<noteq> i \<Longrightarrow> j \<notin> set (L q) \<Longrightarrow> p' j = p j"
proof -
  have iq: "i \<notin> set (L q)" using i(1) q(2) by (simp add: floating_def)
  from enqueue_rep [OF side_rep_level [OF rep q(2)] iq i(4,5)]
  obtain p' l where e: "enqueue p (lv q) i = Some (p', l)" "level_rep p' l (L q @ [i])"
      "\<And>j. p' j = (p j)\<lparr>sNext := sNext (p' j)\<rparr>" "\<And>j. j \<noteq> i \<Longrightarrow> j \<notin> set (L q) \<Longrightarrow> p' j = p j"
    by blast
  have st: "sSide (p' j) = sSide (p j)" "sPrice (p' j) = sPrice (p j)" for j
    by (subst e(3), simp)+
  have "level_rep p' (lv q') (L q')" if q': "q' < MaxPrice" "q' \<noteq> q" for q'
  proof -
    have "j \<noteq> i \<and> j \<notin> set (L q)" if "j \<in> set (L q')" for j
      using that q' i(1) side_rep_same_level [OF rep q'(1) q(2), of j] by (auto simp: floating_def)
    then have "p' j = p j" if "j \<in> set (L q')" for j
      using that e(4) by blast
    then show ?thesis
      using level_rep_cong [of "L q'" p' p] side_rep_level [OF rep q'(1)] by simp
  qed
  then have "side_rep sd p' (lv(q := l)) (L(q := L q @ [i]))"
    using rep e(2) i(2,3) q by (auto simp: side_rep_def st)
  with e that show ?thesis by blast
qed

lemma flat_insert:
  assumes "q \<notin> set qs" and "q \<notin> set qs'" and "sActive (p i)"
  shows "flat sd p (L(q := L q @ [i])) (qs @ q # qs') =
    flat sd p L (qs @ [q]) @ entryOf sd p i # flat sd p L qs'"
proof -
  have "flat sd p (L(q := L q @ [i])) xs = flat sd p L xs" if "q \<notin> set xs" for xs
    using that by (intro flat_cong) auto
  with assms show ?thesis by simp
qed

lemma insertBid_split:
  assumes "\<And>x. x \<in> set xs \<Longrightarrow> enPrice e \<le> enPrice x" and "\<And>y. y \<in> set ys \<Longrightarrow> enPrice y < enPrice e"
  shows "insertBid e (xs @ ys) = xs @ e # ys"
  unfolding insertBid_def using assms by (cases ys) (auto simp flip: not_le)

lemma insertAsk_split:
  assumes "\<And>x. x \<in> set xs \<Longrightarrow> enPrice x \<le> enPrice e" and "\<And>y. y \<in> set ys \<Longrightarrow> enPrice e < enPrice y"
  shows "insertAsk e (xs @ ys) = xs @ e # ys"
  unfolding insertAsk_def using assms by (cases ys) (auto simp flip: not_le)

lemma range_below [simp]: "n \<le> m \<Longrightarrow> {k..<n} \<subseteq> {..<m :: nat}"
  by auto

lemma flat_insertBid:
  assumes rep: "side_rep Buy p lv B" and act: "sActive (p i)" and pr: "unat (sPrice (p i)) = q"
    and q: "0 < q" "q < MaxPrice"
  shows "flat Buy p (B(q := B q @ [i])) bidFull = insertBid (entryOf Buy p i) (flat Buy p B bidFull)"
proof -
  have split: "bidFull = rev [Suc q..<MaxPrice] @ q # rev [1..<q]"
    unfolding bidFull_def using q upt_split [of 1 q MaxPrice] by (simp add: upt_conv_Cons [of q])
  have "flat Buy p B bidFull = flat Buy p B (rev [Suc q..<MaxPrice] @ [q]) @ flat Buy p B (rev [1..<q])"
    unfolding split by simp
  moreover have "enPrice (entryOf Buy p i) \<le> enPrice x" if "x \<in> set (flat Buy p B (rev [Suc q..<MaxPrice] @ [q]))" for x
    using flat_price_pos(2) [OF rep _ that] pr q by (auto simp: word_le_nat_alt)
  moreover have "enPrice y < enPrice (entryOf Buy p i)" if "y \<in> set (flat Buy p B (rev [1..<q]))" for y
    using flat_price_pos(2) [OF rep _ that] pr q by (auto simp: word_less_nat_alt)
  ultimately have "insertBid (entryOf Buy p i) (flat Buy p B bidFull) =
      flat Buy p B (rev [Suc q..<MaxPrice] @ [q]) @ entryOf Buy p i # flat Buy p B (rev [1..<q])"
    using insertBid_split by presburger
  moreover have "flat Buy p (B(q := B q @ [i])) bidFull =
      flat Buy p B (rev [Suc q..<MaxPrice] @ [q]) @ entryOf Buy p i # flat Buy p B (rev [1..<q])"
    unfolding split using act by (intro flat_insert) auto
  ultimately show ?thesis by (simp only:)
qed

lemma flat_insertAsk:
  assumes rep: "side_rep Sell p lv A" and act: "sActive (p i)" and pr: "unat (sPrice (p i)) = q"
    and q: "0 < q" "q < MaxPrice"
  shows "flat Sell p (A(q := A q @ [i])) askFull = insertAsk (entryOf Sell p i) (flat Sell p A askFull)"
proof -
  have split: "askFull = [1..<q] @ q # [Suc q..<MaxPrice]"
    unfolding askFull_def using q upt_split [of 1 q MaxPrice] by (simp add: upt_conv_Cons [of q])
  have "flat Sell p A askFull = flat Sell p A ([1..<q] @ [q]) @ flat Sell p A [Suc q..<MaxPrice]"
    unfolding split by simp
  moreover have "enPrice x \<le> enPrice (entryOf Sell p i)" if "x \<in> set (flat Sell p A ([1..<q] @ [q]))" for x
    using flat_price_pos(2) [OF rep _ that] pr q by (auto simp: word_le_nat_alt)
  moreover have "enPrice (entryOf Sell p i) < enPrice y" if "y \<in> set (flat Sell p A [Suc q..<MaxPrice])" for y
    using flat_price_pos(2) [OF rep _ that] pr q by (auto simp: word_less_nat_alt)
  ultimately have "insertAsk (entryOf Sell p i) (flat Sell p A askFull) =
      flat Sell p A ([1..<q] @ [q]) @ entryOf Sell p i # flat Sell p A [Suc q..<MaxPrice]"
    using insertAsk_split by presburger
  moreover have "flat Sell p (A(q := A q @ [i])) askFull =
      flat Sell p A ([1..<q] @ [q]) @ entryOf Sell p i # flat Sell p A [Suc q..<MaxPrice]"
    unfolding split using act by (intro flat_insert) auto
  ultimately show ?thesis by (simp only:)
qed

section \<open>Allocating the incoming order\<close>

lemma book_repI:
  assumes "side_rep Buy (pool b) (buys b) B" and "side_rep Sell (pool b) (sells b) A"
    and "\<And>i. sActive (pool b i) \<Longrightarrow> i \<notin> fl \<Longrightarrow>
        i \<in> set ((case sSide (pool b i) of Buy \<Rightarrow> B | Sell \<Rightarrow> A) (unat (sPrice (pool b i))))"
    and "\<And>i. i \<notin> fl \<Longrightarrow> sActive (pool b i) \<longleftrightarrow> 0 < sSize (pool b i)"
    and "\<And>i. i \<in> fl \<Longrightarrow> floating B i \<and> floating A i \<and> i < poolTop b"
    and "\<And>q i. q < MaxPrice \<Longrightarrow> i \<in> set (B q) \<union> set (A q) \<Longrightarrow> i < poolTop b"
    and "bidValid b" and "askValid b" and "bids.swept b B" and "asks.swept b A"
    and "1 \<le> poolTop b" and "poolTop b \<le> MaxOrders"
  shows "book_rep b B A fl"
  unfolding book_rep_def using assms by auto

lemma book_rep_facts:
  assumes "book_rep b B A fl"
  shows "sActive (pool b i) \<Longrightarrow> i \<notin> fl \<Longrightarrow>
        i \<in> set ((case sSide (pool b i) of Buy \<Rightarrow> B | Sell \<Rightarrow> A) (unat (sPrice (pool b i))))"
    and "i \<notin> fl \<Longrightarrow> sActive (pool b i) \<longleftrightarrow> 0 < sSize (pool b i)"
    and "i \<in> fl \<Longrightarrow> floating B i \<and> floating A i \<and> i < poolTop b"
    and "q < MaxPrice \<Longrightarrow> i \<in> set (B q) \<union> set (A q) \<Longrightarrow> i < poolTop b"
    and "1 \<le> poolTop b" and "poolTop b \<le> MaxOrders"
  using assms unfolding book_rep_def by blast+

lemma swept_same:
  assumes "\<And>q j. q < MaxPrice \<Longrightarrow> j \<in> set (L q) \<Longrightarrow> sActive (pool b' j) = sActive (pool b j)"
  shows "bidScan b' = bidScan b \<Longrightarrow> bids.swept b' L = bids.swept b L"
    and "askScan b' = askScan b \<Longrightarrow> asks.swept b' L = asks.swept b L"
  using assms live_cong [of "L q" "pool b'" "pool b" for q]
  by (simp_all add: bids.swept_def asks.swept_def)

lemma book_rep_top_floating:
  assumes "book_rep b B A {}"
  shows "floating B (poolTop b)" and "floating A (poolTop b)"
  using book_rep_facts(4) [OF assms] by (force simp: floating_def)+

lemma top_succ: "x < MaxOrders \<Longrightarrow> x < x + 1" "x < MaxOrders \<Longrightarrow> x + 1 \<le> MaxOrders"
  by (simp_all add: MaxOrders_def word_less_nat_alt word_le_nat_alt unat_word_ariths)

lemma alloc_rep:
  assumes r: "book_rep b B A {}" and top: "poolTop b < MaxOrders" and al: "alloc b order = (b1, i)"
  shows "i = poolTop b" and "book_rep b1 B A {i}"
    and "absOf b1 B A = (absOf b B A)\<lparr>aTop := i + 1\<rparr>"
    and "entryOf (oSide order) (pool b1) i = newEntry (absOf b B A) order"
    and "sSide (pool b1 i) = oSide order" and "sPrice (pool b1 i) = oPrice order"
    and "sActive (pool b1 i)" and "i \<noteq> none" and "i < MaxOrders"
proof -
  show i: "i = poolTop b" using al by (auto simp: alloc_def Let_def)
  define s where "s = \<lparr>sTrader = oTrader order, sSize = oSize order, sNext = none,
      sPrice = oPrice order, sSide = oSide order, sActive = True, sQtyFilled = 0, sFills = []\<rparr>"
  have b1: "pool b1 = (pool b)(i := s)" "buys b1 = buys b" "sells b1 = sells b" "bidMax b1 = bidMax b"
      "askMin b1 = askMin b" "poolTop b1 = i + 1"
    using al by (auto simp: alloc_def Let_def s_def)
  have fl: "floating B i" "floating A i"
    using book_rep_top_floating [OF r] i by simp_all
  then have notin: "i \<notin> set (B q)" "i \<notin> set (A q)" if "q < MaxPrice" for q
    using that by (simp_all add: floating_def)
  note f = book_rep_facts [OF r] and sd = book_rep_sides [OF r]
  have lt: "i < i + 1" "i + 1 \<le> MaxOrders" using top_succ top i by simp_all
  show "book_rep b1 B A {i}"
  proof (rule book_repI)
    show "side_rep Buy (pool b1) (buys b1) B" "side_rep Sell (pool b1) (sells b1) A"
      unfolding b1 using sd(1,2) notin by (simp_all add: side_rep_upd_notin)
    show "bids.swept b1 B"
      using sd(5) notin by (subst swept_same(1) [of B b1 b]) (auto simp: b1 bidScan_def)
    show "asks.swept b1 A"
      using sd(6) notin by (subst swept_same(2) [of A b1 b]) (auto simp: b1 askScan_def)
    show "j \<in> set (B q) \<union> set (A q) \<Longrightarrow> j < poolTop b1" if "q < MaxPrice" for q j
      using f(4) [OF that, of j] lt i b1(6) by (metis order_less_trans)
    show "1 \<le> poolTop b1" using f(5) lt i b1(6) by (metis less_le_not_le order_trans)
    show "j \<in> set ((case sSide (pool b1 j) of Buy \<Rightarrow> B | Sell \<Rightarrow> A) (unat (sPrice (pool b1 j))))"
      if "sActive (pool b1 j)" "j \<notin> {i}" for j
      using that f(1) [of j] by (simp add: b1)
    show "sActive (pool b1 j) \<longleftrightarrow> 0 < sSize (pool b1 j)" if "j \<notin> {i}" for j
      using that f(2) [of j] by (simp add: b1)
  qed (use sd fl lt in \<open>auto simp: b1 bidValid_def askValid_def\<close>)
  have "flat sd (pool b1) L qs = flat sd (pool b) L qs" if "floating L i" "set qs \<subseteq> {..<MaxPrice}" for sd L qs
    using that by (intro flat_cong) (auto simp: b1 floating_def)
  then show "absOf b1 B A = (absOf b B A)\<lparr>aTop := i + 1\<rparr>"
    using fl by (simp add: absOf_def b1)
  show "i \<noteq> none" using f(5) i by (auto simp: none_def)
  show "i < MaxOrders" using top i by simp
qed (use al in \<open>auto simp: alloc_def Let_def newEntry_def entryOf_def\<close>)

section \<open>The sweep of the other side\<close>

text \<open>What a sweep leaves of the slots of the side it does not touch, and where the slots of
  its own side are afterwards.\<close>

lemma sides_disjoint:
  assumes "side_rep Buy p lv B" and "side_rep Sell p lw A" and "q < MaxPrice" and "q' < MaxPrice"
    and "j \<in> set (B q)"
  shows "j \<notin> set (A q')"
  using side_rep_ids [OF assms(1,3,5)] side_rep_ids [OF assms(2,4), of j] by auto

lemma frame_active:
  assumes fr: "frame p L i p' L'" and rep: "side_rep sd p lv L"
    and on: "j \<noteq> i \<Longrightarrow> sActive (p j) \<Longrightarrow> sSide (p j) = sd \<Longrightarrow> j \<in> set (L (unat (sPrice (p j))))"
    and j: "j \<noteq> i" "sActive (p' j)"
  shows "sSide (p' j) = sd \<Longrightarrow> j \<in> set (L' (unat (sPrice (p' j))))"
    and "sSide (p' j) \<noteq> sd \<Longrightarrow> p' j = p j"
proof -
  have st: "sPrice (p' j) = sPrice (p j)" "sSide (p' j) = sSide (p j)"
    using fr by (simp_all add: frame_def)
  have same: "p' j = p j" if "floating L j"
    using fr j(1) that by (simp add: frame_def)
  show "p' j = p j" if "sSide (p' j) \<noteq> sd"
    using that st side_rep_ids [OF rep] same by (metis floating_def)
  show "j \<in> set (L' (unat (sPrice (p' j))))" if "sSide (p' j) = sd"
  proof -
    have "\<not> floating L j"
      using on [OF j(1)] that st j same unat_price_less by (metis floating_def)
    then obtain q where q: "q < MaxPrice" "j \<in> set (L q)" by (auto simp: floating_def)
    with fr j(2) have "j \<in> set (L' q)" by (auto simp: frame_def)
    with q st show ?thesis using side_rep_ids [OF rep q] by simp
  qed
qed

lemma frame_sized:
  assumes fr: "frame p L i p' L'" and sz: "sized p' L'" and old: "sActive (p j) \<longleftrightarrow> 0 < sSize (p j)" and j: "j \<noteq> i"
  shows "sActive (p' j) \<longleftrightarrow> 0 < sSize (p' j)"
proof (cases "floating L j")
  case True
  with fr j old show ?thesis by (simp add: frame_def)
next
  case False
  then obtain q where q: "q < MaxPrice" "j \<in> set (L q)" by (auto simp: floating_def)
  with fr sz show ?thesis
    by (cases "j \<in> set (L' q)") (auto simp: frame_def sized_def)
qed

lemma book_rep_sized:
  assumes "book_rep b B A {i}"
  shows "sized (pool b) B" and "sized (pool b) A"
  using book_rep_facts(2,3) [OF assms] by (force simp: sized_def floating_def)+

lemma matchBuyLoop_rep:
  assumes r: "book_rep b B A {i}" and act: "sActive (pool b i)"
    and sw: "sweep (buyOk price) (entryOf Buy (pool b) i) (aAsks (absOf b B A)) = (e, asks, es)"
  obtains b' A' where "matchBuyLoop b i price events = Some (b', events @ es)" and "book_rep b' B A' {i}"
    and "absOf b' B A' = (absOf b B A)\<lparr>aAsks := asks\<rparr>" and "entryOf Buy (pool b') i = e"
    and "sActive (pool b' i)" and "sPrice (pool b' i) = sPrice (pool b i)" and "sSide (pool b' i) = sSide (pool b i)"
proof -
  note sd = book_rep_sides [OF r] and f = book_rep_facts [OF r]
  have fli: "floating B i" "floating A i" using f(3) [of i] by simp_all
  have "asks.linv b A i"
    using sd fli book_rep_sized [OF r] by (simp add: asks.linv_def)
  from asks.loop_sweep [OF this, of Buy price events] obtain b' A' where l:
      "matchBuyLoop b i price events = Some (b', events @ es)" "asks.linv b' A' i"
      "flat Sell (pool b') A' (askScan b') = asks" "entryOf Buy (pool b') i = e"
      "frame (pool b) A i (pool b') A'" "poolTop b' = poolTop b" "buys b' = buys b" "bidMax b' = bidMax b"
    using sw flat_askScan [OF sd(4,6,7)] unfolding asks.swp_def by auto
  have same: "pool b' j = pool b j" if "q < MaxPrice" "j \<in> set (B q)" for q j
  proof -
    have "floating A j"
      unfolding floating_def using sides_disjoint [OF sd(1,2) that(1) _ that(2)] by blast
    moreover have "j \<noteq> i" using fli that by (auto simp: floating_def)
    ultimately show ?thesis using l(5) by (simp add: frame_def)
  qed
  from l(2) have inv: "side_rep Sell (pool b') (sells b') A'" "sized (pool b') A'" "floating A' i"
      "askValid b'" "asks.swept b' A'" by (simp_all add: asks.linv_def)
  have rep: "book_rep b' B A' {i}"
  proof (rule book_repI)
    show "side_rep Buy (pool b') (buys b') B"
      unfolding l(7) using sd(1) same by (rule side_rep_same)
    show "j \<in> set ((case sSide (pool b' j) of Buy \<Rightarrow> B | Sell \<Rightarrow> A') (unat (sPrice (pool b' j))))"
      if j: "sActive (pool b' j)" "j \<notin> {i}" for j
    proof -
      have on: "j \<in> set (A (unat (sPrice (pool b j))))" if "sActive (pool b j)" "sSide (pool b j) = Sell"
        using that f(1) [of j] j by simp
      have ji: "j \<noteq> i" using j(2) by simp
      show ?thesis
      proof (cases "sSide (pool b' j) = Sell")
        case True
        then show ?thesis using frame_active(1) [OF l(5) sd(2) on ji j(1)] by simp
      next
        case False
        then have "pool b' j = pool b j" using frame_active(2) [OF l(5) sd(2) on ji j(1)] by simp
        then show ?thesis using False f(1) [of j] j by (cases "sSide (pool b j)") simp_all
      qed
    qed
    show "sActive (pool b' j) \<longleftrightarrow> 0 < sSize (pool b' j)" if "j \<notin> {i}" for j
      using frame_sized [OF l(5) inv(2)] f(2) [of j] that by simp
    show "j < poolTop b'" if "q < MaxPrice" "j \<in> set (B q) \<union> set (A' q)" for q j
      using that f(4) [of q j] l(5,6) by (auto simp: frame_def)
    show "bids.swept b' B"
      using sd(5) same by (subst swept_same(1) [of B b' b]) (auto simp: bidScan_def l(8))
  qed (use inv sd f l in \<open>auto simp: bidValid_def\<close>)
  have "flat Buy (pool b') B bidFull = flat Buy (pool b) B bidFull"
    using same by (intro flat_cong) auto
  moreover have "flat Sell (pool b') A' askFull = asks"
    using l(3) flat_askScan [OF inv(4,5)] inv(1) by (simp add: side_rep_def)
  ultimately have "absOf b' B A' = (absOf b B A)\<lparr>aAsks := asks\<rparr>"
    using l(6) by (simp add: absOf_def)
  with l rep act that show ?thesis by (simp add: frame_def)
qed

lemma matchSellLoop_rep:
  assumes r: "book_rep b B A {i}" and act: "sActive (pool b i)"
    and sw: "sweep (sellOk price) (entryOf Sell (pool b) i) (aBids (absOf b B A)) = (e, bids, es)"
  obtains b' B' where "matchSellLoop b i price events = Some (b', events @ es)" and "book_rep b' B' A {i}"
    and "absOf b' B' A = (absOf b B A)\<lparr>aBids := bids\<rparr>" and "entryOf Sell (pool b') i = e"
    and "sActive (pool b' i)" and "sPrice (pool b' i) = sPrice (pool b i)" and "sSide (pool b' i) = sSide (pool b i)"
proof -
  note sd = book_rep_sides [OF r] and f = book_rep_facts [OF r]
  have fli: "floating B i" "floating A i" using f(3) [of i] by simp_all
  have "bids.linv b B i"
    using sd fli book_rep_sized [OF r] by (simp add: bids.linv_def)
  from bids.loop_sweep [OF this, of Sell price events] obtain b' B' where l:
      "matchSellLoop b i price events = Some (b', events @ es)" "bids.linv b' B' i"
      "flat Buy (pool b') B' (bidScan b') = bids" "entryOf Sell (pool b') i = e"
      "frame (pool b) B i (pool b') B'" "poolTop b' = poolTop b" "sells b' = sells b" "askMin b' = askMin b"
    using sw flat_bidScan [OF sd(3,5)] unfolding bids.swp_def by auto
  have same: "pool b' j = pool b j" if "q < MaxPrice" "j \<in> set (A q)" for q j
  proof -
    have "floating B j"
      unfolding floating_def using sides_disjoint [OF sd(1,2) _ that(1)] that(2) by blast
    moreover have "j \<noteq> i" using fli that by (auto simp: floating_def)
    ultimately show ?thesis using l(5) by (simp add: frame_def)
  qed
  from l(2) have inv: "side_rep Buy (pool b') (buys b') B'" "sized (pool b') B'" "floating B' i"
      "bidValid b'" "bids.swept b' B'" by (simp_all add: bids.linv_def)
  have rep: "book_rep b' B' A {i}"
  proof (rule book_repI)
    show "side_rep Sell (pool b') (sells b') A"
      unfolding l(7) using sd(2) same by (rule side_rep_same)
    show "j \<in> set ((case sSide (pool b' j) of Buy \<Rightarrow> B' | Sell \<Rightarrow> A) (unat (sPrice (pool b' j))))"
      if j: "sActive (pool b' j)" "j \<notin> {i}" for j
    proof -
      have on: "j \<in> set (B (unat (sPrice (pool b j))))" if "sActive (pool b j)" "sSide (pool b j) = Buy"
        using that f(1) [of j] j by simp
      have ji: "j \<noteq> i" using j(2) by simp
      show ?thesis
      proof (cases "sSide (pool b' j) = Buy")
        case True
        then show ?thesis using frame_active(1) [OF l(5) sd(1) on ji j(1)] by simp
      next
        case False
        then have "pool b' j = pool b j" using frame_active(2) [OF l(5) sd(1) on ji j(1)] by simp
        then show ?thesis using False f(1) [of j] j by (cases "sSide (pool b j)") simp_all
      qed
    qed
    show "sActive (pool b' j) \<longleftrightarrow> 0 < sSize (pool b' j)" if "j \<notin> {i}" for j
      using frame_sized [OF l(5) inv(2)] f(2) [of j] that by simp
    show "j < poolTop b'" if "q < MaxPrice" "j \<in> set (B' q) \<union> set (A q)" for q j
      using that f(4) [of q j] l(5,6) by (auto simp: frame_def)
    show "asks.swept b' A"
      using sd(6) same by (subst swept_same(2) [of A b' b]) (auto simp: askScan_def l(8))
  qed (use inv sd f l in \<open>auto simp: askValid_def\<close>)
  have "flat Sell (pool b') A askFull = flat Sell (pool b) A askFull"
    using same by (intro flat_cong) auto
  moreover have "flat Buy (pool b') B' bidFull = bids"
    using l(3) flat_bidScan [OF inv(4,5)] by simp
  ultimately have "absOf b' B' A = (absOf b B A)\<lparr>aBids := bids\<rparr>"
    using l(6) by (simp add: absOf_def)
  with l rep act that show ?thesis by (simp add: frame_def)
qed

section \<open>Resting the remainder\<close>

definition restBid :: "OrderBook \<Rightarrow> pool \<Rightarrow> priceLevel \<Rightarrow> Price \<Rightarrow> OrderBook" where
  "restBid b p l price = (let b2 = setBuys (b\<lparr>pool := p\<rparr>) (unat price) l in
     if bidMax b2 < ucast price then b2\<lparr>bidMax := ucast price\<rparr> else b2)"

definition restAsk :: "OrderBook \<Rightarrow> pool \<Rightarrow> priceLevel \<Rightarrow> Price \<Rightarrow> OrderBook" where
  "restAsk b p l price = (let b2 = setSells (b\<lparr>pool := p\<rparr>) (unat price) l in
     if ucast price < askMin b2 then b2\<lparr>askMin := ucast price\<rparr> else b2)"

lemma rest_simps [simp]:
  "pool (restBid b p l price) = p" "buys (restBid b p l price) = (buys b)(unat price := l)"
  "sells (restBid b p l price) = sells b" "askMin (restBid b p l price) = askMin b"
  "poolTop (restBid b p l price) = poolTop b"
  "unat (bidMax (restBid b p l price)) = max (unat (bidMax b)) (unat price)"
  "pool (restAsk b p l price) = p" "sells (restAsk b p l price) = (sells b)(unat price := l)"
  "buys (restAsk b p l price) = buys b" "bidMax (restAsk b p l price) = bidMax b"
  "poolTop (restAsk b p l price) = poolTop b"
  "unat (askMin (restAsk b p l price)) = min (unat (askMin b)) (unat price)"
  by (auto simp: restBid_def restAsk_def Let_def word_less_nat_alt)

lemma next_static:
  assumes "\<And>j. p' j = (p j)\<lparr>sNext := sNext (p' j)\<rparr>"
  shows "sActive (p' j) = sActive (p j)" "sSize (p' j) = sSize (p j)" "sSide (p' j) = sSide (p j)"
    "sPrice (p' j) = sPrice (p j)" "entryOf sd p' j = entryOf sd p j"
  by (subst assms, simp)+ (unfold entryOf_def, subst (1 2 3 4 5) assms, simp)

lemma restBid_rep:
  assumes r: "book_rep b B A {i}" and act: "sActive (pool b i)" "0 < sSize (pool b i)" "sSide (pool b i) = Buy"
    and pr: "sPrice (pool b i) = price" "price \<noteq> 0" and i: "i \<noteq> none"
  obtains p l B' where "enqueue (pool b) (buys b (unat price)) i = Some (p, l)"
    and "book_rep (restBid b p l price) B' A {}"
    and "absOf (restBid b p l price) B' A =
      (absOf b B A)\<lparr>aBids := insertBid (entryOf Buy (pool b) i) (aBids (absOf b B A))\<rparr>"
    and "entryOf Buy p i = entryOf Buy (pool b) i"
proof -
  note sd = book_rep_sides [OF r] and f = book_rep_facts [OF r]
  have fli: "floating B i" "floating A i" "i < poolTop b" using f(3) [of i] by simp_all
  have im: "i < MaxOrders" using fli(3) f(6) by (rule less_le_trans)
  have q: "0 < unat price" "unat price < MaxPrice" using pr(2) unat_price_less by (simp_all add: unat_gt_0)
  from enqueue_side [OF sd(1) fli(1) act(3) _ i im q, of] pr(1) obtain p l where
      e: "enqueue (pool b) (buys b (unat price)) i = Some (p, l)"
      "side_rep Buy p ((buys b)(unat price := l)) (B(unat price := B (unat price) @ [i]))"
      "\<And>j. p j = (pool b j)\<lparr>sNext := sNext (p j)\<rparr>"
      "\<And>j. j \<noteq> i \<Longrightarrow> j \<notin> set (B (unat price)) \<Longrightarrow> p j = pool b j"
    by blast
  note st = next_static [of p "pool b", OF e(3)]
  let ?b = "restBid b p l price" and ?B = "B(unat price := B (unat price) @ [i])"
  have sameA: "p j = pool b j" if "qa < MaxPrice" "j \<in> set (A qa)" for qa j
    using that e(4) fli(2) sides_disjoint [OF sd(1,2) q(2) that(1)] by (metis floating_def)
  have "book_rep ?b ?B A {}"
  proof (rule book_repI)
    show "side_rep Sell (pool ?b) (sells ?b) A"
      using side_rep_same [OF sd(2) sameA] by simp
    show "j \<in> set ((case sSide (pool ?b j) of Buy \<Rightarrow> ?B | Sell \<Rightarrow> A) (unat (sPrice (pool ?b j))))"
      if "sActive (pool ?b j)" for j
      using that f(1) [of j] act pr(1) by (cases "j = i"; cases "sSide (pool b j)") (auto simp: st)
    show "sActive (pool ?b j) \<longleftrightarrow> 0 < sSize (pool ?b j)" for j
      using f(2) [of j] act by (cases "j = i") (simp_all add: st)
    show "j < poolTop ?b" if "qa < MaxPrice" "j \<in> set (?B qa) \<union> set (A qa)" for qa j
      using that f(4) [of qa j] fli(3) by (auto split: if_splits)
    show "bids.swept ?b ?B"
      unfolding bids.swept_def
    proof (intro allI impI)
      fix qa assume "qa < MaxPrice" "qa \<notin> set (bidScan ?b)"
      then have "qa \<noteq> unat price" "qa \<notin> set (bidScan b)"
        using q(1) by (auto simp: bidScan_def)
      with sd(5) \<open>qa < MaxPrice\<close> show "live (pool ?b) (?B qa) = []"
        by (simp add: bids.swept_def live_next [of p "pool b", OF e(3)])
    qed
    show "asks.swept ?b A"
      using sd(6) by (subst swept_same(2) [of A ?b b]) (auto simp: askScan_def st)
  qed (use e sd f q in \<open>auto simp: bidValid_def askValid_def\<close>)
  moreover have "absOf ?b ?B A = (absOf b B A)\<lparr>aBids := insertBid (entryOf Buy (pool b) i) (aBids (absOf b B A))\<rparr>"
    using flat_insertBid [OF sd(1) act(1) _ q] pr(1) by (simp add: absOf_def flat_next [of p "pool b", OF e(3)])
  ultimately show ?thesis
    using that e(1) st(5) by blast
qed

lemma restAsk_rep:
  assumes r: "book_rep b B A {i}" and act: "sActive (pool b i)" "0 < sSize (pool b i)" "sSide (pool b i) = Sell"
    and pr: "sPrice (pool b i) = price" "price \<noteq> 0" and i: "i \<noteq> none"
  obtains p l A' where "enqueue (pool b) (sells b (unat price)) i = Some (p, l)"
    and "book_rep (restAsk b p l price) B A' {}"
    and "absOf (restAsk b p l price) B A' =
      (absOf b B A)\<lparr>aAsks := insertAsk (entryOf Sell (pool b) i) (aAsks (absOf b B A))\<rparr>"
    and "entryOf Sell p i = entryOf Sell (pool b) i"
proof -
  note sd = book_rep_sides [OF r] and f = book_rep_facts [OF r]
  have fli: "floating B i" "floating A i" "i < poolTop b" using f(3) [of i] by simp_all
  have im: "i < MaxOrders" using fli(3) f(6) by (rule less_le_trans)
  have q: "0 < unat price" "unat price < MaxPrice" using pr(2) unat_price_less by (simp_all add: unat_gt_0)
  from enqueue_side [OF sd(2) fli(2) act(3) _ i im q, of] pr(1) obtain p l where
      e: "enqueue (pool b) (sells b (unat price)) i = Some (p, l)"
      "side_rep Sell p ((sells b)(unat price := l)) (A(unat price := A (unat price) @ [i]))"
      "\<And>j. p j = (pool b j)\<lparr>sNext := sNext (p j)\<rparr>"
      "\<And>j. j \<noteq> i \<Longrightarrow> j \<notin> set (A (unat price)) \<Longrightarrow> p j = pool b j"
    by blast
  note st = next_static [of p "pool b", OF e(3)]
  let ?b = "restAsk b p l price" and ?A = "A(unat price := A (unat price) @ [i])"
  have sameB: "p j = pool b j" if "qa < MaxPrice" "j \<in> set (B qa)" for qa j
    using that e(4) fli(1) sides_disjoint [OF sd(1,2) that(1) q(2) that(2)] by (metis floating_def)
  have "book_rep ?b B ?A {}"
  proof (rule book_repI)
    show "side_rep Buy (pool ?b) (buys ?b) B"
      using side_rep_same [OF sd(1) sameB] by simp
    show "j \<in> set ((case sSide (pool ?b j) of Buy \<Rightarrow> B | Sell \<Rightarrow> ?A) (unat (sPrice (pool ?b j))))"
      if "sActive (pool ?b j)" for j
      using that f(1) [of j] act pr(1) by (cases "j = i"; cases "sSide (pool b j)") (auto simp: st)
    show "sActive (pool ?b j) \<longleftrightarrow> 0 < sSize (pool ?b j)" for j
      using f(2) [of j] act by (cases "j = i") (simp_all add: st)
    show "j < poolTop ?b" if "qa < MaxPrice" "j \<in> set (B qa) \<union> set (?A qa)" for qa j
      using that f(4) [of qa j] fli(3) by (auto split: if_splits)
    show "asks.swept ?b ?A"
      unfolding asks.swept_def
    proof (intro allI impI)
      fix qa assume "qa < MaxPrice" "qa \<notin> set (askScan ?b)"
      then have "qa \<noteq> unat price" "qa \<notin> set (askScan b)"
        by (auto simp: askScan_def)
      with sd(6) \<open>qa < MaxPrice\<close> show "live (pool ?b) (?A qa) = []"
        by (simp add: asks.swept_def live_next [of p "pool b", OF e(3)])
    qed
    show "bids.swept ?b B"
      using sd(5) by (subst swept_same(1) [of B ?b b]) (auto simp: bidScan_def st)
  qed (use e sd f q in \<open>auto simp: bidValid_def askValid_def\<close>)
  moreover have "absOf ?b B ?A = (absOf b B A)\<lparr>aAsks := insertAsk (entryOf Sell (pool b) i) (aAsks (absOf b B A))\<rparr>"
    using flat_insertAsk [OF sd(2) act(1) _ q] pr(1) by (simp add: absOf_def flat_next [of p "pool b", OF e(3)])
  ultimately show ?thesis
    using that e(1) st(5) by blast
qed

text \<open>An incoming order with nothing left is taken out of the pool's live slots.\<close>

lemma retire_rep:
  assumes r: "book_rep b B A {i}" and z: "sSize (pool b i) = 0"
  defines "b' \<equiv> setSlot b i ((pool b i)\<lparr>sActive := False\<rparr>)"
  shows "book_rep b' B A {}" and "absOf b' B A = absOf b B A"
proof -
  note sd = book_rep_sides [OF r] and f = book_rep_facts [OF r]
  have fli: "floating B i" "floating A i" using f(3) [of i] by simp_all
  then have notin: "i \<notin> set (B q)" "i \<notin> set (A q)" if "q < MaxPrice" for q
    using that by (simp_all add: floating_def)
  show "book_rep b' B A {}"
  proof (rule book_repI)
    show "side_rep Buy (pool b') (buys b') B" "side_rep Sell (pool b') (sells b') A"
      using sd(1,2) notin by (simp_all add: b'_def side_rep_upd_notin)
    show "bids.swept b' B"
      using sd(5) notin by (subst swept_same(1) [of B b' b]) (auto simp: b'_def bidScan_def)
    show "asks.swept b' A"
      using sd(6) notin by (subst swept_same(2) [of A b' b]) (auto simp: b'_def askScan_def)
    show "j \<in> set ((case sSide (pool b' j) of Buy \<Rightarrow> B | Sell \<Rightarrow> A) (unat (sPrice (pool b' j))))"
      if "sActive (pool b' j)" for j
      using that f(1) [of j] by (cases "j = i") (simp_all add: b'_def)
    show "sActive (pool b' j) \<longleftrightarrow> 0 < sSize (pool b' j)" for j
      using z f(2) [of j] by (cases "j = i") (simp_all add: b'_def)
    show "j < poolTop b'" if "q < MaxPrice" "j \<in> set (B q) \<union> set (A q)" for q j
      using that f(4) [of q j] by (simp add: b'_def)
  qed (use sd f in \<open>auto simp: b'_def bidValid_def askValid_def\<close>)
  have "flat sd (pool b') L qs = flat sd (pool b) L qs" if "floating L i" "set qs \<subseteq> {..<MaxPrice}" for sd L qs
    using that by (intro flat_cong) (auto simp: b'_def floating_def)
  then show "absOf b' B A = absOf b B A"
    using fli by (simp add: absOf_def) (simp add: b'_def)
qed

section \<open>matchBuy, matchSell, Limit\<close>

lemma entry_size: "entryOf sd p i = e \<Longrightarrow> sSize (p i) = enSize e"
  by auto

lemma matchBuy_rep:
  assumes r: "book_rep b B A {i}" and slot: "sActive (pool b i)" "sSide (pool b i) = Buy"
    "sPrice (pool b i) = oPrice order" "oPrice order \<noteq> 0" "i \<noteq> none"
    and sw: "sweep (buyOk (oPrice order)) (entryOf Buy (pool b) i) (aAsks (absOf b B A)) = (e, asks, es)"
  obtains b' B' A' where
    "matchBuy b i order [] = Some (b', if enSize e = 0 then es else es @ [entryEvent OrderAccepted e])"
    and "book_rep b' B' A' {}"
    and "absOf b' B' A' = (if enSize e = 0 then (absOf b B A)\<lparr>aAsks := asks\<rparr>
      else (absOf b B A)\<lparr>aAsks := asks, aBids := insertBid e (aBids (absOf b B A))\<rparr>)"
proof -
  from matchBuyLoop_rep [OF r slot(1) sw, of "[]"] obtain b1 A1 where l:
      "matchBuyLoop b i (oPrice order) [] = Some (b1, es)" "book_rep b1 B A1 {i}"
      "absOf b1 B A1 = (absOf b B A)\<lparr>aAsks := asks\<rparr>" "entryOf Buy (pool b1) i = e"
      "sActive (pool b1 i)" "sPrice (pool b1 i) = sPrice (pool b i)" "sSide (pool b1 i) = sSide (pool b i)"
    by auto
  note sz = entry_size [OF l(4)]
  show ?thesis
  proof (cases "enSize e = 0")
    case True
    with that [OF _ retire_rep(1) [OF l(2)]] l(1,3) sz retire_rep(2) [OF l(2)] show ?thesis
      by (simp add: matchBuy_def)
  next
    case False
    then have pos: "0 < sSize (pool b1 i)" using sz by (simp add: word_neq_0_conv)
    from restBid_rep [OF l(2,5) pos _ _ slot(4,5)] slot l(6,7) obtain p lv B' where q:
        "enqueue (pool b1) (buys b1 (unat (oPrice order))) i = Some (p, lv)"
        "book_rep (restBid b1 p lv (oPrice order)) B' A1 {}"
        "absOf (restBid b1 p lv (oPrice order)) B' A1 =
          (absOf b1 B A1)\<lparr>aBids := insertBid (entryOf Buy (pool b1) i) (aBids (absOf b1 B A1))\<rparr>"
        "entryOf Buy p i = entryOf Buy (pool b1) i"
      by metis
    have "acceptedEvent i (p i) = entryEvent OrderAccepted e"
      using acceptedEvent_entry [of i p Buy] q(4) l(4) by simp
    then have "matchBuy b i order [] = Some (restBid b1 p lv (oPrice order), es @ [entryEvent OrderAccepted e])"
      using l(1) q(1) pos by (simp add: matchBuy_def restBid_def Let_def)
    with that [OF _ q(2)] q(3) False l(3,4) show ?thesis by simp
  qed
qed

lemma matchSell_rep:
  assumes r: "book_rep b B A {i}" and slot: "sActive (pool b i)" "sSide (pool b i) = Sell"
    "sPrice (pool b i) = oPrice order" "oPrice order \<noteq> 0" "i \<noteq> none"
    and sw: "sweep (sellOk (oPrice order)) (entryOf Sell (pool b) i) (aBids (absOf b B A)) = (e, bids, es)"
  obtains b' B' A' where
    "matchSell b i order [] = Some (b', if enSize e = 0 then es else es @ [entryEvent OrderAccepted e])"
    and "book_rep b' B' A' {}"
    and "absOf b' B' A' = (if enSize e = 0 then (absOf b B A)\<lparr>aBids := bids\<rparr>
      else (absOf b B A)\<lparr>aBids := bids, aAsks := insertAsk e (aAsks (absOf b B A))\<rparr>)"
proof -
  from matchSellLoop_rep [OF r slot(1) sw, of "[]"] obtain b1 B1 where l:
      "matchSellLoop b i (oPrice order) [] = Some (b1, es)" "book_rep b1 B1 A {i}"
      "absOf b1 B1 A = (absOf b B A)\<lparr>aBids := bids\<rparr>" "entryOf Sell (pool b1) i = e"
      "sActive (pool b1 i)" "sPrice (pool b1 i) = sPrice (pool b i)" "sSide (pool b1 i) = sSide (pool b i)"
    by auto
  note sz = entry_size [OF l(4)]
  show ?thesis
  proof (cases "enSize e = 0")
    case True
    with that [OF _ retire_rep(1) [OF l(2)]] l(1,3) sz retire_rep(2) [OF l(2)] show ?thesis
      by (simp add: matchSell_def)
  next
    case False
    then have pos: "0 < sSize (pool b1 i)" using sz by (simp add: word_neq_0_conv)
    from restAsk_rep [OF l(2,5) pos _ _ slot(4,5)] slot l(6,7) obtain p lv A' where q:
        "enqueue (pool b1) (sells b1 (unat (oPrice order))) i = Some (p, lv)"
        "book_rep (restAsk b1 p lv (oPrice order)) B1 A' {}"
        "absOf (restAsk b1 p lv (oPrice order)) B1 A' =
          (absOf b1 B1 A)\<lparr>aAsks := insertAsk (entryOf Sell (pool b1) i) (aAsks (absOf b1 B1 A))\<rparr>"
        "entryOf Sell p i = entryOf Sell (pool b1) i"
      by metis
    have "acceptedEvent i (p i) = entryEvent OrderAccepted e"
      using acceptedEvent_entry [of i p Sell] q(4) l(4) by simp
    then have "matchSell b i order [] = Some (restAsk b1 p lv (oPrice order), es @ [entryEvent OrderAccepted e])"
      using l(1) q(1) pos by (simp add: matchSell_def restAsk_def Let_def)
    with that [OF _ q(2)] q(3) False l(3,4) show ?thesis by simp
  qed
qed

lemma aBBO_top [simp]: "aBBO (a\<lparr>aTop := t\<rparr>) = aBBO a" "bboChange (a\<lparr>aTop := t\<rparr>) a' = bboChange a a'"
  by (simp_all add: aBBO_def bboChange_def)

text \<open>Each matcher does what the abstract book does with the allocated order.\<close>

lemma match_rep:
  assumes r: "book_rep b B A {}" and top: "poolTop b < MaxOrders" and al: "alloc b order = (b1, i)"
    and price: "oPrice order \<noteq> 0"
    and spec: "(if oSide order = Buy then aBuy (absOf b B A) order else aSell (absOf b B A) order) = (a', evs)"
  obtains b2 B2 A2 where
    "(if oSide order = Buy then matchBuy b1 i order [] else matchSell b1 i order []) = Some (b2, evs)"
    and "book_rep b2 B2 A2 {}" and "absOf b2 B2 A2 = a'"
proof -
  note al = alloc_rep [OF r top al]
  show ?thesis
  proof (cases "oSide order")
    case Buy
    obtain e asks es where sw:
        "sweep (buyOk (oPrice order)) (entryOf Buy (pool b1) i) (aAsks (absOf b1 B A)) = (e, asks, es)"
      by (metis prod_cases3)
    have "aBuy (absOf b B A) order = (if enSize e = 0 then ((absOf b1 B A)\<lparr>aAsks := asks\<rparr>, es)
        else ((absOf b1 B A)\<lparr>aAsks := asks, aBids := insertBid e (aBids (absOf b1 B A))\<rparr>, es @ [entryEvent OrderAccepted e]))"
      using sw al(1,3,4) Buy by (simp add: aBuy_def)
    then show ?thesis
      using matchBuy_rep [OF al(2,7) _ al(6) price al(8) sw] al(5) Buy spec that by (cases "enSize e = 0") auto
  next
    case Sell
    obtain e bids es where sw:
        "sweep (sellOk (oPrice order)) (entryOf Sell (pool b1) i) (aBids (absOf b1 B A)) = (e, bids, es)"
      by (metis prod_cases3)
    have "aSell (absOf b B A) order = (if enSize e = 0 then ((absOf b1 B A)\<lparr>aBids := bids\<rparr>, es)
        else ((absOf b1 B A)\<lparr>aBids := bids, aAsks := insertAsk e (aAsks (absOf b1 B A))\<rparr>, es @ [entryEvent OrderAccepted e]))"
      using sw al(1,3,4) Sell by (simp add: aSell_def)
    then show ?thesis
      using matchSell_rep [OF al(2,7) _ al(6) price al(8) sw] al(5) Sell spec that by (cases "enSize e = 0") auto
  qed
qed

lemma Limit_rep:
  assumes "rep b a" and "aLimit a order = (a', i, evs)"
  shows "\<exists>b'. Limit b order = Some (b', i, evs) \<and> rep b' a'"
proof -
  from assms(1) obtain B A where r: "book_rep b B A {}" and a: "a = absOf b B A"
    by (auto simp: rep_def)
  have top: "aTop a = poolTop b" using a by simp
  show ?thesis
  proof (cases "oPrice order = 0 \<or> MaxOrders \<le> poolTop b")
    case True
    with assms top show ?thesis by (auto simp: Limit_def aLimit_def split: if_splits)
  next
    case False
    then have price: "oPrice order \<noteq> 0" and lt: "poolTop b < MaxOrders" by auto
    obtain b1 j where al: "alloc b order = (b1, j)" by (cases "alloc b order") auto
    note alr = alloc_rep [OF r lt al]
    obtain a2 es where ab: "(if oSide order = Buy then aBuy a order else aSell a order) = (a2, es)"
      by (metis surj_pair)
    with match_rep [OF r lt al price] a obtain b2 B2 A2 where m:
        "(if oSide order = Buy then matchBuy b1 j order [] else matchSell b1 j order []) = Some (b2, es)"
        "book_rep b2 B2 A2 {}" "absOf b2 B2 A2 = a2"
      by metis
    have "bbo b1 = Some (aBBO a)"
      using bbo_rep [OF alr(2)] alr(3) a by simp
    then have "Limit b order = Some (b2, j, es @ bboChange a a2)"
      using price False al m(1) appendBBO_rep [OF m(2), of es a] m(3) by (simp add: Limit_def)
    moreover have "aLimit a order = (a2, j, es @ bboChange a a2)"
      using price False ab alr(1) top by (simp add: aLimit_def)
    ultimately show ?thesis
      using assms(2) m by (auto simp: rep_def)
  qed
qed

section \<open>Cancel\<close>

lemma find_unique:
  assumes "x \<in> set es" and "P x" and "\<And>y. y \<in> set es \<Longrightarrow> P y \<Longrightarrow> y = x"
  shows "List.find P es = Some x"
proof -
  have "List.find P es \<noteq> None" using assms(1,2) by (auto simp: find_None_iff)
  then obtain y where "List.find P es = Some y" by blast
  then show ?thesis
    using assms(3) [of y] by (metis find_Some_iff nth_mem)
qed

lemma find_none_iff: "List.find P es = None \<longleftrightarrow> (\<forall>y\<in>set es. \<not> P y)"
  by (auto simp: find_None_iff)

lemma findEntry_active:
  assumes r: "book_rep b B A {}" and act: "sActive (pool b i)"
  shows "findEntry (absOf b B A) i = Some (entryOf (sSide (pool b i)) (pool b) i)"
proof -
  note sd = book_rep_sides [OF r]
  let ?q = "unat (sPrice (pool b i))"
  have q: "?q < MaxPrice" by (rule unat_price_less)
  have on: "i \<in> set ((case sSide (pool b i) of Buy \<Rightarrow> B | Sell \<Rightarrow> A) ?q)"
    using book_rep_facts(1) [OF r act] by simp
  have q0: "0 < ?q"
    using on sd(1,2) by (cases "sSide (pool b i)"; cases "?q = 0") (auto simp: side_rep_def)
  have "entryOf (sSide (pool b i)) (pool b) i \<in> set (aBids (absOf b B A) @ aAsks (absOf b B A))"
    using on act q q0 by (cases "sSide (pool b i)") (force simp: flat_mem)+
  moreover have "y = entryOf (sSide (pool b i)) (pool b) i"
    if y: "y \<in> set (aBids (absOf b B A) @ aAsks (absOf b B A))" "enID y = i" for y
  proof -
    from y(1) consider "y \<in> set (flat Buy (pool b) B bidFull)" | "y \<in> set (flat Sell (pool b) A askFull)"
      by auto
    then show ?thesis
    proof cases
      case 1
      then obtain q where q: "q < MaxPrice" "i \<in> set (B q)" "y = entryOf Buy (pool b) i"
        using y(2) by (auto simp: flat_mem)
      then show ?thesis using side_rep_ids [OF sd(1) q(1,2)] by simp
    next
      case 2
      then obtain q where q: "q < MaxPrice" "i \<in> set (A q)" "y = entryOf Sell (pool b) i"
        using y(2) by (auto simp: flat_mem)
      then show ?thesis using side_rep_ids [OF sd(2) q(1,2)] by simp
    qed
  qed
  moreover have "enID (entryOf (sSide (pool b i)) (pool b) i) = i" by simp
  ultimately show ?thesis
    unfolding findEntry_def using find_unique [where P = "\<lambda>e. enID e = i"] by blast
qed

lemma findEntry_inactive:
  "\<not> sActive (pool b i) \<Longrightarrow> findEntry (absOf b B A) i = None"
  by (auto simp: findEntry_def find_none_iff flat_mem)

definition killP :: "pool \<Rightarrow> OrderID \<Rightarrow> pool" where
  "killP p i = p(i := (p i)\<lparr>sActive := False, sSize := 0\<rparr>)"

lemma killP_simps [simp]:
  "sNext (killP p i j) = sNext (p j)" "sSide (killP p i j) = sSide (p j)" "sPrice (killP p i j) = sPrice (p j)"
  "sTrader (killP p i j) = sTrader (p j)" "sQtyFilled (killP p i j) = sQtyFilled (p j)"
  "sFills (killP p i j) = sFills (p j)" "sActive (killP p i j) \<longleftrightarrow> sActive (p j) \<and> j \<noteq> i"
  "j \<noteq> i \<Longrightarrow> killP p i j = p j" "sSize (killP p i i) = 0"
  by (auto simp: killP_def)

lemma flat_kill: "flat sd (killP p i) L qs = filter (\<lambda>e. enID e \<noteq> i) (flat sd p L qs)"
proof -
  have "map (entryOf sd (killP p i)) (live (killP p i) is) =
      filter (\<lambda>e. enID e \<noteq> i) (map (entryOf sd p) (live p is))" for "is"
    by (induction "is") (auto simp: entryOf_def)
  then show ?thesis by (simp add: flat_def filter_concat o_def)
qed

lemma kill_rep:
  fixes i :: OrderID
  assumes r: "book_rep b B A {}"
  defines "b1 \<equiv> b\<lparr>pool := killP (pool b) i\<rparr>"
  shows "book_rep b1 B A {}" and "absOf b1 B A = dropEntry i (absOf b B A)"
proof -
  note sd = book_rep_sides [OF r] and f = book_rep_facts [OF r]
  have lv: "live (killP (pool b) i) is = []" if "live (pool b) is = []" for "is"
    using that by (simp add: live_def filter_empty_conv)
  show "book_rep b1 B A {}"
  proof (rule book_repI)
    show "side_rep Buy (pool b1) (buys b1) B" "side_rep Sell (pool b1) (sells b1) A"
      using sd(1,2) side_rep_cong [of "killP (pool b) i" "pool b"] by (simp_all add: b1_def)
    show "bids.swept b1 B" "asks.swept b1 A"
      using sd(5,6) lv by (simp_all add: b1_def bids.swept_def asks.swept_def bidScan_def askScan_def)
    show "sActive (pool b1 j) \<longleftrightarrow> 0 < sSize (pool b1 j)" for j
      using f(2) [of j] by (cases "j = i") (simp_all add: b1_def)
    show "j < poolTop b1" if "q < MaxPrice" "j \<in> set (B q) \<union> set (A q)" for q j
      using that f(4) [of q j] by (simp add: b1_def)
  qed (use sd f in \<open>auto simp: b1_def bidValid_def askValid_def\<close>)
  show "absOf b1 B A = dropEntry i (absOf b B A)"
    by (simp add: absOf_def b1_def dropEntry_def flat_kill)
qed

text \<open>Moving a cursor to the best price keeps the book's meaning.\<close>

lemma bidMax_best_rep:
  assumes r: "book_rep b B A {}"
  defines "b' \<equiv> b\<lparr>bidMax := ucast (bestPrice (flat Buy (pool b) B bidFull))\<rparr>"
  shows "book_rep b' B A {}" and "absOf b' B A = absOf b B A"
proof -
  note sd = book_rep_sides [OF r]
  have "bids.swept b' B"
    unfolding bids.swept_def
  proof (intro allI impI)
    fix q assume "q < MaxPrice" "q \<notin> set (bidScan b')"
    then have "q = 0 \<or> unat (bestPrice (flat Buy (pool b) B bidFull)) < q"
      by (auto simp: b'_def bidScan_def)
    with bids_above_best [OF sd(1) \<open>q < MaxPrice\<close>] sd(1) show "live (pool b') (B q) = []"
      by (auto simp: b'_def side_rep_def)
  qed
  then show "book_rep b' B A {}"
    using r unat_price_less by (simp add: book_rep_def b'_def bidValid_def askValid_def asks.swept_def askScan_def)
  show "absOf b' B A = absOf b B A" by (simp add: absOf_def b'_def)
qed

lemma askMin_best_rep:
  assumes r: "book_rep b B A {}"
  defines "p \<equiv> bestPrice (flat Sell (pool b) A askFull)"
  defines "b' \<equiv> b\<lparr>askMin := if p = 0 then of_nat MaxPrice else ucast p\<rparr>"
  shows "book_rep b' B A {}" and "absOf b' B A = absOf b B A"
proof -
  note sd = book_rep_sides [OF r]
  have z: "live (pool b) (A q) = []" if "p = 0" "q < MaxPrice" for q
  proof (rule ccontr)
    assume ne: "live (pool b) (A q) \<noteq> []"
    then have "q \<noteq> 0" using sd(7) by (metis live_simps(1))
    with ne that(2) obtain e where "e \<in> set (flat Sell (pool b) A askFull)"
      using live_mem_flat [OF sd(2), of q askFull] by auto
    with that(1) show False using bestPrice_0 [OF sd(2), of askFull] by (auto simp: p_def)
  qed
  have "asks.swept b' A"
    unfolding asks.swept_def
  proof (intro allI impI)
    fix q assume "q < MaxPrice" "q \<notin> set (askScan b')"
    with z asks_below_best [OF sd(2), of q] show "live (pool b') (A q) = []"
      by (cases "p = 0") (auto simp: b'_def askScan_def p_def)
  qed
  moreover have "askValid b'"
    using less_imp_le [OF unat_price_less] by (simp add: b'_def askValid_def)
  ultimately show "book_rep b' B A {}"
    using r by (simp add: book_rep_def b'_def bidValid_def bids.swept_def bidScan_def)
  show "absOf b' B A = absOf b B A" by (simp add: absOf_def b'_def)
qed

lemma cancelledEvent_entry:
  "cancelledEvent i (killP p i i) (sSize (p i)) = entryEvent OrderCancelled (entryOf sd p i)"
  by (simp add: cancelledEvent_def entryEvent_def entryOf_def)

lemma Cancel_rep:
  assumes "rep b a" and "aCancel a i = (a', evs)"
  shows "\<exists>b'. Cancel b i = Some (b', evs) \<and> rep b' a'"
proof -
  from assms(1) obtain B A where r: "book_rep b B A {}" and a: "a = absOf b B A"
    by (auto simp: rep_def)
  have top: "aTop a = poolTop b" using a by simp
  have im: "\<not> MaxOrders \<le> i" if "\<not> poolTop b \<le> i"
    using that book_rep_facts(6) [OF r] by auto
  consider "i = none \<or> poolTop b \<le> i" | "i \<noteq> none" "\<not> poolTop b \<le> i" "\<not> sActive (pool b i)"
    | "i \<noteq> none" "\<not> poolTop b \<le> i" "sActive (pool b i)" by blast
  then show ?thesis
  proof cases
    case 1
    with assms top show ?thesis by (auto simp: Cancel_def aCancel_def)
  next
    case 2
    then have "sSize (pool b i) = 0" using book_rep_facts(2) [OF r, of i] word_neq_0_conv by blast
    with 2 assms top im show ?thesis
      using findEntry_inactive [OF 2(3), of B A] a by (auto simp: Cancel_def aCancel_def)
  next
    case 3
    let ?s = "pool b i" and ?b1 = "b\<lparr>pool := killP (pool b) i\<rparr>"
    note k = kill_rep [OF r, of i]
    note sd = book_rep_sides [OF k(1)]
    define b2 where "b2 = (if sSide ?s = Buy \<and> ucast (sPrice ?s) = bidMax b
        then ?b1\<lparr>bidMax := ucast (bestPrice (flat Buy (pool ?b1) B bidFull))\<rparr>
        else if sSide ?s = Sell
        then ?b1\<lparr>askMin := if bestPrice (flat Sell (pool ?b1) A askFull) = 0 then of_nat MaxPrice
                 else ucast (bestPrice (flat Sell (pool ?b1) A askFull))\<rparr>
        else ?b1)"
    have b2: "book_rep b2 B A {}" "absOf b2 B A = dropEntry i a"
      using bidMax_best_rep [OF k(1)] askMin_best_rep [OF k(1)] k a unfolding b2_def by simp_all
    have p2: "pool b2 = killP (pool b) i" by (simp add: b2_def)
    have "Cancel b i = Some (b2, entryEvent OrderCancelled (entryOf (sSide ?s) (pool b) i) # bboChange a (dropEntry i a))"
      using 3 im bbo_rep [OF r] a BestBid_rep [OF sd(1,3,5)] BestAsk_rep [OF sd(2,4,6)]
        appendBBO_rep [OF b2(1), of "[entryEvent OrderCancelled (entryOf (sSide ?s) (pool b) i)]" a] b2(2)
        cancelledEvent_entry [of i "pool b" "sSide ?s"] p2
      by (auto simp: Cancel_def setSlot_def killP_def [symmetric] b2_def split: if_splits)
    moreover have "aCancel a i = (dropEntry i a, entryEvent OrderCancelled (entryOf (sSide ?s) (pool b) i) # bboChange a (dropEntry i a))"
      using 3 top findEntry_active [OF r 3(3)] a by (simp add: aCancel_def Let_def)
    moreover have "rep b2 (dropEntry i a)"
      unfolding rep_def using b2 by metis
    ultimately show ?thesis
      using assms(2) by auto
  qed
qed

end
