(* ===== verification/BookRestore.thy ===== *)
theory BookRestore
  imports BookRefine
begin

text \<open>
  \<open>Snapshot\<close> and \<open>Restore\<close>: a well-formed abstract book, exported as a \<open>BookState\<close> and
  imported into an emptied engine, is represented again, with the same identifiers
  and the same queue order. Every represented book is well formed.
\<close>

definition awf :: "abook \<Rightarrow> bool" where
  "awf a \<longleftrightarrow>
     sorted_wrt (\<lambda>e e'. enPrice e' \<le> enPrice e) (aBids a) \<and>
     sorted_wrt (\<lambda>e e'. enPrice e \<le> enPrice e') (aAsks a) \<and>
     distinct (map enID (aBids a @ aAsks a)) \<and>
     (\<forall>e\<in>set (aBids a). enSide e = Buy) \<and> (\<forall>e\<in>set (aAsks a). enSide e = Sell) \<and>
     (\<forall>e\<in>set (aBids a @ aAsks a). enID e \<noteq> none \<and> enID e < aTop a \<and> enPrice e \<noteq> 0 \<and> 0 < enSize e) \<and>
     1 \<le> aTop a \<and> aTop a \<le> MaxOrders"

section \<open>Every represented book is well formed\<close>

lemma flat_ids: "map enID (flat sd p L qs) = concat (map (\<lambda>q. live p (L q)) qs)"
  by (induction qs) (simp_all add: comp_def)

lemma flat_distinct:
  assumes rep: "side_rep sd p lv L"
  shows "distinct qs \<Longrightarrow> set qs \<subseteq> {..<MaxPrice} \<Longrightarrow> distinct (map enID (flat sd p L qs))"
proof (induction qs)
  case (Cons q qs)
  have "distinct (live p (L q))"
    using chain_distinct [OF level_rep_chain [OF side_rep_level [OF rep, of q]]] Cons.prems by (simp add: live_def)
  moreover have "i \<notin> set (L q')" if "i \<in> set (L q)" "q' \<in> set qs" for i q'
    using side_rep_same_level [OF rep, of q q' i] that Cons.prems by auto
  ultimately show ?case
    using Cons unfolding flat_ids by (auto simp: set_live)
qed simp

lemma flat_facts:
  assumes r: "book_rep b B A {}" and e: "e \<in> set (flat Buy (pool b) B bidFull) \<union> set (flat Sell (pool b) A askFull)"
  shows "enID e \<noteq> none" and "enID e < poolTop b" and "enPrice e \<noteq> 0" and "0 < enSize e"
    and "enSide e = sSide (pool b (enID e))"
proof -
  note sd = book_rep_sides [OF r] and f = book_rep_facts [OF r]
  from e have "0 < unat (enPrice e)"
    using flat_price_pos(1) [OF sd(1), of bidFull e] flat_price_pos(1) [OF sd(2), of askFull e] by auto
  then show "enPrice e \<noteq> 0" by auto
  from e obtain q i where qi: "q < MaxPrice" "sActive (pool b i)"
      "i \<in> set (B q) \<and> e = entryOf Buy (pool b) i \<or> i \<in> set (A q) \<and> e = entryOf Sell (pool b) i"
    by (auto simp: flat_mem)
  have "enID e = i" "i \<noteq> none" "enSide e = sSide (pool b i)" "enSize e = sSize (pool b i)" "i < poolTop b"
    using qi(3) side_rep_ids [OF sd(1) qi(1), of i] side_rep_ids [OF sd(2) qi(1), of i] f(4) [OF qi(1), of i] by auto
  then show "enID e \<noteq> none" "enID e < poolTop b" "0 < enSize e" "enSide e = sSide (pool b (enID e))"
    using qi(2) f(2) [of i] by simp_all
qed

lemma rep_awf:
  assumes "rep b a"
  shows "awf a"
proof -
  from assms obtain B A where r: "book_rep b B A {}" and a: "a = absOf b B A"
    by (auto simp: rep_def)
  note sd = book_rep_sides [OF r] and f = book_rep_facts [OF r] and ff = flat_facts [OF r]
  have side: "enSide e = s" if "e \<in> set (flat s p L qs)" for e s p L qs
    using that by (auto simp: flat_mem)
  have "distinct (map enID (aBids a @ aAsks a))"
  proof -
    have "enID e \<noteq> enID e'" if "e \<in> set (aBids a)" "e' \<in> set (aAsks a)" for e e'
      using that ff(5) [of e] ff(5) [of e'] side [of e Buy] side [of e' Sell] a by force
    then show ?thesis
      using flat_distinct [OF sd(1), of bidFull] flat_distinct [OF sd(2), of askFull] a by (auto simp: image_iff)
  qed
  moreover have "\<forall>e\<in>set (aBids a). enSide e = Buy" "\<forall>e\<in>set (aAsks a). enSide e = Sell"
    using side a by auto
  moreover have "\<forall>e\<in>set (aBids a @ aAsks a). enID e \<noteq> none \<and> enID e < aTop a \<and> enPrice e \<noteq> 0 \<and> 0 < enSize e"
    using ff(1-4) a by auto
  ultimately show ?thesis
    unfolding awf_def using bids_sorted [OF sd(1)] asks_sorted [OF sd(2)] f(5,6) a by simp
qed

section \<open>Sorting by buckets\<close>

lemma bucket_concat:
  fixes f :: "'a \<Rightarrow> nat"
  assumes "\<And>x. \<not> P x x"
  shows "sorted_wrt P qs \<Longrightarrow> sorted_wrt (\<lambda>e e'. \<not> P (f e') (f e)) es \<Longrightarrow> f ` set es \<subseteq> set qs \<Longrightarrow>
    concat (map (\<lambda>q. filter (\<lambda>e. f e = q) es) qs) = es"
proof (induction qs arbitrary: es)
  case (Cons q qs)
  let ?hi = "filter (\<lambda>e. f e = q) es" and ?lo = "filter (\<lambda>e. f e \<noteq> q) es"
  have "es = ?hi @ ?lo"
    using Cons.prems(2,3)
  proof (induction es)
    case (Cons e es)
    show ?case
    proof (cases "f e = q")
      case False
      with Cons.prems \<open>sorted_wrt P (q # qs)\<close> have "P q (f e)" by auto
      with Cons.prems have "filter (\<lambda>e. f e = q) es = []" by (auto simp: filter_empty_conv)
      with False show ?thesis by (simp add: filter_id_conv filter_empty_conv)
    qed (use Cons in auto)
  qed simp
  moreover have "concat (map (\<lambda>q. filter (\<lambda>e. f e = q) ?lo) qs) = ?lo"
    using Cons.prems by (intro Cons.IH) (auto intro: sorted_wrt_filter)
  moreover have "filter (\<lambda>e. f e = q') ?lo = filter (\<lambda>e. f e = q') es" if "q' \<in> set qs" for q'
  proof -
    have "q' \<noteq> q" using that Cons.prems(1) assms by auto
    then show ?thesis by (auto intro: filter_cong)
  qed
  ultimately show ?case
    by (simp cong: map_cong)
qed simp

section \<open>Restore\<close>

definition idsAt :: "Side \<Rightarrow> OrderEntry list \<Rightarrow> nat \<Rightarrow> OrderID list" where
  "idsAt sd es q = map enID (filter (\<lambda>e. enSide e = sd \<and> unat (enPrice e) = q) es)"

lemma idsAt_snoc:
  "idsAt sd (es @ [e]) = (if enSide e = sd then (idsAt sd es)(unat (enPrice e) := idsAt sd es (unat (enPrice e)) @ [enID e])
     else idsAt sd es)"
  by (auto simp: idsAt_def fun_eq_iff)

text \<open>The book after the entries \<open>es\<close> have been imported.\<close>

definition imported :: "OrderBook \<Rightarrow> OrderEntry list \<Rightarrow> bool" where
  "imported b es \<longleftrightarrow>
     side_rep Buy (pool b) (buys b) (idsAt Buy es) \<and> side_rep Sell (pool b) (sells b) (idsAt Sell es) \<and>
     (\<forall>e\<in>set es. sActive (pool b (enID e)) \<and> entryOf (enSide e) (pool b) (enID e) = e \<and>
        sSide (pool b (enID e)) = enSide e) \<and>
     (\<forall>i. i \<notin> enID ` set es \<longrightarrow> pool b i = zeroSlot)"

lemma imported_Nil: "imported OrderBook_reset []"
  by (simp add: imported_def OrderBook_reset_def side_rep_def idsAt_def level_rep_zero)

lemma imported_floating:
  assumes "imported b es" and "i \<notin> enID ` set es"
  shows "floating (idsAt sd es) i"
  using assms(2) by (auto simp: floating_def idsAt_def)

lemma imported_snoc:
  assumes imp: "imported b es" and new: "enID e \<notin> enID ` set es"
    and e: "enID e \<noteq> none" "enID e < MaxOrders" "enPrice e \<noteq> 0"
  shows "\<exists>b'. restoreEntry b e = Some b' \<and> imported b' (es @ [e])"
proof -
  define i s where "i = enID e" and "s = \<lparr>sTrader = enTrader e, sSize = enSize e, sNext = none, sPrice = enPrice e,
      sSide = enSide e, sActive = True, sQtyFilled = enQtyFilled e, sFills = copyFills (enFills e)\<rparr>"
  define p where "p = (pool b)(i := s)"
  note fl = imported_floating [OF imp new, folded i_def]
  have q: "0 < unat (enPrice e)" "unat (enPrice e) < MaxPrice"
    using e(3) unat_price_less by (simp_all add: unat_gt_0)
  have sides: "side_rep Buy p (buys b) (idsAt Buy es)" "side_rep Sell p (sells b) (idsAt Sell es)"
    using imp fl unfolding p_def by (auto simp: imported_def floating_def intro: side_rep_upd_notin)
  have slot: "sSide (p i) = enSide e" "unat (sPrice (p i)) = unat (enPrice e)" by (simp_all add: p_def s_def)
  have ent: "entryOf (enSide e) p i = e" by (simp add: p_def s_def entryOf_def i_def)
  have old: "sActive (p' (enID x)) \<and> entryOf (enSide x) p' (enID x) = x \<and> sSide (p' (enID x)) = enSide x"
    if "x \<in> set (es @ [e])" "\<And>j. p' j = (p j)\<lparr>sNext := sNext (p' j)\<rparr>" for p' x
  proof -
    have "sActive (p (enID x)) \<and> entryOf (enSide x) p (enID x) = x \<and> sSide (p (enID x)) = enSide x"
    proof (cases "x \<in> set es")
      case True
      then have "enID x \<noteq> i" using new by (metis i_def imageI)
      with True imp show ?thesis by (simp add: imported_def p_def)
    next
      case False
      with that(1) have "x = e" by simp
      then show ?thesis using ent by (simp add: p_def s_def i_def)
    qed
    then show ?thesis
      using next_static [of p' p, OF that(2)] by simp
  qed
  have res: "restoreEntry b e = (if enSide e = Buy
      then do { (p', l) \<leftarrow> enqueue p (buys b (unat (enPrice e))) i;
                Some (setBuys (b\<lparr>pool := p'\<rparr>) (unat (enPrice e)) l) }
      else do { (p', l) \<leftarrow> enqueue p (sells b (unat (enPrice e))) i;
                Some (setSells (b\<lparr>pool := p'\<rparr>) (unat (enPrice e)) l) })"
    using e(1,3) not_le [THEN iffD2, OF e(2)] by (simp add: restoreEntry_def p_def s_def i_def setSlot_def Let_def)
  have im: "i \<noteq> none" "i < MaxOrders" using e by (simp_all add: i_def)
  have ids: "j \<in> enID ` set es" if "j \<in> set (idsAt sd es q)" for j sd q
    using that by (auto simp: idsAt_def)
  show ?thesis
  proof (cases "enSide e")
    case Buy
    then have snoc: "idsAt Buy (es @ [e]) = (idsAt Buy es)(unat (enPrice e) := idsAt Buy es (unat (enPrice e)) @ [i])"
      by (simp add: idsAt_snoc i_def)
    from enqueue_side [OF sides(1) fl slot(1) [unfolded Buy] slot(2) im q] obtain p' l where
        n: "enqueue p (buys b (unat (enPrice e))) i = Some (p', l)"
        "side_rep Buy p' ((buys b)(unat (enPrice e) := l)) (idsAt Buy (es @ [e]))"
        "\<And>j. p' j = (p j)\<lparr>sNext := sNext (p' j)\<rparr>"
        "\<And>j. j \<noteq> i \<Longrightarrow> j \<notin> set (idsAt Buy es (unat (enPrice e))) \<Longrightarrow> p' j = p j"
      unfolding snoc by blast
    have "p' j = p j" if "qa < MaxPrice" "j \<in> set (idsAt Sell es qa)" for qa j
      using that fl n(4) sides_disjoint [OF sides q(2) that(1)] by (metis floating_def)
    then have "side_rep Sell p' (sells b) (idsAt Sell (es @ [e]))"
      using side_rep_same [OF sides(2)] Buy by (simp add: idsAt_snoc)
    moreover have "p' j = zeroSlot" if "j \<notin> enID ` set (es @ [e])" for j
      using that n(4) [of j] imp ids by (auto simp: imported_def p_def i_def)
    ultimately have "imported (setBuys (b\<lparr>pool := p'\<rparr>) (unat (enPrice e)) l) (es @ [e])"
      unfolding imported_def using n(2) old [OF _ n(3)] by simp
    then show ?thesis using res n(1) Buy by simp
  next
    case Sell
    then have snoc: "idsAt Sell (es @ [e]) = (idsAt Sell es)(unat (enPrice e) := idsAt Sell es (unat (enPrice e)) @ [i])"
      by (simp add: idsAt_snoc i_def)
    from enqueue_side [OF sides(2) fl slot(1) [unfolded Sell] slot(2) im q] obtain p' l where
        n: "enqueue p (sells b (unat (enPrice e))) i = Some (p', l)"
        "side_rep Sell p' ((sells b)(unat (enPrice e) := l)) (idsAt Sell (es @ [e]))"
        "\<And>j. p' j = (p j)\<lparr>sNext := sNext (p' j)\<rparr>"
        "\<And>j. j \<noteq> i \<Longrightarrow> j \<notin> set (idsAt Sell es (unat (enPrice e))) \<Longrightarrow> p' j = p j"
      unfolding snoc by blast
    have "p' j = p j" if "qa < MaxPrice" "j \<in> set (idsAt Buy es qa)" for qa j
      using that fl n(4) sides_disjoint [OF sides that(1) q(2) that(2)] by (metis floating_def)
    then have "side_rep Buy p' (buys b) (idsAt Buy (es @ [e]))"
      using side_rep_same [OF sides(1)] Sell by (simp add: idsAt_snoc)
    moreover have "p' j = zeroSlot" if "j \<notin> enID ` set (es @ [e])" for j
      using that n(4) [of j] imp ids by (auto simp: imported_def p_def i_def)
    ultimately have "imported (setSells (b\<lparr>pool := p'\<rparr>) (unat (enPrice e)) l) (es @ [e])"
      unfolding imported_def using n(2) old [OF _ n(3)] by simp
    then show ?thesis using res n(1) Sell by simp
  qed
qed

lemma imported_all:
  assumes "imported b es" and "distinct (map enID (es @ es'))"
    and "\<And>e. e \<in> set es' \<Longrightarrow> enID e \<noteq> none \<and> enID e < MaxOrders \<and> enPrice e \<noteq> 0"
  shows "\<exists>b'. restoreEntries b es' = Some b' \<and> imported b' (es @ es')"
  using assms
proof (induction es' arbitrary: b es)
  case (Cons e es')
  then obtain b1 where "restoreEntry b e = Some b1" "imported b1 (es @ [e])"
    using imported_snoc [of b es e] by auto
  with Cons.IH [of b1 "es @ [e]"] Cons.prems show ?case by auto
qed auto

lemma imported_flat:
  assumes imp: "imported b es" and sd: "\<And>e. e \<in> set fs \<Longrightarrow> enSide e = sd"
    and fs: "filter (\<lambda>e. enSide e = sd) es = fs"
    and b: "concat (map (\<lambda>q. filter (\<lambda>e. unat (enPrice e) = q) fs) qs) = fs"
  shows "flat sd (pool b) (idsAt sd es) qs = fs"
proof -
  have "map (entryOf sd (pool b)) (live (pool b) (idsAt sd es q)) = filter (\<lambda>e. unat (enPrice e) = q) fs" for q
  proof -
    let ?F = "filter (\<lambda>e. enSide e = sd \<and> unat (enPrice e) = q) es"
    have "\<forall>e\<in>set ?F. sActive (pool b (enID e)) \<and> entryOf sd (pool b) (enID e) = e"
      using imp by (auto simp: imported_def)
    then have "map (entryOf sd (pool b)) (live (pool b) (map enID F)) = F" if "F = ?F" for F
      using that [symmetric] by (simp only: that [symmetric]) (induction F, simp_all)
    then have "map (entryOf sd (pool b)) (live (pool b) (map enID ?F)) = ?F"
      by blast
    also have "?F = filter (\<lambda>e. unat (enPrice e) = q) fs"
      unfolding fs [symmetric] by (simp add: conj_commute)
    finally show ?thesis by (simp add: idsAt_def)
  qed
  with b show ?thesis by (simp add: flat_def)
qed

lemma awf_buckets:
  assumes "awf a"
  shows "concat (map (\<lambda>q. filter (\<lambda>e. unat (enPrice e) = q) (aBids a)) bidFull) = aBids a"
    and "concat (map (\<lambda>q. filter (\<lambda>e. unat (enPrice e) = q) (aAsks a)) askFull) = aAsks a"
proof -
  have pr: "(\<lambda>e. unat (enPrice e)) ` set (aBids a @ aAsks a) \<subseteq> {0<..<MaxPrice}"
    using assms unat_price_less by (auto simp: awf_def unat_gt_0)
  show "concat (map (\<lambda>q. filter (\<lambda>e. unat (enPrice e) = q) (aBids a)) bidFull) = aBids a"
    using assms pr by (intro bucket_concat [where P = "\<lambda>x y. y < x"])
      (auto simp: awf_def bidFull_def sorted_wrt_rev word_le_nat_alt not_less)
  show "concat (map (\<lambda>q. filter (\<lambda>e. unat (enPrice e) = q) (aAsks a)) askFull) = aAsks a"
    using assms pr by (intro bucket_concat [where P = "\<lambda>x y. x < y"])
      (auto simp: awf_def askFull_def word_le_nat_alt not_less)
qed

lemma imported_book:
  assumes imp: "imported b es" and es: "es = aBids a @ aAsks a" and wf: "awf a"
    and b': "b' = b\<lparr>bidMax := ucast (bestPrice (aBids a)),
      askMin := (if bestPrice (aAsks a) = 0 then of_nat MaxPrice else ucast (bestPrice (aAsks a))), poolTop := aTop a\<rparr>"
  shows "rep b' a"
proof -
  let ?B = "idsAt Buy es" and ?A = "idsAt Sell es"
  have sd: "side_rep Buy (pool b) (buys b) ?B" "side_rep Sell (pool b) (sells b) ?A"
    using imp by (simp_all add: imported_def)
  have "filter (\<lambda>e. enSide e = Buy) es = aBids a" "filter (\<lambda>e. enSide e = Sell) es = aAsks a"
    using wf unfolding es by (auto simp: awf_def filter_id_conv filter_empty_conv)
  then have F: "flat Buy (pool b) ?B bidFull = aBids a" "flat Sell (pool b) ?A askFull = aAsks a"
    using imported_flat [OF imp _ _ awf_buckets(1) [OF wf], of Buy]
      imported_flat [OF imp _ _ awf_buckets(2) [OF wf], of Sell] wf by (auto simp: awf_def)
  define b0 where "b0 = b\<lparr>bidMax := of_nat (MaxPrice - 1), askMin := 0, poolTop := aTop a\<rparr>"
  have bid0: "unat (bidMax b0) = MaxPrice - 1" "unat (askMin b0) = 0"
    by (simp_all add: b0_def MaxPrice_def)
  have "book_rep b0 ?B ?A {}"
  proof (rule book_repI)
    fix j assume act: "sActive (pool b0 j)"
    then have "j \<in> enID ` set es"
      using imp by (auto simp: imported_def b0_def zeroSlot_def)
    then obtain e where e: "e \<in> set es" "j = enID e" by auto
    with imp have j: "entryOf (enSide e) (pool b) j = e" "sSide (pool b j) = enSide e" by (auto simp: imported_def)
    have "sPrice (pool b j) = enPrice e" by (subst j(1) [symmetric]) simp
    with e j(2) show "j \<in> set ((case sSide (pool b0 j) of Buy \<Rightarrow> ?B | Sell \<Rightarrow> ?A) (unat (sPrice (pool b0 j))))"
      by (cases "enSide e") (auto simp: b0_def idsAt_def)
  next
    fix j
    show "sActive (pool b0 j) \<longleftrightarrow> 0 < sSize (pool b0 j)"
    proof (cases "j \<in> enID ` set es")
      case True
      then obtain e where e: "e \<in> set es" "j = enID e" by auto
      with imp have "sActive (pool b j)" "sSize (pool b j) = enSize e"
        by (auto simp: imported_def dest!: bspec arg_cong [of "entryOf _ _ _" _ enSize])
      with wf e es show ?thesis by (auto simp: awf_def b0_def)
    next
      case False
      with imp show ?thesis by (simp add: imported_def b0_def zeroSlot_def)
    qed
  next
    show "bids.swept b0 ?B"
      unfolding bids.swept_def
    proof (intro allI impI)
      fix q assume "q < MaxPrice" "q \<notin> set (bidScan b0)"
      then have "q = 0" using bid0(1) by (auto simp: bidScan_def)
      with sd(1) show "live (pool b0) (?B q) = []" by (simp add: side_rep_def)
    qed
    show "asks.swept b0 ?A"
      using bid0 by (auto simp: asks.swept_def askScan_def)
    show "j < poolTop b0" if "q < MaxPrice" "j \<in> set (?B q) \<union> set (?A q)" for q j
      using that wf unfolding es by (auto simp: b0_def awf_def idsAt_def)
    show "bidValid b0" "askValid b0" using bid0 MaxPrice_pos by (auto simp: bidValid_def askValid_def)
  qed (use sd wf in \<open>auto simp: b0_def awf_def\<close>)
  note b1 = bidMax_best_rep [OF this]
  define b1 where "b1 = b0\<lparr>bidMax := ucast (bestPrice (flat Buy (pool b0) ?B bidFull))\<rparr>"
  note b1 = b1 [folded b1_def]
  have F1: "flat Sell (pool b1) ?A askFull = aAsks a" using F by (simp add: b1_def b0_def)
  have "b' = b1\<lparr>askMin := if bestPrice (aAsks a) = 0 then of_nat MaxPrice else ucast (bestPrice (aAsks a))\<rparr>"
    using F by (simp add: b' b1_def b0_def)
  then have "book_rep b' ?B ?A {}" "absOf b' ?B ?A = absOf b1 ?B ?A"
    using askMin_best_rep [OF b1(1)] by (simp_all only: F1)
  moreover have "absOf b1 ?B ?A = a" using F by (simp add: absOf_def b1_def b0_def)
  ultimately show ?thesis
    unfolding rep_def by metis
qed

lemma Restore_rep:
  assumes wf: "awf a"
  shows "\<exists>b. Restore (aState a) = Some b \<and> rep b a"
proof -
  have "\<exists>b. restoreEntries OrderBook_reset (aBids a @ aAsks a) = Some b \<and> imported b (aBids a @ aAsks a)"
  proof -
    have "enID e \<noteq> none \<and> enID e < MaxOrders \<and> enPrice e \<noteq> 0" if "e \<in> set (aBids a @ aAsks a)" for e
      using wf that unfolding awf_def by (metis less_le_trans)
    moreover have "distinct (map enID ([] @ aBids a @ aAsks a))" using wf by (simp add: awf_def)
    ultimately show ?thesis
      using imported_all [OF imported_Nil, of "aBids a @ aAsks a"] by simp
  qed
  then obtain b where b: "restoreEntries OrderBook_reset (aBids a @ aAsks a) = Some b" "imported b (aBids a @ aAsks a)"
    by blast
  have top: "aTop a \<noteq> 0" using wf by (auto simp: awf_def)
  show ?thesis
    using b(1) imported_book [OF b(2) refl wf refl] top
    by (cases "bestPrice (aAsks a) = 0") (simp_all add: Restore_def aState_def)
qed

lemma New_rep: "rep OrderBook_New aNew"
proof -
  have "awf aNew" by (simp add: awf_def aNew_def MaxOrders_def)
  moreover have "OrderBook_New = OrderBook_reset\<lparr>bidMax := ucast (bestPrice (aBids aNew)),
      askMin := (if bestPrice (aAsks aNew) = 0 then of_nat MaxPrice else ucast (bestPrice (aAsks aNew))), poolTop := aTop aNew\<rparr>"
    by (simp add: OrderBook_New_def OrderBook_reset_def aNew_def)
  ultimately show ?thesis
    using imported_book [OF imported_Nil, of aNew] by (simp add: aNew_def)
qed

end
