(* ===== verification/BookLaws.thy ===== *)
theory BookLaws
  imports BookRestore
begin

text \<open>
  What the abstract book guarantees: price-time priority of a sweep, conservation
  of quantity, fills within the limit and at the resting price, a book that is
  never crossed, and entries whose recorded fills add up.
\<close>

section \<open>Quantities\<close>

definition qty :: "OrderEntry list \<Rightarrow> nat" where
  "qty es = sum_list (map (\<lambda>e. unat (enSize e)) es)"

lemma qty_simps [simp]: "qty [] = 0" "qty (e # es) = unat (enSize e) + qty es" "qty (es @ fs) = qty es + qty fs"
  by (simp_all add: qty_def)

lemma unat_min32: "unat (min32 x y) = min (unat x) (unat y)"
  by (simp add: min32_def word_less_nat_alt)

lemma unat_tradeQty: "unat (tradeQty a r) = min (unat (enSize a)) (unat (enSize r))"
  by (simp add: tradeQty_def unat_min32)

lemma unat_trade:
  "unat (enSize (tradeAgg a r)) = unat (enSize a) - unat (enSize r)"
  "unat (enSize (tradeRest a r)) = unat (enSize r) - unat (enSize a)"
  by (simp_all add: unat_sub word_le_nat_alt unat_tradeQty)

text \<open>What an entry remembers: filled and open quantity add up to what was ordered, and the
  legs add up to the filled quantity, without wrap-around.\<close>

definition entryOk :: "OrderEntry \<Rightarrow> bool" where
  "entryOk e \<longleftrightarrow> unat (enSize e) + unat (enQtyFilled e) < 2 ^ 32 \<and>
     sum_list (map (\<lambda>m. unat (mQty m)) (enFills e)) = unat (enQtyFilled e)"

lemma entryOk_fill:
  assumes "entryOk e" and "mQty m \<le> enSize e"
  shows "entryOk (fillEntry e m)"
    and "unat (enSize (fillEntry e m)) + unat (enQtyFilled (fillEntry e m)) = unat (enSize e) + unat (enQtyFilled e)"
proof -
  have m: "unat (mQty m) \<le> unat (enSize e)" using assms(2) by (simp add: word_le_nat_alt)
  have s: "unat (enSize e - mQty m) = unat (enSize e) - unat (mQty m)"
    using assms(2) by (rule unat_sub)
  have "unat (enQtyFilled e) + unat (mQty m) < 2 ^ LENGTH(32)"
    using assms(1) m by (simp add: entryOk_def)
  then have f: "unat (enQtyFilled e + mQty m) = unat (enQtyFilled e) + unat (mQty m)"
    by (rule unat_add_lem [THEN iffD1])
  show "entryOk (fillEntry e m)"
    using assms(1) m by (simp add: entryOk_def s f)
  show "unat (enSize (fillEntry e m)) + unat (enQtyFilled (fillEntry e m)) = unat (enSize e) + unat (enQtyFilled e)"
    using m by (simp add: s f)
qed

lemma tradeQty_le: "tradeQty a r \<le> enSize a" "tradeQty a r \<le> enSize r"
  by (simp_all add: word_le_nat_alt unat_tradeQty)

lemma entryOk_trade:
  "entryOk a \<Longrightarrow> entryOk (tradeAgg a r)" "entryOk r \<Longrightarrow> entryOk (tradeRest a r)"
  unfolding tradeAgg_def tradeRest_def
  by (rule entryOk_fill(1); simp add: legOf_def tradeQty_le)+

section \<open>Price-time priority\<close>

definition wholeLeg :: "OrderEntry \<Rightarrow> Match" where
  "wholeLeg r = legOf r (enPrice r) (enSize r)"

text \<open>A sweep consumes the first \<open>n\<close> resting orders completely, in order, and at most one more
  in part; it stops because the aggressor is filled or the next price does not cross.\<close>

definition sweptPrefix :: "(Price \<Rightarrow> bool) \<Rightarrow> OrderEntry \<Rightarrow> OrderEntry list \<Rightarrow> OrderEntry \<Rightarrow> OrderEntry list \<Rightarrow> nat \<Rightarrow> bool" where
  "sweptPrefix ok a rs a' rs' n \<longleftrightarrow>
     n \<le> length rs \<and> (\<forall>r\<in>set (take n rs). ok (enPrice r)) \<and>
     (rs' = drop n rs \<and> unat (enSize a) = unat (enSize a') + qty (take n rs) \<and>
        enFills a' = enFills a @ map wholeLeg (take n rs) \<and>
        (enSize a' \<noteq> 0 \<longrightarrow> n < length rs \<longrightarrow> \<not> ok (enPrice (rs ! n))) \<or>
      n < length rs \<and> ok (enPrice (rs ! n)) \<and> enSize a' = 0 \<and>
        (\<exists>m r'. 0 < m \<and> m < enSize (rs ! n) \<and> rs' = r' # drop (Suc n) rs \<and> enID r' = enID (rs ! n) \<and>
           enPrice r' = enPrice (rs ! n) \<and> enSize r' = enSize (rs ! n) - m \<and>
           unat (enSize a) = qty (take n rs) + unat m \<and>
           enFills a' = enFills a @ map wholeLeg (take n rs) @ [legOf (rs ! n) (enPrice (rs ! n)) m]))"

lemma sweptPrefix_0: "sweptPrefix ok a rs a rs 0" if "enSize a = 0 \<or> rs = [] \<or> \<not> ok (enPrice (hd rs))"
  using that by (cases rs) (auto simp: sweptPrefix_def)

lemma sweptPrefix_Suc:
  assumes "sweptPrefix ok (tradeAgg a r) rs a' rs' n" and "ok (enPrice r)" and "enSize (tradeRest a r) = 0"
  shows "sweptPrefix ok a (r # rs) a' rs' (Suc n)"
proof -
  have le: "unat (enSize r) \<le> unat (enSize a)"
    using arg_cong [OF assms(3), of unat] unfolding unat_trade(2) by simp
  then have sz: "unat (enSize a) = unat (enSize (tradeAgg a r)) + unat (enSize r)"
    unfolding unat_trade(1) by simp
  have "tradeQty a r = enSize r" using le unat_tradeQty [of a r] by (metis min.absorb2 word_unat_eq_iff)
  then have leg: "enFills (tradeAgg a r) = enFills a @ [wholeLeg r]"
    by (simp add: tradeAgg_def wholeLeg_def)
  show ?thesis
    using assms(1,2) sz leg unfolding sweptPrefix_def by auto
qed

lemma sweep_prefix:
  "sweep ok a rs = (a', rs', es) \<Longrightarrow> \<exists>n. sweptPrefix ok a rs a' rs' n"
proof (induction ok a rs arbitrary: a' rs' es rule: sweep.induct)
  case (1 ok a)
  then show ?case using sweptPrefix_0 [of a "[]" ok] by auto
next
  case (2 ok a r rs)
  show ?case
  proof (cases "enSize a = 0 \<or> \<not> ok (enPrice r)")
    case True
    with 2(2) show ?thesis using sweptPrefix_0 [of a "r # rs" ok] by auto
  next
    case go: False
    show ?thesis
    proof (cases "enSize (tradeRest a r) = 0")
      case True
      obtain a2 r2 e2 where s: "sweep ok (tradeAgg a r) rs = (a2, r2, e2)" by (metis prod_cases3)
      with 2(2) go True have "a' = a2" "rs' = r2" by (auto simp: Let_def)
      moreover obtain n where "sweptPrefix ok (tradeAgg a r) rs a2 r2 n"
        using 2(1) [OF _ refl refl refl _ s] go True by auto
      ultimately show ?thesis
        using sweptPrefix_Suc [of ok a r] go True by blast
    next
      case False
      then have "a' = tradeAgg a r" "rs' = tradeRest a r # rs" using 2(2) go by (auto simp: Let_def)
      moreover have "unat (enSize (tradeRest a r)) \<noteq> 0" using False by (metis unat_eq_zero)
      then have lt: "unat (enSize a) < unat (enSize r)" unfolding unat_trade(2) by simp
      then have q: "tradeQty a r = enSize a" using unat_tradeQty [of a r] by (metis min.absorb3 word_unat_eq_iff)
      ultimately have "sweptPrefix ok a (r # rs) a' rs' 0"
        using go lt trade_exhausts [OF False] unfolding sweptPrefix_def
        by (auto simp: tradeAgg_def tradeRest_def legOf_def word_less_nat_alt unat_gt_0)
      then show ?thesis by blast
    qed
  qed
qed

section \<open>What a sweep keeps\<close>

text \<open>The part of an entry no trade changes.\<close>

definition entryKey :: "OrderEntry \<Rightarrow> OrderID \<times> string \<times> Price \<times> Side" where
  "entryKey e = (enID e, enTrader e, enPrice e, enSide e)"

lemma entryKey_trade [simp]: "entryKey (tradeAgg a r) = entryKey a" "entryKey (tradeRest a r) = entryKey r"
  by (simp_all add: entryKey_def)

lemma sweep_ind:
  assumes "sweep ok a rs = (a', rs', es)"
    and "\<And>a rs. enSize a = 0 \<or> rs = [] \<or> \<not> ok (enPrice (hd rs)) \<Longrightarrow> P a rs a rs"
    and "\<And>a r rs a' rs'. enSize a \<noteq> 0 \<Longrightarrow> ok (enPrice r) \<Longrightarrow> enSize (tradeRest a r) = 0 \<Longrightarrow>
      P (tradeAgg a r) rs a' rs' \<Longrightarrow> P a (r # rs) a' rs'"
    and "\<And>a r rs. enSize a \<noteq> 0 \<Longrightarrow> ok (enPrice r) \<Longrightarrow> enSize (tradeRest a r) \<noteq> 0 \<Longrightarrow>
      P a (r # rs) (tradeAgg a r) (tradeRest a r # rs)"
  shows "P a rs a' rs'"
  using assms(1)
proof (induction rs arbitrary: a a' rs' es)
  case Nil
  then show ?case using assms(2) by auto
next
  case (Cons r rs)
  show ?case
  proof (cases "enSize a = 0 \<or> \<not> ok (enPrice r)")
    case True
    with Cons.prems show ?thesis using assms(2) [of a "r # rs"] by auto
  next
    case go: False
    obtain a2 r2 e2 where s: "sweep ok (tradeAgg a r) rs = (a2, r2, e2)" by (metis prod_cases3)
    show ?thesis
      using Cons.prems go s Cons.IH [OF s] assms(3) [of a r rs a2 r2] assms(4) [of a r rs]
      by (cases "enSize (tradeRest a r) = 0") (auto simp: Let_def simp del: trade_simps)
  qed
qed

lemma sweep_qty:
  assumes "sweep ok a rs = (a', rs', es)"
  shows "unat (enSize a) + qty rs' = unat (enSize a') + qty rs"
  using assms
proof (rule sweep_ind)
  fix a r rs a' rs'
  assume z: "enSize (tradeRest a r) = 0" and IH: "unat (enSize (tradeAgg a r)) + qty rs' = unat (enSize a') + qty rs"
  have "unat (enSize r) \<le> unat (enSize a)"
    using arg_cong [OF z, of unat] unfolding unat_trade(2) by simp
  with IH show "unat (enSize a) + qty rs' = unat (enSize a') + qty (r # rs)"
    unfolding unat_trade by simp
next
  fix a r rs
  assume "enSize (tradeRest a r) \<noteq> 0"
  then have "unat (enSize (tradeRest a r)) \<noteq> 0" by (metis unat_eq_zero)
  then show "unat (enSize a) + qty (tradeRest a r # rs) = unat (enSize (tradeAgg a r)) + qty (r # rs)"
    unfolding unat_trade qty_simps by simp
qed simp

lemma sweep_keys:
  assumes "sweep ok a rs = (a', rs', es)"
  shows "entryKey a' = entryKey a \<and> (\<exists>n. map entryKey rs' = drop n (map entryKey rs))"
  using assms
proof (rule sweep_ind)
  show "entryKey a = entryKey a \<and> (\<exists>n. map entryKey rs = drop n (map entryKey rs))" for a rs
    by (metis drop0)
  show "entryKey a' = entryKey a \<and> (\<exists>n. map entryKey rs' = drop n (map entryKey (r # rs)))"
    if "entryKey a' = entryKey (tradeAgg a r) \<and> (\<exists>n. map entryKey rs' = drop n (map entryKey rs))" for a r rs a' rs'
    using that by (metis drop_Suc_Cons entryKey_trade(1) list.simps(9))
  show "entryKey (tradeAgg a r) = entryKey a \<and> (\<exists>n. map entryKey (tradeRest a r # rs) = drop n (map entryKey (r # rs)))" for a r rs
    by (intro conjI exI [of _ 0]) simp_all
qed

lemma sweep_entries:
  assumes "sweep ok a rs = (a', rs', es)"
  shows "(\<forall>r\<in>set rs. entryOk r \<and> 0 < enSize r) \<longrightarrow> (\<forall>r\<in>set rs'. entryOk r \<and> 0 < enSize r)"
    and "entryOk a \<longrightarrow> entryOk a'"
    and "unat (enSize a') + unat (enQtyFilled a') = unat (enSize a) + unat (enQtyFilled a) \<or> \<not> entryOk a"
proof -
  show "(\<forall>r\<in>set rs. entryOk r \<and> 0 < enSize r) \<longrightarrow> (\<forall>r\<in>set rs'. entryOk r \<and> 0 < enSize r)"
  proof (rule sweep_ind [OF assms])
    fix a r rs assume "enSize (tradeRest a r) \<noteq> 0"
    then have "0 < enSize (tradeRest a r)" by (metis word_neq_0_conv)
    then show "(\<forall>r\<in>set (r # rs). entryOk r \<and> 0 < enSize r) \<longrightarrow>
        (\<forall>r\<in>set (tradeRest a r # rs). entryOk r \<and> 0 < enSize r)"
      using entryOk_trade(2) by (metis set_ConsD list.set_intros)
  qed (metis list.set_intros(2))+
  show "entryOk a \<longrightarrow> entryOk a'"
    using assms by (rule sweep_ind) (auto simp: entryOk_trade)
  show "unat (enSize a') + unat (enQtyFilled a') = unat (enSize a) + unat (enQtyFilled a) \<or> \<not> entryOk a"
  proof (rule sweep_ind [OF assms])
    have tr: "unat (enSize (tradeAgg a r)) + unat (enQtyFilled (tradeAgg a r)) = unat (enSize a) + unat (enQtyFilled a)"
      if "entryOk a" for a r
      unfolding tradeAgg_def using that by (intro entryOk_fill(2)) (auto simp: legOf_def tradeQty_le)
    show "unat (enSize a') + unat (enQtyFilled a') = unat (enSize a) + unat (enQtyFilled a) \<or> \<not> entryOk a"
      if "unat (enSize a') + unat (enQtyFilled a') = unat (enSize (tradeAgg a r)) + unat (enQtyFilled (tradeAgg a r)) \<or>
        \<not> entryOk (tradeAgg a r)" for a r a'
      using that tr entryOk_trade(1) by metis
    show "unat (enSize (tradeAgg a r)) + unat (enQtyFilled (tradeAgg a r)) = unat (enSize a) + unat (enQtyFilled a) \<or>
      \<not> entryOk a" for a r
      using tr by blast
  qed simp
qed

lemma sweep_le:
  assumes "sweep ok a rs = (a', rs', es)"
  shows "unat (enSize a') \<le> unat (enSize a)"
  using assms
proof (rule sweep_ind)
  show "unat (enSize a') \<le> unat (enSize a)" if "unat (enSize a') \<le> unat (enSize (tradeAgg a r))" for a a' r
    using that unfolding unat_trade by simp
  show "unat (enSize (tradeAgg a r)) \<le> unat (enSize a)" for a r
    unfolding unat_trade by simp
qed simp

lemma sweep_stops:
  assumes "sweep ok a rs = (a', rs', es)"
  shows "enSize a' \<noteq> 0 \<longrightarrow> rs' = [] \<or> \<not> ok (enPrice (hd rs'))"
  using assms by (rule sweep_ind) (auto simp: trade_exhausts simp del: trade_simps)

section \<open>The invariant of the abstract book\<close>

definition uncrossed :: "abook \<Rightarrow> bool" where
  "uncrossed a \<longleftrightarrow> (\<forall>e\<in>set (aBids a). \<forall>f\<in>set (aAsks a). enPrice e < enPrice f)"

definition entriesOk :: "abook \<Rightarrow> bool" where
  "entriesOk a \<longleftrightarrow> (\<forall>e\<in>set (aBids a) \<union> set (aAsks a). entryOk e)"

definition aInv :: "abook \<Rightarrow> bool" where
  "aInv a \<longleftrightarrow> awf a \<and> uncrossed a \<and> entriesOk a"

lemma insert_sets [simp]:
  "set (insertBid e es) = insert e (set es)" "set (insertAsk e es) = insert e (set es)"
proof -
  have "set (takeWhile P es) \<union> set (dropWhile P es) = set es" for P
    by (metis set_append takeWhile_dropWhile_id)
  then show "set (insertBid e es) = insert e (set es)" "set (insertAsk e es) = insert e (set es)"
    by (simp_all add: insertBid_def insertAsk_def)
qed

lemma insert_qty [simp]: "qty (insertBid e es) = unat (enSize e) + qty es" "qty (insertAsk e es) = unat (enSize e) + qty es"
proof -
  have "qty (takeWhile P es) + qty (dropWhile P es) = qty es" for P
    by (metis qty_simps(3) takeWhile_dropWhile_id)
  then show "qty (insertBid e es) = unat (enSize e) + qty es" "qty (insertAsk e es) = unat (enSize e) + qty es"
    by (simp_all add: insertBid_def insertAsk_def)
qed

lemma newEntry_ok: "entryOk (newEntry a order)"
  using unsigned_less [of "oSize order", where ?'a = nat] by (simp add: entryOk_def newEntry_def)

lemma sweep_prices:
  assumes "sweep ok a rs = (a', rs', es)" and "sorted_wrt (\<lambda>e f. R (enPrice e) (enPrice f)) rs"
  shows "enPrice ` set rs' \<subseteq> enPrice ` set rs" and "sorted_wrt (\<lambda>e f. R (enPrice e) (enPrice f)) rs'"
    and "enPrice a' = enPrice a"
proof -
  from sweep_keys [OF assms(1)] obtain n where k: "entryKey a' = entryKey a" "map entryKey rs' = drop n (map entryKey rs)" by auto
  have "map enPrice rs' = map (\<lambda>(_, _, p, _). p) (map entryKey rs')" by (simp add: entryKey_def)
  also have "\<dots> = drop n (map enPrice rs)" unfolding k(2) by (simp add: entryKey_def drop_map o_def)
  finally have m: "map enPrice rs' = drop n (map enPrice rs)" .
  have "set (map enPrice rs') \<subseteq> set (map enPrice rs)" unfolding m by (rule set_drop_subset)
  then show "enPrice ` set rs' \<subseteq> enPrice ` set rs" by simp
  have "sorted_wrt R (map enPrice rs)" using assms(2) by (simp add: sorted_wrt_map)
  then have "sorted_wrt R (map enPrice rs')" unfolding m by (rule sorted_wrt_drop)
  then show "sorted_wrt (\<lambda>e f. R (enPrice e) (enPrice f)) rs'" by (simp add: sorted_wrt_map)
  show "enPrice a' = enPrice a" using k(1) by (simp add: entryKey_def)
qed

lemma sorted_hd:
  assumes "sorted_wrt (\<lambda>e f. R (enPrice e) (enPrice f)) rs" and "r \<in> set rs" and "\<And>x. R x x"
  shows "R (enPrice (hd rs)) (enPrice r)"
  using assms by (cases rs) auto

lemma aBuy_good:
  assumes "awf a" and "uncrossed a" and "entriesOk a" and "aBuy a order = (a', evs)"
  shows "uncrossed a' \<and> entriesOk a'"
proof -
  obtain e rs es where s: "sweep (buyOk (oPrice order)) (newEntry a order) (aAsks a) = (e, rs, es)"
    by (metis prod_cases3)
  have so: "sorted_wrt (\<lambda>e f. enPrice e \<le> enPrice f) (aAsks a)" using assms(1) by (simp add: awf_def)
  note p = sweep_prices [where R = "(\<le>)", OF s so]
  have pr: "enPrice e = oPrice order" using p(3) by (simp add: newEntry_def)
  have old: "enPrice x < enPrice f" if "x \<in> set (aBids a)" "f \<in> set rs" for x f
  proof -
    have "enPrice f \<in> enPrice ` set (aAsks a)" using that(2) p(1) by blast
    then show ?thesis using assms(2) that(1) by (auto simp: uncrossed_def)
  qed
  have new: "enPrice e < enPrice f" if "enSize e \<noteq> 0" "f \<in> set rs" for f
  proof -
    have "\<not> enPrice (hd rs) \<le> enPrice e" using sweep_stops [OF s] that pr by (auto simp: buyOk_def)
    moreover have "enPrice (hd rs) \<le> enPrice f" using sorted_hd [where R = "(\<le>)", OF p(2) that(2)] by simp
    ultimately show ?thesis by simp
  qed
  have "\<forall>r\<in>set (aAsks a). entryOk r \<and> 0 < enSize r"
    using assms(1,3) unfolding awf_def entriesOk_def by (metis UnCI set_append)
  then have "\<forall>r\<in>set rs. entryOk r"
    using sweep_entries(1) [OF s] by blast
  moreover have "entryOk e"
    using sweep_entries(2) [OF s] newEntry_ok by blast
  moreover have "a' = a\<lparr>aAsks := rs, aTop := aTop a + 1, aBids := if enSize e = 0 then aBids a else insertBid e (aBids a)\<rparr>"
    using assms(4) s by (auto simp: aBuy_def split: if_splits)
  ultimately show ?thesis
    using assms(3) old new unfolding uncrossed_def entriesOk_def by (cases "enSize e = 0") (simp_all add: ball_Un)
qed

lemma aSell_good:
  assumes "awf a" and "uncrossed a" and "entriesOk a" and "aSell a order = (a', evs)"
  shows "uncrossed a' \<and> entriesOk a'"
proof -
  obtain e rs es where s: "sweep (sellOk (oPrice order)) (newEntry a order) (aBids a) = (e, rs, es)"
    by (metis prod_cases3)
  have so: "sorted_wrt (\<lambda>e f. enPrice f \<le> enPrice e) (aBids a)" using assms(1) by (simp add: awf_def)
  note p = sweep_prices [where R = "\<lambda>x y. y \<le> x", OF s so]
  have pr: "enPrice e = oPrice order" using p(3) by (simp add: newEntry_def)
  have old: "enPrice f < enPrice x" if "x \<in> set (aAsks a)" "f \<in> set rs" for x f
  proof -
    have "enPrice f \<in> enPrice ` set (aBids a)" using that(2) p(1) by blast
    then show ?thesis using assms(2) that(1) by (auto simp: uncrossed_def)
  qed
  have new: "enPrice f < enPrice e" if "enSize e \<noteq> 0" "f \<in> set rs" for f
  proof -
    have "\<not> enPrice e \<le> enPrice (hd rs)" using sweep_stops [OF s] that pr by (auto simp: sellOk_def)
    moreover have "enPrice f \<le> enPrice (hd rs)" using sorted_hd [where R = "\<lambda>x y. y \<le> x", OF p(2) that(2)] by simp
    ultimately show ?thesis by simp
  qed
  have "\<forall>r\<in>set (aBids a). entryOk r \<and> 0 < enSize r"
    using assms(1,3) unfolding awf_def entriesOk_def by (metis UnCI set_append)
  then have "\<forall>r\<in>set rs. entryOk r"
    using sweep_entries(1) [OF s] by blast
  moreover have "entryOk e"
    using sweep_entries(2) [OF s] newEntry_ok by blast
  moreover have "a' = a\<lparr>aBids := rs, aTop := aTop a + 1, aAsks := if enSize e = 0 then aAsks a else insertAsk e (aAsks a)\<rparr>"
    using assms(4) s by (auto simp: aSell_def split: if_splits)
  ultimately show ?thesis
    using assms(3) old new unfolding uncrossed_def entriesOk_def by (cases "enSize e = 0") (simp_all add: ball_Un)
qed

lemma aLimit_good:
  assumes "awf a" and "uncrossed a" and "entriesOk a" and "aLimit a order = (a', i, evs)"
  shows "uncrossed a' \<and> entriesOk a'"
  using assms(2-4) aBuy_good [OF assms(1-3)] aSell_good [OF assms(1-3)]
  by (auto simp: aLimit_def split: if_splits prod.splits)

lemma aCancel_good:
  assumes "uncrossed a" and "entriesOk a" and "aCancel a i = (a', evs)"
  shows "uncrossed a' \<and> entriesOk a'"
  using assms by (auto simp: aCancel_def uncrossed_def entriesOk_def dropEntry_def Let_def
      split: if_splits option.splits)

lemma aInv_New: "aInv aNew"
  using rep_awf [OF New_rep] by (simp add: aInv_def uncrossed_def entriesOk_def aNew_def)

end
