(* ===== verification/BookEngine.thy ===== *)
theory BookEngine
  imports BookLaws
begin

text \<open>
  The matching engine as its clients see it: a command is a limit order or a
  cancel, and the engine answers with events. The locale \<open>engine\<close> is the interface
  the market service relies on (every command returns, two engines that represent
  the same abstract state cannot be told apart, and restoring a snapshot gives such
  an engine); it is interpreted on the order book, and the theorems on reachable
  books follow from the interpretation and from the laws of the abstract book.
\<close>

section \<open>Commands\<close>

datatype bookCmd = CmdLimit Order | CmdCancel OrderID

definition bookExec :: "OrderBook \<Rightarrow> bookCmd \<Rightarrow> (OrderBook \<times> Event list) option" where
  "bookExec b c = (case c of
     CmdLimit order \<Rightarrow> do { (b', i, evs) \<leftarrow> Limit b order; Some (b', evs) }
   | CmdCancel i \<Rightarrow> Cancel b i)"

definition specExec :: "abook \<Rightarrow> bookCmd \<Rightarrow> abook \<times> Event list" where
  "specExec a c = (case c of
     CmdLimit order \<Rightarrow> (let (a', i, evs) = aLimit a order in (a', evs))
   | CmdCancel i \<Rightarrow> aCancel a i)"

text \<open>The type \<open>[8]byte\<close> of a trader, on an order that is submitted.\<close>

definition cmdOk :: "bookCmd \<Rightarrow> bool" where
  "cmdOk c = (case c of CmdLimit order \<Rightarrow> length (oTrader order) = 8 | CmdCancel i \<Rightarrow> True)"

text \<open>A sequence of commands, by the engine and by its specification.\<close>

fun execs :: "('b \<Rightarrow> 'c \<Rightarrow> ('b \<times> 'e list) option) \<Rightarrow> 'b \<Rightarrow> 'c list \<Rightarrow> ('b \<times> 'e list) option" where
  "execs exec b [] = Some (b, [])"
| "execs exec b (c # cs) = do { (b', es) \<leftarrow> exec b c; (b'', es') \<leftarrow> execs exec b' cs; Some (b'', es @ es') }"

fun aexecs :: "('a \<Rightarrow> 'c \<Rightarrow> 'a \<times> 'e list) \<Rightarrow> 'a \<Rightarrow> 'c list \<Rightarrow> 'a \<times> 'e list" where
  "aexecs aexec a [] = (a, [])"
| "aexecs aexec a (c # cs) = (let (a', es) = aexec a c; (a'', es') = aexecs aexec a' cs in (a'', es @ es'))"

section \<open>The interface\<close>

locale engine =
  fixes new :: 'b and exec :: "'b \<Rightarrow> 'c \<Rightarrow> ('b \<times> 'e list) option"
    and snapshot :: "'b \<Rightarrow> 's option" and restore :: "'s \<Rightarrow> 'b option"
    and anew :: 'a and aexec :: "'a \<Rightarrow> 'c \<Rightarrow> 'a \<times> 'e list" and astate :: "'a \<Rightarrow> 's"
    and ok :: "'c \<Rightarrow> bool" and R :: "'b \<Rightarrow> 'a \<Rightarrow> bool"
  assumes new_R: "R new anew"
    and exec_R: "R b a \<Longrightarrow> ok c \<Longrightarrow> \<exists>b'. exec b c = Some (b', snd (aexec a c)) \<and> R b' (fst (aexec a c))"
    and snapshot_R: "R b a \<Longrightarrow> snapshot b = Some (astate a)"
    and restore_R: "R b a \<Longrightarrow> \<exists>b'. restore (astate a) = Some b' \<and> R b' a"
begin

lemma execs_R:
  "R b a \<Longrightarrow> (\<forall>c\<in>set cs. ok c) \<Longrightarrow>
   \<exists>b'. execs exec b cs = Some (b', snd (aexecs aexec a cs)) \<and> R b' (fst (aexecs aexec a cs))"
proof (induction cs arbitrary: b a)
  case (Cons c cs)
  then obtain b1 where b1: "exec b c = Some (b1, snd (aexec a c))" "R b1 (fst (aexec a c))"
    using exec_R by fastforce
  with Cons.IH [OF b1(2)] Cons.prems(2) show ?case
    by (fastforce simp: split_beta Let_def)
qed simp

lemma restored_R:
  assumes "R b a" and "snapshot b = Some st"
  shows "\<exists>b'. restore st = Some b' \<and> R b' a"
  using assms snapshot_R restore_R by fastforce

text \<open>An engine restored from a snapshot answers every later command sequence as the original.\<close>

lemma restored_same:
  assumes "R b a" and "snapshot b = Some st" and "\<forall>c\<in>set cs. ok c"
  shows "\<exists>b1 b2 b3 es. restore st = Some b1 \<and> execs exec b cs = Some (b2, es) \<and> execs exec b1 cs = Some (b3, es) \<and>
    snapshot b2 = snapshot b3"
proof -
  obtain b1 where b1: "restore st = Some b1" "R b1 a" using restored_R [OF assms(1,2)] by blast
  with execs_R [OF assms(1,3)] execs_R [OF b1(2) assms(3)] snapshot_R show ?thesis by fastforce
qed

end

section \<open>The order book provides it\<close>

definition tradersOk :: "abook \<Rightarrow> bool" where
  "tradersOk a \<longleftrightarrow> (\<forall>e\<in>set (aBids a @ aAsks a). length (enTrader e) = 8)"

definition bookInv :: "OrderBook \<Rightarrow> abook \<Rightarrow> bool" where
  "bookInv b a \<longleftrightarrow> rep b a \<and> aInv a \<and> tradersOk a"

lemma sweep_traders:
  assumes "sweep ok a rs = (a', rs', es)" and "\<forall>r\<in>set rs. length (enTrader r) = 8"
  shows "\<forall>r\<in>set rs'. length (enTrader r) = 8" and "enTrader a' = enTrader a"
proof -
  from sweep_keys [OF assms(1)] obtain n where k: "entryKey a' = entryKey a" "map entryKey rs' = drop n (map entryKey rs)" by auto
  have "enTrader ` set rs' = (\<lambda>(_, t, _, _). t) ` set (map entryKey rs')" by (auto simp: entryKey_def image_iff)
  also have "\<dots> \<subseteq> (\<lambda>(_, t, _, _). t) ` set (map entryKey rs)" unfolding k(2) by (intro image_mono set_drop_subset)
  also have "\<dots> = enTrader ` set rs" by (auto simp: entryKey_def image_iff)
  finally have "enTrader ` set rs' \<subseteq> enTrader ` set rs" .
  then have "\<forall>t\<in>enTrader ` set rs'. length t = 8" using assms(2) by (auto dest!: subsetD)
  then show "\<forall>r\<in>set rs'. length (enTrader r) = 8" by simp
  show "enTrader a' = enTrader a" using k(1) by (simp add: entryKey_def)
qed

lemma aLimit_traders:
  assumes "tradersOk a" and "length (oTrader order) = 8" and "aLimit a order = (a', i, evs)"
  shows "tradersOk a'"
proof -
  have new: "enTrader (newEntry a order) = oTrader order" by (simp add: newEntry_def)
  have "tradersOk (fst (aBuy a order))"
    using assms(1,2) sweep_traders [of "buyOk (oPrice order)" "newEntry a order" "aAsks a"] new
    by (auto simp: aBuy_def tradersOk_def split: prod.split)
  moreover have "tradersOk (fst (aSell a order))"
    using assms(1,2) sweep_traders [of "sellOk (oPrice order)" "newEntry a order" "aBids a"] new
    by (auto simp: aSell_def tradersOk_def split: prod.split)
  ultimately show ?thesis
    using assms(1,3) by (auto simp: aLimit_def split: if_splits prod.splits)
qed

lemma aCancel_traders: "tradersOk a \<Longrightarrow> aCancel a i = (a', evs) \<Longrightarrow> tradersOk a'"
  by (auto simp: aCancel_def tradersOk_def dropEntry_def Let_def split: if_splits option.splits)

lemma bookExec_inv:
  assumes inv: "bookInv b a" and ok: "cmdOk c"
  shows "\<exists>b'. bookExec b c = Some (b', snd (specExec a c)) \<and> bookInv b' (fst (specExec a c))"
proof (cases c)
  case (CmdLimit order)
  obtain a' i evs where l: "aLimit a order = (a', i, evs)" by (metis prod_cases3)
  from inv have r: "rep b a" "awf a" "uncrossed a" "entriesOk a" "tradersOk a"
    by (auto simp: bookInv_def aInv_def)
  from Limit_rep [OF r(1) l] obtain b' where b': "Limit b order = Some (b', i, evs)" "rep b' a'" by blast
  have "bookInv b' a'"
    using b'(2) rep_awf [OF b'(2)] aLimit_good [OF r(2-4) l] aLimit_traders [OF r(5) _ l] ok CmdLimit
    by (simp add: bookInv_def aInv_def cmdOk_def)
  with b'(1) l CmdLimit show ?thesis by (simp add: bookExec_def specExec_def)
next
  case (CmdCancel i)
  obtain a' evs where l: "aCancel a i = (a', evs)" by (metis surj_pair)
  from inv have r: "rep b a" "uncrossed a" "entriesOk a" "tradersOk a"
    by (auto simp: bookInv_def aInv_def)
  from Cancel_rep [OF r(1) l] obtain b' where b': "Cancel b i = Some (b', evs)" "rep b' a'" by blast
  have "bookInv b' a'"
    using b'(2) rep_awf [OF b'(2)] aCancel_good [OF r(2,3) l] aCancel_traders [OF r(4) l]
    by (simp add: bookInv_def aInv_def)
  with b'(1) l CmdCancel show ?thesis by (simp add: bookExec_def specExec_def)
qed

interpretation book: engine OrderBook_New bookExec Snapshot Restore aNew specExec aState cmdOk bookInv
proof
  show "bookInv OrderBook_New aNew"
    using New_rep aInv_New by (simp add: bookInv_def tradersOk_def aNew_def)
  show "Snapshot b = Some (aState a)" if "bookInv b a" for b a
    using that Snapshot_rep by (simp add: bookInv_def)
  show "\<exists>b'. Restore (aState a) = Some b' \<and> bookInv b' a" if "bookInv b a" for b a
    using that Restore_rep rep_awf by (auto simp: bookInv_def)
qed (rule bookExec_inv)

section \<open>Reachable books\<close>

inductive reachable :: "OrderBook \<Rightarrow> bool" where
  reach_new: "reachable OrderBook_New"
| reach_limit: "reachable b \<Longrightarrow> length (oTrader order) = 8 \<Longrightarrow> Limit b order = Some (b', i, evs) \<Longrightarrow> reachable b'"
| reach_cancel: "reachable b \<Longrightarrow> Cancel b i = Some (b', evs) \<Longrightarrow> reachable b'"
| reach_restore: "reachable b \<Longrightarrow> Snapshot b = Some st \<Longrightarrow> Restore st = Some b' \<Longrightarrow> reachable b'"

lemma reachable_inv: "reachable b \<Longrightarrow> \<exists>a. bookInv b a"
proof (induction rule: reachable.induct)
  case reach_new
  then show ?case using book.new_R by blast
next
  case (reach_limit b order b' i evs)
  then show ?case using book.exec_R [of b _ "CmdLimit order"] by (auto simp: bookExec_def cmdOk_def)
next
  case (reach_cancel b i b' evs)
  then show ?case using book.exec_R [of b _ "CmdCancel i"] by (auto simp: bookExec_def cmdOk_def)
next
  case (reach_restore b st b')
  then show ?case using book.restored_R by fastforce
qed

end
