(* ===== verification/MatchProps.thy ===== *)
theory MatchProps
  imports BookEngine
begin

text \<open>
  The properties of the matching engine (\<open>matchengine/book.go\<close>), stated on the
  operations as the code has them and on the states they export.
\<close>

definition bidsOf :: "BookState \<Rightarrow> OrderEntry list" where
  "bidsOf st = filter (\<lambda>e. enSide e = Buy) (bsOrders st)"

definition asksOf :: "BookState \<Rightarrow> OrderEntry list" where
  "asksOf st = filter (\<lambda>e. enSide e = Sell) (bsOrders st)"

definition submitted :: "OrderID \<Rightarrow> Order \<Rightarrow> OrderEntry" where
  "submitted i order = \<lparr>enID = i, enTrader = oTrader order, enPrice = oPrice order,
     enSize = oSize order, enSide = oSide order, enQtyFilled = 0, enFills = []\<rparr>"

definition demoBuy :: Order where
  "demoBuy = \<lparr>oTrader = copy8 ''alice'', oPrice = 100, oSize = 10, oSide = Buy\<rparr>"

definition demoSell :: Order where
  "demoSell = \<lparr>oTrader = copy8 ''bob'', oPrice = 90, oSize = 4, oSide = Sell\<rparr>"

definition demoOver :: Order where
  "demoOver = \<lparr>oTrader = copy8 ''bob'', oPrice = 101, oSize = 5, oSide = Sell\<rparr>"

definition demoA1 :: abook where
  "demoA1 = \<lparr>aBids = [submitted 1 demoBuy], aAsks = [], aTop = 2\<rparr>"

definition demoRest :: OrderEntry where
  "demoRest = fillEntry (submitted 1 demoBuy) (legOf (submitted 2 demoSell) 100 4)"

definition isBBO :: "Event \<Rightarrow> bool" where
  "isBBO ev = (case ev of EvBBO _ \<Rightarrow> True | EvOrder _ \<Rightarrow> False)"

lemma submitted_newEntry: "newEntry a order = submitted (aTop a) order"
  by (simp add: newEntry_def submitted_def)

lemma sides_aState:
  assumes "awf a"
  shows "bidsOf (aState a) = aBids a" and "asksOf (aState a) = aAsks a"
  using assms by (auto simp: bidsOf_def asksOf_def aState_def awf_def filter_id_conv filter_empty_conv)

lemma reachable_state:
  assumes "reachable b" and "Snapshot b = Some st"
  obtains a where "rep b a" and "awf a" and "uncrossed a" and "entriesOk a" and "tradersOk a" and "st = aState a"
    and "bidsOf st = aBids a" and "asksOf st = aAsks a"
proof -
  from reachable_inv [OF assms(1)] obtain a where a: "bookInv b a" by blast
  then have "st = aState a" using book.snapshot_R assms(2) by auto
  with a that show ?thesis using sides_aState by (auto simp: bookInv_def aInv_def)
qed

lemma rep_BBO:
  assumes "rep b a"
  shows "bbo b = Some (aBBO a)" and "poolTop b = aTop a" and "BestBid b = Some (bestPrice (aBids a))"
    and "BestAsk b = Some (bestPrice (aAsks a))"
proof -
  from assms obtain B A where r: "book_rep b B A {}" and a: "a = absOf b B A" by (auto simp: rep_def)
  note s = book_rep_sides [OF r]
  show "bbo b = Some (aBBO a)" "poolTop b = aTop a" "BestBid b = Some (bestPrice (aBids a))"
    "BestAsk b = Some (bestPrice (aAsks a))"
    using bbo_rep [OF r] a BestBid_rep [OF s(1,3,5)] BestAsk_rep [OF s(2,4,6)] by simp_all
qed

lemma Limit_run:
  assumes "rep b a"
  shows "\<exists>b'. Limit b order = Some (b', snd (aLimit a order)) \<and> rep b' (fst (aLimit a order))"
  using Limit_rep [OF assms, of order "fst (aLimit a order)" "fst (snd (aLimit a order))" "snd (snd (aLimit a order))"]
  by simp

lemma Cancel_run:
  assumes "rep b a"
  shows "\<exists>b'. Cancel b i = Some (b', snd (aCancel a i)) \<and> rep b' (fst (aCancel a i))"
  using Cancel_rep [OF assms, of i "fst (aCancel a i)" "snd (aCancel a i)"] by simp

section \<open>A sample book\<close>

lemma MaxOrders_big: "\<not> MaxOrders \<le> 1" "\<not> MaxOrders \<le> 2"
  by (simp_all add: MaxOrders_def word_le_nat_alt)

lemma demo_aBuy: "aLimit aNew demoBuy =
  (demoA1, 1,
   [entryEvent OrderAccepted (submitted 1 demoBuy),
    EvBBO \<lparr>bboBid = 100, bboBidQty = 10, bboAsk = 0, bboAskQty = 0\<rparr>])"
  by (simp add: aLimit_def aBuy_def aNew_def demoBuy_def newEntry_def submitted_def demoA1_def MaxOrders_big insertBid_def
      bboChange_def aBBO_def bestQty_def)


lemma demo_aSell: "aLimit demoA1 demoSell =
  (\<lparr>aBids = [demoRest], aAsks = [], aTop = 3\<rparr>, 2,
   [entryEvent OrderFilled demoRest,
    entryEvent OrderFilled (fillEntry (submitted 2 demoSell) (legOf (submitted 1 demoBuy) 100 4)),
    EvBBO \<lparr>bboBid = 100, bboBidQty = 6, bboAsk = 0, bboAskQty = 0\<rparr>])"
  by (simp add: aLimit_def aSell_def demoA1_def demoBuy_def demoSell_def newEntry_def submitted_def MaxOrders_big
      bboChange_def aBBO_def bestQty_def demoRest_def sellOk_def tradeAgg_def tradeRest_def tradeQty_def min32_def
      legOf_def fillEntry_def Let_def)

lemma demo_book: "\<exists>b. reachable b \<and> rep b demoA1 \<and> Snapshot b = Some (aState demoA1)"
proof -
  from Limit_run [OF New_rep, of demoBuy] obtain b where
      b: "Limit OrderBook_New demoBuy = Some (b, snd (aLimit aNew demoBuy))" "rep b demoA1"
    by (auto simp: demo_aBuy)
  have "reachable b"
    using reach_limit [OF reach_new _ b(1) [unfolded demo_aBuy snd_conv]] by (simp add: demoBuy_def)
  with b(2) Snapshot_rep show ?thesis by blast
qed

lemma demo_aOver: "aLimit demoA1 demoOver =
  (\<lparr>aBids = [submitted 1 demoBuy], aAsks = [submitted 2 demoOver], aTop = 3\<rparr>, 2,
   [entryEvent OrderAccepted (submitted 2 demoOver),
    EvBBO \<lparr>bboBid = 100, bboBidQty = 10, bboAsk = 101, bboAskQty = 5\<rparr>])"
  by (simp add: aLimit_def aSell_def demoA1_def demoBuy_def demoOver_def newEntry_def submitted_def MaxOrders_big
      bboChange_def aBBO_def bestQty_def sellOk_def insertAsk_def)

text \<open>The engines after the sample orders, with what they export.\<close>

lemma demo_run:
  assumes "aLimit demoA1 order = (a', i, evs)" and "length (oTrader order) = 8"
  shows "\<exists>b b'. reachable b \<and> rep b demoA1 \<and> Snapshot b = Some (aState demoA1) \<and>
    Limit b order = Some (b', i, evs) \<and> reachable b' \<and> rep b' a' \<and> Snapshot b' = Some (aState a')"
proof -
  from demo_book obtain b where b: "reachable b" "rep b demoA1" "Snapshot b = Some (aState demoA1)" by blast
  from Limit_rep [OF b(2) assms(1)] obtain b' where b': "Limit b order = Some (b', i, evs)" "rep b' a'" by blast
  show ?thesis using b b' Snapshot_rep [OF b'(2)] reach_limit [OF b(1) assms(2) b'(1)] by blast
qed

section \<open>Refinement\<close>





section \<open>Reachable engines\<close>

text \<open>C3: an engine reached from a fresh one by any sequence of orders, cancels and restarts
  never panics and never loops: every order, cancel, export and re-import returns, and
  returns a reachable engine again.\<close>

theorem engine_total:
  assumes "reachable b" and "length (oTrader order) = 8"
  shows "(\<exists>b' i evs. Limit b order = Some (b', i, evs) \<and> reachable b') \<and>
    (\<exists>b' evs. Cancel b j = Some (b', evs) \<and> reachable b') \<and>
    (\<exists>st b'. Snapshot b = Some st \<and> Restore st = Some b' \<and> reachable b')"
proof -
  from reachable_inv [OF assms(1)] obtain a where a: "bookInv b a" by blast
  obtain b1 i evs where l: "Limit b order = Some (b1, i, evs)"
    using Limit_run [of b a order] a by (auto simp: bookInv_def) (metis prod.collapse)
  obtain b2 evs2 where c: "Cancel b j = Some (b2, evs2)"
    using Cancel_run [of b a j] a by (auto simp: bookInv_def)
  obtain st b3 where s: "Snapshot b = Some st" "Restore st = Some b3"
    using book.snapshot_R [OF a] book.restore_R [OF a] by blast
  show ?thesis
    using l c s reach_limit [OF assms l] reach_cancel [OF assms(1) c] reach_restore [OF assms(1) s] by blast
qed

theorem engine_total_witness:
  "reachable OrderBook_New \<and> length (oTrader demoBuy) = 8 \<and>
   (\<exists>b' i evs. Limit OrderBook_New demoBuy = Some (b', i, evs) \<and> reachable b')"
  using engine_total [OF reach_new, of demoBuy] reach_new by (simp add: demoBuy_def)

text \<open>C4: an engine rebuilt from its own snapshot cannot be told apart from the original: for
  every later sequence of commands both return, emit the same events, and export the same
  state again.\<close>

theorem restore_indistinguishable:
  assumes "reachable b" and "Snapshot b = Some st" and "\<forall>c\<in>set cs. cmdOk c"
  shows "\<exists>b1 b2 b3 es. Restore st = Some b1 \<and> execs bookExec b cs = Some (b2, es) \<and>
    execs bookExec b1 cs = Some (b3, es) \<and> Snapshot b2 = Snapshot b3"
  using reachable_inv [OF assms(1)] book.restored_same assms(2,3) by blast

theorem restore_indistinguishable_witness:
  "\<exists>b st. reachable b \<and> Snapshot b = Some st \<and> (\<forall>c\<in>set [CmdLimit demoSell, CmdCancel 1]. cmdOk c) \<and>
    (\<exists>b1 b2 b3 es. Restore st = Some b1 \<and> execs bookExec b [CmdLimit demoSell, CmdCancel 1] = Some (b2, es) \<and>
      execs bookExec b1 [CmdLimit demoSell, CmdCancel 1] = Some (b3, es))"
proof -
  from demo_book obtain b where b: "reachable b" "Snapshot b = Some (aState demoA1)" by blast
  have ok: "\<forall>c\<in>set [CmdLimit demoSell, CmdCancel 1]. cmdOk c" by (simp add: cmdOk_def demoSell_def)
  show ?thesis using restore_indistinguishable [OF b ok] b ok by blast
qed

lemma never_crossed:
  assumes "reachable b" and "BestBid b = Some x" and "BestAsk b = Some y" and "x \<noteq> 0" and "y \<noteq> 0"
  shows "x < y"
proof -
  from reachable_inv [OF assms(1)] obtain a where a: "rep b a" "uncrossed a"
    by (auto simp: bookInv_def aInv_def)
  then have x: "x = bestPrice (aBids a)" "y = bestPrice (aAsks a)"
    using rep_BBO assms(2,3) by auto
  with assms(4,5) obtain e es f fs where "aBids a = e # es" "aAsks a = f # fs"
    by (cases "aBids a"; cases "aAsks a") auto
  with a(2) x show ?thesis by (simp add: uncrossed_def)
qed

section \<open>Matching\<close>

lemma aLimit_accepts:
  assumes "aLimit a order = (a', i, evs)" and "i \<noteq> none"
  shows "oSide order = Buy \<Longrightarrow> \<exists>es. aBuy a order = (a', es) \<and> evs = es @ bboChange a a'"
    and "oSide order = Sell \<Longrightarrow> \<exists>es. aSell a order = (a', es) \<and> evs = es @ bboChange a a'"
    and "i = aTop a"
  using assms by (auto simp: aLimit_def split: if_splits prod.splits)

lemma limit_states:
  assumes "reachable b" and "Snapshot b = Some st" and "length (oTrader order) = 8"
    and "Limit b order = Some (b', i, evs)" and "Snapshot b' = Some st'"
  obtains a a' where "rep b a" and "awf a" and "entriesOk a" and "rep b' a'" and "awf a'" and "st = aState a" and "st' = aState a'"
    and "aLimit a order = (a', i, evs)"
    and "bidsOf st = aBids a" and "asksOf st = aAsks a" and "bidsOf st' = aBids a'" and "asksOf st' = aAsks a'"
proof -
  obtain a where a: "rep b a" "awf a" "entriesOk a" "st = aState a" "bidsOf st = aBids a" "asksOf st = aAsks a"
    using reachable_state [OF assms(1,2)] by metis
  have l: "aLimit a order = (fst (aLimit a order), i, evs)" "rep b' (fst (aLimit a order))"
    using Limit_run [OF a(1), of order] assms(4) by (auto simp: prod_eq_iff)
  have "st' = aState (fst (aLimit a order))" using Snapshot_rep [OF l(2)] assms(5) by simp
  with a l that [of a "fst (aLimit a order)"] sides_aState [OF rep_awf [OF l(2)]] rep_awf [OF l(2)] show ?thesis by simp
qed

text \<open>The two sides of a sweep.\<close>

lemma buy_priority:
  assumes "reachable b" and "Snapshot b = Some st" and "length (oTrader order) = 8"
    and "Limit b order = Some (b', i, evs)" and "i \<noteq> none" and "oSide order = Buy" and "Snapshot b' = Some st'"
  shows "\<exists>n e. sweptPrefix (\<lambda>p. p \<le> oPrice order) (submitted i order) (asksOf st) e (asksOf st') n \<and>
    bidsOf st' = (if enSize e = 0 then bidsOf st else insertBid e (bidsOf st))"
proof -
  obtain a a' where a: "aLimit a order = (a', i, evs)" "bidsOf st = aBids a" "asksOf st = aAsks a"
      "bidsOf st' = aBids a'" "asksOf st' = aAsks a'"
    using limit_states [OF assms(1-4,7)] by metis
  from aLimit_accepts [OF a(1) assms(5)] assms(6) obtain es where b: "aBuy a order = (a', es)" "i = aTop a" by blast
  obtain e rs es where s: "sweep (buyOk (oPrice order)) (newEntry a order) (aAsks a) = (e, rs, es)"
    by (metis prod_cases3)
  have "buyOk (oPrice order) = (\<lambda>p. p \<le> oPrice order)" by (simp add: fun_eq_iff buyOk_def)
  with sweep_prefix [OF s] obtain n where
      "sweptPrefix (\<lambda>p. p \<le> oPrice order) (submitted i order) (aAsks a) e rs n"
    using b(2) submitted_newEntry [of a order] by auto
  moreover have "aAsks a' = rs" "aBids a' = (if enSize e = 0 then aBids a else insertBid e (aBids a))"
    using b(1) s by (auto simp: aBuy_def split: if_splits)
  ultimately show ?thesis using a by auto
qed

lemma sell_priority:
  assumes "reachable b" and "Snapshot b = Some st" and "length (oTrader order) = 8"
    and "Limit b order = Some (b', i, evs)" and "i \<noteq> none" and "oSide order = Sell" and "Snapshot b' = Some st'"
  shows "\<exists>n e. sweptPrefix (\<lambda>p. oPrice order \<le> p) (submitted i order) (bidsOf st) e (bidsOf st') n \<and>
    asksOf st' = (if enSize e = 0 then asksOf st else insertAsk e (asksOf st))"
proof -
  obtain a a' where a: "aLimit a order = (a', i, evs)" "bidsOf st = aBids a" "asksOf st = aAsks a"
      "bidsOf st' = aBids a'" "asksOf st' = aAsks a'"
    using limit_states [OF assms(1-4,7)] by metis
  from aLimit_accepts [OF a(1) assms(5)] assms(6) obtain es where b: "aSell a order = (a', es)" "i = aTop a" by blast
  obtain e rs es where s: "sweep (sellOk (oPrice order)) (newEntry a order) (aBids a) = (e, rs, es)"
    by (metis prod_cases3)
  have "sellOk (oPrice order) = (\<lambda>p. oPrice order \<le> p)" by (simp add: fun_eq_iff sellOk_def)
  with sweep_prefix [OF s] obtain n where
      "sweptPrefix (\<lambda>p. oPrice order \<le> p) (submitted i order) (aBids a) e rs n"
    using b(2) submitted_newEntry [of a order] by auto
  moreover have "aBids a' = rs" "aAsks a' = (if enSize e = 0 then aAsks a else insertAsk e (aAsks a))"
    using b(1) s by (auto simp: aSell_def split: if_splits)
  ultimately show ?thesis using a by auto
qed

text \<open>C5: price-time priority. The resting orders of the other side are consumed from the best one on, each completely
  before the next, at the resting order's price and never beyond the limit; the last may be
  consumed in part. The sweep stops because the order is filled or because the next resting order is
  beyond the limit, and what is left of the order rests behind the orders of its own price.\<close>

theorem price_time_priority:
  assumes "reachable b" and "Snapshot b = Some st" and "length (oTrader order) = 8"
    and "Limit b order = Some (b', i, evs)" and "i \<noteq> none" and "Snapshot b' = Some st'"
  shows "(oSide order = Buy \<longrightarrow> (\<exists>n e. sweptPrefix (\<lambda>p. p \<le> oPrice order) (submitted i order) (asksOf st) e (asksOf st') n \<and>
      bidsOf st' = (if enSize e = 0 then bidsOf st else insertBid e (bidsOf st)))) \<and>
    (oSide order = Sell \<longrightarrow> (\<exists>n e. sweptPrefix (\<lambda>p. oPrice order \<le> p) (submitted i order) (bidsOf st) e (bidsOf st') n \<and>
      asksOf st' = (if enSize e = 0 then asksOf st else insertAsk e (asksOf st))))"
  using buy_priority [OF assms(1-5) _ assms(6)] sell_priority [OF assms(1-5) _ assms(6)] by blast

theorem price_time_priority_witness:
  "\<exists>b b' evs st st'. reachable b \<and> Snapshot b = Some st \<and> Limit b demoSell = Some (b', 2, evs) \<and>
    Snapshot b' = Some st' \<and>
    (\<exists>n e. sweptPrefix (\<lambda>p. 90 \<le> p) (submitted 2 demoSell) (bidsOf st) e (bidsOf st') n)"
proof -
  have l: "length (oTrader demoSell) = 8" and two: "(2 :: OrderID) \<noteq> none"
    by (simp_all add: demoSell_def none_def)
  from demo_run [OF demo_aSell l] obtain b b' evs where b: "reachable b" "Snapshot b = Some (aState demoA1)"
      "Limit b demoSell = Some (b', 2, evs)" "Snapshot b' = Some (aState \<lparr>aBids = [demoRest], aAsks = [], aTop = 3\<rparr>)"
    by blast
  have d: "oSide demoSell = Sell" "oPrice demoSell = 90" by (simp_all add: demoSell_def)
  show ?thesis
    using price_time_priority [OF b(1,2) l b(3) two b(4), unfolded d(2)] d(1) b by blast
qed

text \<open>C6: conservation of quantity. What an accepted order trades is taken from the other side
  unit for unit, and exactly the rest of it joins its own side; in every resting order of the
  exported state the open and the filled quantity fit in 32 bits together and the recorded
  fills add up to the filled quantity.\<close>

theorem limit_conserves:
  assumes "reachable b" and "Snapshot b = Some st" and "length (oTrader order) = 8"
    and "Limit b order = Some (b', i, evs)" and "i \<noteq> none" and "Snapshot b' = Some st'"
  shows "\<exists>t \<le> unat (oSize order).
      (oSide order = Buy \<longrightarrow> qty (asksOf st) = qty (asksOf st') + t \<and>
         qty (bidsOf st') = qty (bidsOf st) + (unat (oSize order) - t)) \<and>
      (oSide order = Sell \<longrightarrow> qty (bidsOf st) = qty (bidsOf st') + t \<and>
         qty (asksOf st') = qty (asksOf st) + (unat (oSize order) - t)) \<and>
      (\<forall>e\<in>set (bsOrders st'). entryOk e)"
proof -
  obtain a a' where a: "rep b a" "awf a" "entriesOk a" "st' = aState a'" "aLimit a order = (a', i, evs)"
      "bidsOf st = aBids a" "asksOf st = aAsks a" "bidsOf st' = aBids a'" "asksOf st' = aAsks a'"
    using limit_states [OF assms(1-4,6)] by metis
  have "reachable b'" using reach_limit [OF assms(1,3,4)] .
  from reachable_state [OF this assms(6)] obtain ax where "entriesOk ax" "st' = aState ax" by metis
  then have ok: "\<forall>e\<in>set (bsOrders st'). entryOk e"
    by (simp add: entriesOk_def aState_def)
  have nz: "enSize (newEntry a order) = oSize order" by (simp add: newEntry_def)
  show ?thesis
  proof (cases "oSide order")
    case Buy
    obtain e rs es where s: "sweep (buyOk (oPrice order)) (newEntry a order) (aAsks a) = (e, rs, es)"
      by (metis prod_cases3)
    have "aAsks a' = rs" "aBids a' = (if enSize e = 0 then aBids a else insertBid e (aBids a))"
      using aLimit_accepts [OF a(5) assms(5)] Buy s by (auto simp: aBuy_def split: if_splits)
    then have "unat (oSize order) + qty (asksOf st') = unat (enSize e) + qty (asksOf st)"
        "qty (bidsOf st') = unat (enSize e) + qty (bidsOf st)" "unat (enSize e) \<le> unat (oSize order)"
      using sweep_qty [OF s] sweep_le [OF s] nz a by auto
    then show ?thesis
      using Buy ok by (intro exI [of _ "unat (oSize order) - unat (enSize e)"]) simp
  next
    case Sell
    obtain e rs es where s: "sweep (sellOk (oPrice order)) (newEntry a order) (aBids a) = (e, rs, es)"
      by (metis prod_cases3)
    have "aBids a' = rs" "aAsks a' = (if enSize e = 0 then aAsks a else insertAsk e (aAsks a))"
      using aLimit_accepts [OF a(5) assms(5)] Sell s by (auto simp: aSell_def split: if_splits)
    then have "unat (oSize order) + qty (bidsOf st') = unat (enSize e) + qty (bidsOf st)"
        "qty (asksOf st') = unat (enSize e) + qty (asksOf st)" "unat (enSize e) \<le> unat (oSize order)"
      using sweep_qty [OF s] sweep_le [OF s] nz a by auto
    then show ?thesis
      using Sell ok by (intro exI [of _ "unat (oSize order) - unat (enSize e)"]) simp
  qed
qed

theorem limit_conserves_witness:
  "\<exists>b b' evs st st'. reachable b \<and> Snapshot b = Some st \<and> Limit b demoSell = Some (b', 2, evs) \<and>
    Snapshot b' = Some st' \<and> qty (bidsOf st) = qty (bidsOf st') + 4 \<and> (\<forall>e\<in>set (bsOrders st'). entryOk e)"
proof -
  have l: "length (oTrader demoSell) = 8" and two: "(2 :: OrderID) \<noteq> none"
    by (simp_all add: demoSell_def none_def)
  from demo_run [OF demo_aSell l] obtain b b' evs where b: "reachable b" "Snapshot b = Some (aState demoA1)"
      "Limit b demoSell = Some (b', 2, evs)" "Snapshot b' = Some (aState \<lparr>aBids = [demoRest], aAsks = [], aTop = 3\<rparr>)"
    by blast
  have q: "qty (bidsOf (aState demoA1)) = 10" "qty (bidsOf (aState \<lparr>aBids = [demoRest], aAsks = [], aTop = 3\<rparr>)) = 6"
    by (simp_all add: bidsOf_def aState_def demoA1_def demoRest_def submitted_def demoBuy_def legOf_def)
  show ?thesis
    using limit_conserves [OF b(1,2) l b(3) two b(4)] b q by (auto simp: demoSell_def)
qed

section \<open>Cancelling\<close>

lemma findEntry_cases:
  "case findEntry a i of None \<Rightarrow> i \<notin> enID ` set (bsOrders (aState a))
   | Some e \<Rightarrow> e \<in> set (bsOrders (aState a)) \<and> enID e = i"
proof (cases "findEntry a i")
  case None
  then have "i \<notin> enID ` set (bsOrders (aState a))" by (auto simp: findEntry_def aState_def find_None_iff)
  with None show ?thesis by simp
next
  case (Some e)
  then obtain k where "k < length (aBids a @ aAsks a)" "enID ((aBids a @ aAsks a) ! k) = i" "e = (aBids a @ aAsks a) ! k"
    unfolding findEntry_def find_Some_iff by blast
  with Some show ?thesis using nth_mem [of k "aBids a @ aAsks a"] by (simp add: aState_def)
qed

lemma aState_drop: "bsOrders (aState (dropEntry i a)) = filter (\<lambda>x. enID x \<noteq> i) (bsOrders (aState a))"
  "bsPoolTop (aState (dropEntry i a)) = bsPoolTop (aState a)"
  by (simp_all add: aState_def dropEntry_def)



section \<open>Best bid and offer\<close>

lemma isBBO_simps [simp]: "\<not> isBBO (entryEvent t e)" "\<not> isBBO (rejectEvent i tr r)" "isBBO (EvBBO x)"
  by (simp_all add: isBBO_def entryEvent_def rejectEvent_def)

lemma sweep_no_BBO: "sweep ok a rs = (a', rs', es) \<Longrightarrow> filter isBBO es = []"
proof (induction rs arbitrary: a a' rs' es)
  case (Cons r rs)
  then show ?case by (auto simp: Let_def split: if_splits prod.splits)
qed simp

lemma bboChange_filter: "filter isBBO (bboChange a a') = bboChange a a'"
  by (simp add: bboChange_def)

lemma specExec_BBO:
  "specExec a c = (a', evs) \<Longrightarrow> filter isBBO evs = (if aBBO a' = aBBO a then [] else [EvBBO (aBBO a')])"
proof (cases c)
  case (CmdLimit order)
  obtain ab eb where b: "aBuy a order = (ab, eb)" by (metis surj_pair)
  obtain as es where s: "aSell a order = (as, es)" by (metis surj_pair)
  have "filter isBBO eb = []" "filter isBBO es = []"
    using b s sweep_no_BBO by (fastforce simp: aBuy_def aSell_def split: if_splits prod.splits)+
  moreover assume "specExec a c = (a', evs)"
  ultimately show ?thesis
    using CmdLimit b s bboChange_filter
    by (auto simp: specExec_def aLimit_def bboChange_def split: if_splits)
next
  case (CmdCancel i)
  assume "specExec a c = (a', evs)"
  with CmdCancel bboChange_filter show ?thesis
    by (auto simp: specExec_def aCancel_def Let_def bboChange_def split: if_splits option.splits)
qed

lemma bbo_announced:
  assumes "reachable b" and "cmdOk c" and "bookExec b c = Some (b', evs)" and "bbo b = Some x" and "bbo b' = Some y"
  shows "filter isBBO evs = (if y = x then [] else [EvBBO y])"
proof -
  from reachable_inv [OF assms(1)] obtain a where a: "bookInv b a" by blast
  from book.exec_R [OF a assms(2)] assms(3) have "evs = snd (specExec a c)" "rep b' (fst (specExec a c))"
    by (auto simp: bookInv_def)
  moreover have "x = aBBO a" "y = aBBO (fst (specExec a c))"
    using rep_BBO(1) a assms(4,5) calculation(2) by (auto simp: bookInv_def)
  ultimately show ?thesis
    using specExec_BBO [of a c "fst (specExec a c)" "snd (specExec a c)"] by simp
qed

text \<open>C8: the top of the book. When both sides of a reachable book have a best price, the bid is below the ask;
  and a command announces the best prices and quantities exactly when one of the four values
  changed, once, and with the values of the book it leaves.\<close>

theorem top_of_book:
  assumes "reachable b"
  shows "(BestBid b = Some p \<and> BestAsk b = Some q \<and> p \<noteq> 0 \<and> q \<noteq> 0 \<longrightarrow> p < q) \<and>
    (cmdOk c \<and> bookExec b c = Some (b', evs) \<and> bbo b = Some x \<and> bbo b' = Some y \<longrightarrow> filter isBBO evs = (if y = x then [] else [EvBBO y]))"
  using never_crossed [OF assms] bbo_announced [OF assms] by blast

theorem top_of_book_witness:
  "\<exists>b' evs x y. reachable OrderBook_New \<and> cmdOk (CmdLimit demoBuy) \<and>
    bookExec OrderBook_New (CmdLimit demoBuy) = Some (b', evs) \<and> bbo OrderBook_New = Some x \<and> bbo b' = Some y \<and>
    filter isBBO evs = [EvBBO y]"
proof -
  from Limit_run [OF New_rep, of demoBuy] obtain b' where
      b: "Limit OrderBook_New demoBuy = Some (b', snd (aLimit aNew demoBuy))" "rep b' demoA1"
    by (auto simp: demo_aBuy)
  have e: "bookExec OrderBook_New (CmdLimit demoBuy) = Some (b', snd (snd (aLimit aNew demoBuy)))"
    using b(1) by (simp add: bookExec_def demo_aBuy)
  have ok: "cmdOk (CmdLimit demoBuy)" by (simp add: cmdOk_def demoBuy_def)
  have ne: "aBBO demoA1 \<noteq> aBBO aNew"
    by (simp add: aBBO_def demoA1_def aNew_def submitted_def demoBuy_def)
  show ?thesis
    using top_of_book [OF reach_new, THEN conjunct2, of "CmdLimit demoBuy" b' "snd (snd (aLimit aNew demoBuy))" "aBBO aNew" "aBBO demoA1"]
      reach_new ok e rep_BBO(1) [OF New_rep] rep_BBO(1) [OF b(2)] ne by auto
qed

section \<open>Identifiers and rejections\<close>

text \<open>C9: an order at price 0, and any order once the pool of 2 to the 20 slots is used up, is
  rejected without a change; every other order gets the next identifier, which no resting
  order has and which is never handed out again.\<close>

theorem limit_identifiers:
  assumes "reachable b" and "Snapshot b = Some st" and "length (oTrader order) = 8"
    and "Limit b order = Some (b', i, evs)" and "Snapshot b' = Some st'"
  shows "if oPrice order = 0 \<or> MaxOrders \<le> bsPoolTop st
    then i = none \<and> st' = st \<and> (\<exists>r. evs = [rejectEvent none (traderStr (oTrader order)) r])
    else i = bsPoolTop st \<and> bsPoolTop st' = i + 1 \<and> i < i + 1 \<and> (\<forall>e\<in>set (bsOrders st). enID e < i)"
proof -
  obtain a a' where a: "awf a" "st = aState a" "st' = aState a'" "aLimit a order = (a', i, evs)"
    using limit_states [OF assms] by metis
  have top: "aTop a < MaxOrders \<Longrightarrow> aTop a < aTop a + 1" by (rule top_succ)
  have "aTop (fst (aBuy a order)) = aTop a + 1" "aTop (fst (aSell a order)) = aTop a + 1"
    by (auto simp: aBuy_def aSell_def split: prod.split)
  with a top show ?thesis
    by (auto simp: aLimit_def aState_def awf_def not_le split: if_splits prod.splits)
qed

theorem limit_identifiers_witness:
  "\<exists>b b' evs st st'. reachable b \<and> Snapshot b = Some st \<and> Limit b demoSell = Some (b', 2, evs) \<and>
    Snapshot b' = Some st' \<and> bsPoolTop st = 2 \<and> bsPoolTop st' = 3"
proof -
  have l: "length (oTrader demoSell) = 8" by (simp add: demoSell_def)
  from demo_run [OF demo_aSell l] obtain b b' evs where b: "reachable b" "Snapshot b = Some (aState demoA1)"
      "Limit b demoSell = Some (b', 2, evs)" "Snapshot b' = Some (aState \<lparr>aBids = [demoRest], aAsks = [], aTop = 3\<rparr>)"
    by blast
  have "bsPoolTop (aState demoA1) = 2" "oPrice demoSell \<noteq> 0" by (simp_all add: aState_def demoA1_def demoSell_def)
  with limit_identifiers [OF b(1,2) l b(3,4)] b MaxOrders_big show ?thesis by auto
qed

text \<open>An order for zero units is neither rejected nor acknowledged: it uses up an identifier
  and a slot of the pool and produces no event at all.\<close>

theorem zero_size_silent:
  assumes "reachable b" and "Snapshot b = Some st" and "oSize order = 0" and "oPrice order \<noteq> 0"
    and "bsPoolTop st < MaxOrders"
  shows "\<exists>b'. Limit b order = Some (b', bsPoolTop st, []) \<and>
    Snapshot b' = Some (st\<lparr>bsPoolTop := bsPoolTop st + 1\<rparr>)"
proof -
  obtain a where a: "rep b a" "st = aState a" using reachable_state [OF assms(1,2)] by metis
  have z: "enSize (newEntry a order) = 0" using assms(3) by (simp add: newEntry_def)
  have top: "\<not> MaxOrders \<le> aTop a" using assms(5) a(2) by (simp add: aState_def)
  have "aLimit a order = (a\<lparr>aTop := aTop a + 1\<rparr>, aTop a, [])"
    using assms(4) top z by (simp add: aLimit_def aBuy_def aSell_def bboChange_def aBBO_def)
  with Limit_rep [OF a(1)] obtain b' where "Limit b order = Some (b', aTop a, [])" "rep b' (a\<lparr>aTop := aTop a + 1\<rparr>)"
    by blast
  then show ?thesis using Snapshot_rep a(2) by (fastforce simp: aState_def)
qed

theorem zero_size_silent_witness:
  "reachable OrderBook_New \<and>
   (\<exists>st b'. Snapshot OrderBook_New = Some st \<and> Limit OrderBook_New (demoBuy\<lparr>oSize := 0\<rparr>) = Some (b', 1, []))"
proof -
  have st: "Snapshot OrderBook_New = Some (aState aNew)" using Snapshot_rep [OF New_rep] .
  have "bsPoolTop (aState aNew) = 1" by (simp add: aState_def aNew_def)
  moreover have "(1 :: OrderID) < MaxOrders" using MaxOrders_big by simp
  ultimately show ?thesis
    using zero_size_silent [OF reach_new st, of "demoBuy\<lparr>oSize := 0\<rparr>"] reach_new st by (auto simp: demoBuy_def)
qed

end
