(* ===== verification/MarketSnapshot.thy ===== *)
theory MarketSnapshot
  imports BookEngine
begin

text \<open>
  The snapshot file of the market service (\<open>market/internal/service/snapshot.go\<close>):
  the protobuf messages of \<open>proto/secwager\<close> and \<open>proto/market\<close> it is built from, the
  conversions between an exported book and its message, and \<open>persist\<close> and \<open>load\<close> on
  the files of the data directory. The protobuf runtime is a parameter (\<open>codec\<close>).
  A Go map is ranged over in an order the language leaves open: the order is an
  argument of the definitions that range over one.
\<close>

section \<open>Messages\<close>

record MatchSnapshot =
  msOrderId :: uint32
  msTrader :: string
  msPrice :: uint32
  msQty :: uint32

record OrderSnapshot =
  osId :: uint32
  osTrader :: string
  osPrice :: uint32
  osSize :: uint32
  osSide :: string
  osQtyFilled :: uint32
  osMatches :: "MatchSnapshot list"

record BookSnapshot =
  snOrders :: "OrderSnapshot list"
  snBestBid :: uint32
  snBestAsk :: uint32
  snPoolTop :: uint32

text \<open>A sub-message that is absent on the wire is a nil pointer in Go, \<^const>\<open>None\<close> here.\<close>

record SymbolBook =
  sbSymbol :: string
  sbBook :: "BookSnapshot option"

record MarketSnapshot =
  mkOffset :: int
  mkBooks :: "SymbolBook list"

datatype pbExecType = ORDER_ACCEPTED | ORDER_FILLED | ORDER_CANCELLED | ORDER_REJECTED

datatype pbRejectReason = REJECT_REASON_UNSPECIFIED | ORDER_ALREADY_FILLED | ORDER_NOT_FOUND

record ExecutionReport =
  erSymbol :: string
  erTrader :: string
  erOrderId :: uint32
  erExecType :: pbExecType
  erQtyFilled :: uint32
  erQtyRemaining :: uint32
  erFillPrice :: uint32
  erMatchedAgainst :: "string list"
  erRejectReason :: pbRejectReason

record DepthUpdate =
  duSymbol :: string
  duBestBid :: uint32
  duBestBidQty :: uint32
  duBestAsk :: uint32
  duBestAskQty :: uint32

text \<open>\<open>Side\<close> is an open proto3 enum, so any number can arrive.\<close>

record pbOrder =
  poSymbol :: string
  poTrader :: string
  poPrice :: uint32
  poSize :: uint32
  poSide :: int

definition Side_SELL :: int where
  "Side_SELL = 1"

record CancelRequest =
  crSymbol :: string
  crOrderId :: uint32

text \<open>The \<open>oneof\<close>, which may be unset.\<close>

datatype MarketCommand = NewOrder pbOrder | CancelOrder CancelRequest | CommandUnset

datatype protoMsg = PExec ExecutionReport | PDepth DepthUpdate | PSnap MarketSnapshot

text \<open>\<open>proto.Marshal\<close> and \<open>proto.Unmarshal\<close>; \<^const>\<open>None\<close> is their error.\<close>

record codec =
  encode :: "protoMsg \<Rightarrow> string option"
  decodeSnap :: "string \<Rightarrow> MarketSnapshot option"
  decodeCmd :: "string \<Rightarrow> MarketCommand option"

section \<open>marshalBookState, unmarshalBookState\<close>

definition marshalMatch :: "Match \<Rightarrow> MatchSnapshot" where
  "marshalMatch m = \<lparr>msOrderId = mOrderID m, msTrader = mTrader m, msPrice = ucast (mPrice m), msQty = mQty m\<rparr>"

definition marshalEntry :: "OrderEntry \<Rightarrow> OrderSnapshot" where
  "marshalEntry e = \<lparr>osId = enID e, osTrader = trimRightNul (enTrader e), osPrice = ucast (enPrice e),
     osSize = enSize e, osSide = (if enSide e = Sell then ''S'' else ''B''), osQtyFilled = enQtyFilled e,
     osMatches = map marshalMatch (enFills e)\<rparr>"

definition marshalBookState :: "BookState \<Rightarrow> BookSnapshot" where
  "marshalBookState state = \<lparr>snOrders = map marshalEntry (bsOrders state), snBestBid = ucast (bsBestBid state),
     snBestAsk = ucast (bsBestAsk state), snPoolTop = bsPoolTop state\<rparr>"

definition unmarshalMatch :: "MatchSnapshot \<Rightarrow> Match" where
  "unmarshalMatch m = \<lparr>mOrderID = msOrderId m, mTrader = msTrader m, mPrice = ucast (msPrice m), mQty = msQty m\<rparr>"

definition unmarshalEntry :: "OrderSnapshot \<Rightarrow> OrderEntry" where
  "unmarshalEntry s = \<lparr>enID = osId s, enTrader = copy8 (osTrader s), enPrice = ucast (osPrice s), enSize = osSize s,
     enSide = (if osSide s = ''S'' then Sell else Buy), enQtyFilled = osQtyFilled s,
     enFills = map unmarshalMatch (osMatches s)\<rparr>"

definition unmarshalBookState :: "BookSnapshot \<Rightarrow> BookState" where
  "unmarshalBookState pb = \<lparr>bsOrders = map unmarshalEntry (snOrders pb), bsBestBid = ucast (snBestBid pb),
     bsBestAsk = ucast (snBestAsk pb), bsPoolTop = snPoolTop pb\<rparr>"

section \<open>persist, load\<close>

type_synonym engines = "string \<Rightarrow> OrderBook option"

text \<open>The files of the data directory by name.\<close>

type_synonym files = "string \<Rightarrow> string option"

definition snapshotFile :: string where
  "snapshotFile = ''snapshot''"

definition snapshotTmp :: string where
  "snapshotTmp = ''snapshot.tmp''"

text \<open>What the operating system does to one call of \<open>persist\<close>; a failing write leaves some part
  of the data in the file.\<close>

datatype persistIO = IoOk | MkdirFails | WriteFails string | RenameFails

datatype persistErr = ErrMkdir | ErrMarshal | ErrWrite | ErrRename

fun symbolBooks :: "engines \<Rightarrow> string list \<Rightarrow> SymbolBook list option" where
  "symbolBooks engines [] = Some []"
| "symbolBooks engines (symbol # symbols) =
     (case engines symbol of
        None \<Rightarrow> symbolBooks engines symbols
      | Some eng \<Rightarrow> do {
          state \<leftarrow> Snapshot eng;
          rest \<leftarrow> symbolBooks engines symbols;
          Some (\<lparr>sbSymbol = symbol, sbBook = Some (marshalBookState state)\<rparr> # rest)
        })"

definition persist :: "codec \<Rightarrow> string list \<Rightarrow> persistIO \<Rightarrow> files \<Rightarrow> int \<Rightarrow> engines \<Rightarrow> (files \<times> persistErr option) option" where
  "persist cd symbols io files offset engines =
     (if io = MkdirFails then Some (files, Some ErrMkdir)
      else do {
        books \<leftarrow> symbolBooks engines symbols;
        case encode cd (PSnap \<lparr>mkOffset = offset, mkBooks = books\<rparr>) of
          None \<Rightarrow> Some (files, Some ErrMarshal)
        | Some data \<Rightarrow>
            (case io of
               WriteFails part \<Rightarrow> Some (files(snapshotTmp := Some part), Some ErrWrite)
             | RenameFails \<Rightarrow> Some (files(snapshotTmp := Some data), Some ErrRename)
             | _ \<Rightarrow> Some (files(snapshotTmp := None, snapshotFile := Some data), None))
      })"

datatype loadErr = ErrRead | ErrUnmarshal

type_synonym books = "string \<Rightarrow> BookState option"

fun loadBooks :: "SymbolBook list \<Rightarrow> books \<Rightarrow> books option" where
  "loadBooks [] books = Some books"
| "loadBooks (sb # sbs) books =
     (case sbBook sb of
        None \<Rightarrow> None
      | Some pb \<Rightarrow> loadBooks sbs (books(sbSymbol sb \<mapsto> unmarshalBookState pb)))"

text \<open>\<open>readErr\<close>: reading the file fails for another reason than that it does not exist.\<close>

definition load :: "codec \<Rightarrow> bool \<Rightarrow> files \<Rightarrow> (loadErr + int \<times> books) option" where
  "load cd readErr files =
     (if readErr then Some (Inl ErrRead)
      else case files snapshotFile of
        None \<Rightarrow> Some (Inr (- 1, Map.empty))
      | Some data \<Rightarrow>
          (case decodeSnap cd data of
             None \<Rightarrow> Some (Inl ErrUnmarshal)
           | Some snap \<Rightarrow> do { books \<leftarrow> loadBooks (mkBooks snap) Map.empty; Some (Inr (mkOffset snap, books)) }))"

section \<open>Round trips\<close>

lemma ucast_price_roundtrip [simp]: "ucast (ucast (x :: Price) :: uint32) = x"
  by transfer (simp add: take_bit_eq_mod)

lemma unmarshal_marshalMatch [simp]: "unmarshalMatch (marshalMatch m) = m"
  by (simp add: unmarshalMatch_def marshalMatch_def)

lemma unmarshal_marshalEntry: "length (enTrader e) = 8 \<Longrightarrow> unmarshalEntry (marshalEntry e) = e"
  by (cases "enSide e") (simp_all add: unmarshalEntry_def marshalEntry_def copy8_trimRightNul o_def)

lemma unmarshal_marshalBookState:
  "(\<forall>e\<in>set (bsOrders st). length (enTrader e) = 8) \<Longrightarrow> unmarshalBookState (marshalBookState st) = st"
  by (simp add: unmarshalBookState_def marshalBookState_def unmarshal_marshalEntry map_idI)

text \<open>What \<open>persist\<close> writes, \<open>loadBooks\<close> reads back.\<close>

lemma symbolBooks_load:
  assumes "\<And>s b. engines s = Some b \<Longrightarrow> \<exists>st. Snapshot b = Some st \<and> (\<forall>e\<in>set (bsOrders st). length (enTrader e) = 8)"
  shows "\<exists>sbs. symbolBooks engines symbols = Some sbs \<and>
    loadBooks sbs books = Some (\<lambda>s. if s \<in> set symbols \<and> engines s \<noteq> None then Snapshot (the (engines s)) else books s)"
proof (induction symbols arbitrary: books)
  case (Cons s ss)
  show ?case
  proof (cases "engines s")
    case None
    with Cons.IH [of books] show ?thesis by (fastforce simp: fun_eq_iff)
  next
    case (Some b)
    with assms obtain st where st: "Snapshot b = Some st" "\<forall>e\<in>set (bsOrders st). length (enTrader e) = 8" by blast
    from Cons.IH [of "books(s \<mapsto> st)"] obtain sbs where
        "symbolBooks engines ss = Some sbs"
        "loadBooks sbs (books(s \<mapsto> st)) = Some (\<lambda>x. if x \<in> set ss \<and> engines x \<noteq> None
          then Snapshot (the (engines x)) else (books(s \<mapsto> st)) x)"
      by blast
    with Some st show ?thesis by (auto simp: unmarshal_marshalBookState fun_eq_iff)
  qed
qed simp

text \<open>The rename makes the snapshot file change at once or not at all.\<close>

lemma persist_snapshot_file:
  assumes "persist cd symbols io files offset engines = Some (files', err)"
  shows "err \<noteq> None \<Longrightarrow> files' snapshotFile = files snapshotFile"
    and "err = None \<Longrightarrow> \<exists>sbs data. symbolBooks engines symbols = Some sbs \<and>
      encode cd (PSnap \<lparr>mkOffset = offset, mkBooks = sbs\<rparr>) = Some data \<and> files' snapshotFile = Some data"
proof -
  show "files' snapshotFile = files snapshotFile" if "err \<noteq> None"
    using assms that by (cases io) (auto simp: persist_def snapshotFile_def snapshotTmp_def bind_Some_iff split: option.splits)
  show "\<exists>sbs data. symbolBooks engines symbols = Some sbs \<and>
      encode cd (PSnap \<lparr>mkOffset = offset, mkBooks = sbs\<rparr>) = Some data \<and> files' snapshotFile = Some data" if "err = None"
    using assms that by (cases io) (auto simp: persist_def snapshotFile_def snapshotTmp_def bind_Some_iff split: option.splits)
qed

end
