(* ===== verification/MarketService.thy ===== *)
theory MarketService
  imports MarketSnapshot
begin

text \<open>
  The market service (\<open>market/internal/service/service.go\<close>): one order book per
  symbol, driven by the commands of a Kafka partition. \<open>Run\<close> restores the books from
  the snapshot, replays the partition up to the high water mark without publishing,
  then consumes live and writes a snapshot every \<open>FlushEvery\<close> messages.

  Kafka is outside: the results of the fetch calls are a list, so a run on a list is
  the run up to the point where the next fetch blocks. What the service hands to its
  writers is recorded in \<open>published\<close>, in order. Offsets are the partition's record
  numbers, used as integers.
\<close>

section \<open>Configuration and state\<close>

record Config =
  cfgExecTopic :: string
  cfgDepthTopic :: string
  cfgFlushEvery :: int
  cfgMinBytes :: int
  cfgMaxBytes :: int
  cfgMaxWait :: int
  cfgPublisher :: bool

record publication =
  pubTopic :: string
  pubKey :: string
  pubPayload :: string

record MarketService =
  cfg :: Config
  engines :: engines
  offset :: int
  svcLive :: bool
  published :: "publication list"

text \<open>Defaults are filled in; with the test hook \<open>Publisher\<close> set the service is live at once.
  \<open>MaxWait\<close> is in nanoseconds.\<close>

definition fillDefaults :: "Config \<Rightarrow> Config" where
  "fillDefaults c =
     (let c1 = (if cfgFlushEvery c = 0 then c\<lparr>cfgFlushEvery := 1000\<rparr> else c);
          c2 = (if cfgMinBytes c1 = 0 then c1\<lparr>cfgMinBytes := 256 * 1024\<rparr> else c1);
          c3 = (if cfgMaxBytes c2 = 0 then c2\<lparr>cfgMaxBytes := 10 * 1048576\<rparr> else c2)
      in if cfgMaxWait c3 = 0 then c3\<lparr>cfgMaxWait := 500 * 1000000\<rparr> else c3)"

definition MarketService_New :: "Config \<Rightarrow> MarketService" where
  "MarketService_New c = \<lparr>cfg = fillDefaults c, engines = Map.empty, offset = 0,
     svcLive = cfgPublisher c, published = []\<rparr>"

section \<open>Publishing\<close>

definition toProtoExecType :: "ExecType \<Rightarrow> pbExecType" where
  "toProtoExecType t = (case t of
     OrderFilled \<Rightarrow> ORDER_FILLED | OrderCancelled \<Rightarrow> ORDER_CANCELLED
   | OrderRejected \<Rightarrow> ORDER_REJECTED | _ \<Rightarrow> ORDER_ACCEPTED)"

definition toProtoRejectReason :: "RejectReason \<Rightarrow> pbRejectReason" where
  "toProtoRejectReason r = (case r of
     RejectAlreadyFilled \<Rightarrow> ORDER_ALREADY_FILLED | RejectNotFound \<Rightarrow> ORDER_NOT_FOUND
   | _ \<Rightarrow> REJECT_REASON_UNSPECIFIED)"

definition execReport :: "string \<Rightarrow> OrderEvent \<Rightarrow> ExecutionReport" where
  "execReport symbol e = \<lparr>erSymbol = symbol, erTrader = evTrader e, erOrderId = evOrderID e,
     erExecType = toProtoExecType (evType e), erQtyFilled = evQtyFilled e,
     erQtyRemaining = evQtyRemaining e,
     erFillPrice = (if 0 < length (evFills e) then ucast (mPrice (last (evFills e))) else 0),
     erMatchedAgainst = (if 0 < length (evFills e) then map mTrader (evFills e) else []),
     erRejectReason = toProtoRejectReason (evReason e)\<rparr>"

definition depthUpdate :: "string \<Rightarrow> BBOEvent \<Rightarrow> DepthUpdate" where
  "depthUpdate symbol e = \<lparr>duSymbol = symbol, duBestBid = ucast (bboBid e), duBestBidQty = bboBidQty e,
     duBestAsk = ucast (bboAsk e), duBestAskQty = bboAskQty e\<rparr>"

text \<open>\<open>publishSync\<close> and \<open>publishAsync\<close> differ in the writer only; a message that cannot be encoded
  is logged and dropped.\<close>

definition publishMsg :: "codec \<Rightarrow> MarketService \<Rightarrow> string \<Rightarrow> string \<Rightarrow> protoMsg \<Rightarrow> MarketService" where
  "publishMsg cd s topic key msg = (case encode cd msg of
     None \<Rightarrow> s
   | Some data \<Rightarrow> s\<lparr>published := published s @ [\<lparr>pubTopic = topic, pubKey = key, pubPayload = data\<rparr>]\<rparr>)"

definition publishExecReport :: "codec \<Rightarrow> MarketService \<Rightarrow> string \<Rightarrow> OrderEvent \<Rightarrow> MarketService" where
  "publishExecReport cd s symbol e = publishMsg cd s (cfgExecTopic (cfg s)) symbol (PExec (execReport symbol e))"

definition publishDepth :: "codec \<Rightarrow> MarketService \<Rightarrow> string \<Rightarrow> BBOEvent \<Rightarrow> MarketService" where
  "publishDepth cd s symbol e = publishMsg cd s (cfgDepthTopic (cfg s)) symbol (PDepth (depthUpdate symbol e))"

fun publishEvents :: "codec \<Rightarrow> MarketService \<Rightarrow> string \<Rightarrow> Event list \<Rightarrow> MarketService" where
  "publishEvents cd s symbol [] = s"
| "publishEvents cd s symbol (e # es) =
     publishEvents cd (case e of EvOrder ev \<Rightarrow> publishExecReport cd s symbol ev
                              | EvBBO ev \<Rightarrow> publishDepth cd s symbol ev) symbol es"

section \<open>Commands\<close>

definition bookFor :: "MarketService \<Rightarrow> string \<Rightarrow> MarketService \<times> OrderBook" where
  "bookFor s symbol = (case engines s symbol of
     Some eng \<Rightarrow> (s, eng)
   | None \<Rightarrow> (s\<lparr>engines := (engines s)(symbol \<mapsto> OrderBook_New)\<rparr>, OrderBook_New))"

definition toOrder :: "pbOrder \<Rightarrow> Order" where
  "toOrder q = \<lparr>oTrader = copy8 (poTrader q), oPrice = ucast (poPrice q), oSize = poSize q,
     oSide = (if poSide q = Side_SELL then Sell else Buy)\<rparr>"

definition processCommand :: "codec \<Rightarrow> MarketService \<Rightarrow> string \<Rightarrow> MarketCommand \<Rightarrow> MarketService option" where
  "processCommand cd s symbol cmd = do {
     let (s1, book) = bookFor s symbol;
     (book', events) \<leftarrow> (case cmd of
         NewOrder q \<Rightarrow> do { (b, i, es) \<leftarrow> Limit book (toOrder q); Some (b, es) }
       | CancelOrder c \<Rightarrow> Cancel book (crOrderId c)
       | CommandUnset \<Rightarrow> Some (book, []));
     let s2 = s1\<lparr>engines := (engines s1)(symbol \<mapsto> book')\<rparr>;
     Some (if \<not> svcLive s2 then s2 else publishEvents cd s2 symbol events)
   }"

record kafkaMsg =
  kmOffset :: int
  kmKey :: string
  kmValue :: string

definition dispatchMessage :: "codec \<Rightarrow> MarketService \<Rightarrow> kafkaMsg \<Rightarrow> MarketService option" where
  "dispatchMessage cd s msg = (case decodeCmd cd (kmValue msg) of
     None \<Rightarrow> Some s
   | Some cmd \<Rightarrow> processCommand cd s (kmKey msg) cmd)"

section \<open>Run\<close>

datatype fetch = Fetched kafkaMsg | FetchError bool

datatype runErr = ErrLoad | ErrSeek | ErrHWM | ErrReplayFetch | ErrFetch | ErrPersist persistErr

datatype runStatus = Running | Returned "runErr option"

text \<open>What the surroundings decide in one run: whether the snapshot can be read, the orders in
  which maps are ranged over, the outcome of every \<open>persist\<close> (by the offset it is called at),
  seeking, and the high water mark.\<close>

record runEnv =
  envReadErr :: bool
  envRestoreOrder :: "string list"
  envSeekErr :: bool
  envHWM :: "int option"
  envOrder :: "int \<Rightarrow> string list"
  envIO :: "int \<Rightarrow> persistIO"

fun restoreBooks :: "MarketService \<Rightarrow> books \<Rightarrow> string list \<Rightarrow> MarketService option" where
  "restoreBooks s books [] = Some s"
| "restoreBooks s books (symbol # symbols) =
     (case books symbol of
        None \<Rightarrow> restoreBooks s books symbols
      | Some state \<Rightarrow> do {
          let (s1, eng) = bookFor s symbol;
          eng' \<leftarrow> Restore state;
          restoreBooks (s1\<lparr>engines := (engines s1)(symbol \<mapsto> eng')\<rparr>) books symbols
        })"

definition handleMsg :: "codec \<Rightarrow> MarketService \<Rightarrow> kafkaMsg \<Rightarrow> MarketService option" where
  "handleMsg cd s msg = do { s1 \<leftarrow> dispatchMessage cd s msg; Some (s1\<lparr>offset := kmOffset msg\<rparr>) }"

type_synonym runResult = "runStatus \<times> MarketService \<times> files"

fun liveLoop :: "codec \<Rightarrow> runEnv \<Rightarrow> MarketService \<Rightarrow> files \<Rightarrow> int \<Rightarrow> fetch list \<Rightarrow> runResult option" where
  "liveLoop cd env s files msgCount [] = Some (Running, s, files)"
| "liveLoop cd env s files msgCount (FetchError cancelled # fs) =
     (if cancelled
      then do {
        (files', err) \<leftarrow> persist cd (envOrder env (offset s)) (envIO env (offset s)) files (offset s) (engines s);
        Some (Returned (map_option ErrPersist err), s, files')
      }
      else Some (Returned (Some ErrFetch), s, files))"
| "liveLoop cd env s files msgCount (Fetched msg # fs) = do {
     s1 \<leftarrow> handleMsg cd s msg;
     if cfgFlushEvery (cfg s1) \<le> msgCount + 1
     then do {
       (files', err) \<leftarrow> persist cd (envOrder env (offset s1)) (envIO env (offset s1)) files (offset s1) (engines s1);
       liveLoop cd env s1 files' 0 fs
     }
     else liveLoop cd env s1 files (msgCount + 1) fs
   }"

fun replayLoop :: "codec \<Rightarrow> runEnv \<Rightarrow> int \<Rightarrow> MarketService \<Rightarrow> files \<Rightarrow> fetch list \<Rightarrow> runResult option" where
  "replayLoop cd env hwm s files fs =
     (if offset s + 1 < hwm
      then (case fs of
          [] \<Rightarrow> Some (Running, s, files)
        | FetchError _ # _ \<Rightarrow> Some (Returned (Some ErrReplayFetch), s, files)
        | Fetched msg # fs' \<Rightarrow> do { s1 \<leftarrow> handleMsg cd s msg; replayLoop cd env hwm s1 files fs' })
      else liveLoop cd env (s\<lparr>svcLive := True\<rparr>) files 0 fs)"

declare replayLoop.simps [simp del]

definition Run :: "codec \<Rightarrow> runEnv \<Rightarrow> MarketService \<Rightarrow> files \<Rightarrow> fetch list \<Rightarrow> runResult option" where
  "Run cd env s files fs = do {
     loaded \<leftarrow> load cd (envReadErr env) files;
     case loaded of
       Inl _ \<Rightarrow> Some (Returned (Some ErrLoad), s, files)
     | Inr (off, books) \<Rightarrow> do {
         s1 \<leftarrow> restoreBooks (s\<lparr>offset := off\<rparr>) books (envRestoreOrder env);
         if envSeekErr env then Some (Returned (Some ErrSeek), s1, files)
         else case envHWM env of
           None \<Rightarrow> Some (Returned (Some ErrHWM), s1, files)
         | Some hwm \<Rightarrow> replayLoop cd env hwm s1 files fs
       }
   }"

end
