(* ===== verification/MarketRecovery.thy ===== *)
theory MarketRecovery
  imports MarketService
begin

text \<open>
  The service against its specification: a map from symbols to abstract books.
  Every step of the service returns and follows the specification, whatever the
  codec; a service restarted from a snapshot represents the same abstract books, so
  replaying the rest of the partition brings it to the state of a service that was
  never interrupted.
\<close>

section \<open>The specification\<close>

type_synonym abooks = "string \<Rightarrow> abook option"

definition toCmd :: "MarketCommand \<Rightarrow> bookCmd option" where
  "toCmd cmd = (case cmd of
     NewOrder q \<Rightarrow> Some (CmdLimit (toOrder q))
   | CancelOrder c \<Rightarrow> Some (CmdCancel (crOrderId c))
   | CommandUnset \<Rightarrow> None)"

definition abookFor :: "abooks \<Rightarrow> string \<Rightarrow> abook" where
  "abookFor A symbol = (case A symbol of None \<Rightarrow> aNew | Some a \<Rightarrow> a)"

definition specCmd :: "abooks \<Rightarrow> string \<Rightarrow> MarketCommand \<Rightarrow> abooks \<times> Event list" where
  "specCmd A symbol cmd = (case toCmd cmd of
     None \<Rightarrow> (A(symbol \<mapsto> abookFor A symbol), [])
   | Some c \<Rightarrow> (let (a, es) = specExec (abookFor A symbol) c in (A(symbol \<mapsto> a), es)))"

definition specMsg :: "codec \<Rightarrow> abooks \<Rightarrow> kafkaMsg \<Rightarrow> abooks \<times> Event list" where
  "specMsg cd A msg = (case decodeCmd cd (kmValue msg) of
     None \<Rightarrow> (A, [])
   | Some cmd \<Rightarrow> specCmd A (kmKey msg) cmd)"

text \<open>What one event becomes on the wire.\<close>

definition pubOf :: "codec \<Rightarrow> Config \<Rightarrow> string \<Rightarrow> Event \<Rightarrow> publication list" where
  "pubOf cd c symbol e = (case e of
     EvOrder ev \<Rightarrow> (case encode cd (PExec (execReport symbol ev)) of
         None \<Rightarrow> [] | Some data \<Rightarrow> [\<lparr>pubTopic = cfgExecTopic c, pubKey = symbol, pubPayload = data\<rparr>])
   | EvBBO ev \<Rightarrow> (case encode cd (PDepth (depthUpdate symbol ev)) of
         None \<Rightarrow> [] | Some data \<Rightarrow> [\<lparr>pubTopic = cfgDepthTopic c, pubKey = symbol, pubPayload = data\<rparr>]))"

definition pubsOf :: "codec \<Rightarrow> Config \<Rightarrow> string \<Rightarrow> Event list \<Rightarrow> publication list" where
  "pubsOf cd c symbol es = concat (map (pubOf cd c symbol) es)"

fun handleMsgs :: "codec \<Rightarrow> MarketService \<Rightarrow> kafkaMsg list \<Rightarrow> MarketService option" where
  "handleMsgs cd s [] = Some s"
| "handleMsgs cd s (m # ms) = do { s1 \<leftarrow> handleMsg cd s m; handleMsgs cd s1 ms }"

fun specMsgs :: "codec \<Rightarrow> Config \<Rightarrow> abooks \<Rightarrow> kafkaMsg list \<Rightarrow> abooks \<times> publication list" where
  "specMsgs cd c A [] = (A, [])"
| "specMsgs cd c A (m # ms) =
     (let (A1, es) = specMsg cd A m; (A2, ps) = specMsgs cd c A1 ms in (A2, pubsOf cd c (kmKey m) es @ ps))"

section \<open>Every step follows it\<close>

definition svcRep :: "engines \<Rightarrow> abooks \<Rightarrow> bool" where
  "svcRep E A \<longleftrightarrow> (\<forall>s. case A s of None \<Rightarrow> E s = None | Some a \<Rightarrow> (\<exists>b. E s = Some b \<and> bookInv b a))"

lemma svcRep_None: "svcRep E A \<Longrightarrow> A s = None \<longleftrightarrow> E s = None"
  by (auto simp: svcRep_def split: option.splits dest: spec [of _ s])

lemma svcRep_Some: "svcRep E A \<Longrightarrow> A s = Some a \<Longrightarrow> \<exists>b. E s = Some b \<and> bookInv b a"
  by (auto simp: svcRep_def split: option.splits dest: spec [of _ s])

lemma svcRep_upd: "svcRep E A \<Longrightarrow> bookInv b a \<Longrightarrow> svcRep (E(s \<mapsto> b)) (A(s \<mapsto> a))"
  by (auto simp: svcRep_def fun_upd_def split: option.splits)

lemma bookFor_rep:
  assumes "svcRep (engines s) A" and "bookFor s symbol = (s1, b)"
  shows "bookInv b (abookFor A symbol)" and "engines s1 = (engines s)(symbol \<mapsto> b)" and "s1 = s\<lparr>engines := engines s1\<rparr>"
proof -
  show "bookInv b (abookFor A symbol)"
    using assms(2) svcRep_None [OF assms(1), of symbol] svcRep_Some [OF assms(1), of symbol] book.new_R
    by (fastforce simp: bookFor_def abookFor_def split: option.splits)
  show "engines s1 = (engines s)(symbol \<mapsto> b)" "s1 = s\<lparr>engines := engines s1\<rparr>"
    using assms(2) by (auto simp: bookFor_def map_upd_triv split: option.splits)
qed

lemma publishEvents_eq: "publishEvents cd s symbol es = s\<lparr>published := published s @ pubsOf cd (cfg s) symbol es\<rparr>"
proof (induction es arbitrary: s)
  case (Cons e es)
  then show ?case
    by (simp add: pubsOf_def pubOf_def publishExecReport_def publishDepth_def publishMsg_def
        split: Event.split option.split)
qed (simp add: pubsOf_def)

lemma toOrder_trader [simp]: "length (oTrader (toOrder q)) = 8"
  by (simp add: toOrder_def)

lemma processCommand_rep:
  assumes "svcRep (engines s) A"
  shows "\<exists>E. processCommand cd s symbol cmd = Some (s\<lparr>engines := E, published := published s @
      (if svcLive s then pubsOf cd (cfg s) symbol (snd (specCmd A symbol cmd)) else [])\<rparr>) \<and>
    svcRep E (fst (specCmd A symbol cmd))"
proof -
  obtain s1 b where bf: "bookFor s symbol = (s1, b)" by (metis surj_pair)
  note b = bookFor_rep [OF assms bf]
  have run: "\<exists>b'. (case cmd of NewOrder q \<Rightarrow> do { (b, i, es) \<leftarrow> Limit b (toOrder q); Some (b, es) }
       | CancelOrder c \<Rightarrow> Cancel b (crOrderId c) | CommandUnset \<Rightarrow> Some (b, [])) = Some (b', snd (specCmd A symbol cmd)) \<and>
      svcRep ((engines s)(symbol \<mapsto> b')) (fst (specCmd A symbol cmd))"
  proof (cases "toCmd cmd")
    case None
    then show ?thesis
      using svcRep_upd [OF assms b(1)] by (cases cmd) (auto simp: toCmd_def specCmd_def)
  next
    case (Some c)
    then have "cmdOk c" by (cases cmd) (auto simp: toCmd_def cmdOk_def)
    from book.exec_R [OF b(1) this] obtain b' where
        "bookExec b c = Some (b', snd (specExec (abookFor A symbol) c))" "bookInv b' (fst (specExec (abookFor A symbol) c))"
      by blast
    with Some svcRep_upd [OF assms] show ?thesis
      by (cases cmd) (auto simp: toCmd_def specCmd_def bookExec_def split_beta Let_def)
  qed
  then obtain b' where "(case cmd of NewOrder q \<Rightarrow> do { (b, i, es) \<leftarrow> Limit b (toOrder q); Some (b, es) }
       | CancelOrder c \<Rightarrow> Cancel b (crOrderId c) | CommandUnset \<Rightarrow> Some (b, [])) = Some (b', snd (specCmd A symbol cmd))"
      "svcRep ((engines s)(symbol \<mapsto> b')) (fst (specCmd A symbol cmd))" by blast
  moreover have "svcLive s1 = svcLive s" "cfg s1 = cfg s" "published s1 = published s"
    by (subst b(3), simp)+
  moreover have "s1\<lparr>engines := E\<rparr> = s\<lparr>engines := E\<rparr>" for E by (subst b(3)) simp
  ultimately show ?thesis
    using bf b(2) by (auto simp: processCommand_def publishEvents_eq intro!: exI [of _ "(engines s)(symbol \<mapsto> b')"])
qed

lemma handleMsg_rep:
  assumes "svcRep (engines s) A"
  shows "\<exists>E. handleMsg cd s m = Some (s\<lparr>engines := E, offset := kmOffset m, published := published s @
      (if svcLive s then pubsOf cd (cfg s) (kmKey m) (snd (specMsg cd A m)) else [])\<rparr>) \<and>
    svcRep E (fst (specMsg cd A m))"
proof (cases "decodeCmd cd (kmValue m)")
  case None
  then have "handleMsg cd s m = Some (s\<lparr>engines := engines s, offset := kmOffset m, published := published s @ []\<rparr>)"
    by (simp add: handleMsg_def dispatchMessage_def)
  with None assms show ?thesis by (intro exI [of _ "engines s"]) (simp add: specMsg_def pubsOf_def)
next
  case (Some cmd)
  from processCommand_rep [OF assms, of cd "kmKey m" cmd] obtain E where
      "processCommand cd s (kmKey m) cmd = Some (s\<lparr>engines := E, published := published s @
        (if svcLive s then pubsOf cd (cfg s) (kmKey m) (snd (specCmd A (kmKey m) cmd)) else [])\<rparr>)"
      "svcRep E (fst (specCmd A (kmKey m) cmd))" by blast
  with Some show ?thesis
    by (intro exI [of _ E]) (simp add: handleMsg_def dispatchMessage_def specMsg_def)
qed

lemma handleMsgs_rep:
  "svcRep (engines s) A \<Longrightarrow>
   \<exists>E. handleMsgs cd s ms = Some (s\<lparr>engines := E, offset := (if ms = [] then offset s else kmOffset (last ms)),
      published := published s @ (if svcLive s then snd (specMsgs cd (cfg s) A ms) else [])\<rparr>) \<and>
    svcRep E (fst (specMsgs cd (cfg s) A ms))"
proof (induction ms arbitrary: s A)
  case Nil
  then show ?case by (intro exI [of _ "engines s"]) simp
next
  case (Cons m ms)
  from handleMsg_rep [OF Cons.prems, of cd m] obtain E where
      h: "handleMsg cd s m = Some (s\<lparr>engines := E, offset := kmOffset m, published := published s @
        (if svcLive s then pubsOf cd (cfg s) (kmKey m) (snd (specMsg cd A m)) else [])\<rparr>)"
      "svcRep E (fst (specMsg cd A m))" by blast
  let ?s1 = "s\<lparr>engines := E, offset := kmOffset m, published := published s @
        (if svcLive s then pubsOf cd (cfg s) (kmKey m) (snd (specMsg cd A m)) else [])\<rparr>"
  from Cons.IH [of ?s1 "fst (specMsg cd A m)"] h(2) obtain E' where
      "handleMsgs cd ?s1 ms = Some (?s1\<lparr>engines := E', offset := (if ms = [] then offset ?s1 else kmOffset (last ms)),
        published := published ?s1 @ (if svcLive ?s1 then snd (specMsgs cd (cfg ?s1) (fst (specMsg cd A m)) ms) else [])\<rparr>)"
      "svcRep E' (fst (specMsgs cd (cfg ?s1) (fst (specMsg cd A m)) ms))" by auto
  with h(1) show ?case by (auto simp: split_beta Let_def)
qed

section \<open>Reachable services\<close>

definition svcReachable :: "MarketService \<Rightarrow> bool" where
  "svcReachable s \<longleftrightarrow> (\<forall>symbol b. engines s symbol = Some b \<longrightarrow> reachable b)"

lemma svcReachable_rep: "svcReachable s \<Longrightarrow> \<exists>A. svcRep (engines s) A"
proof -
  assume r: "svcReachable s"
  define A where "A symbol = map_option (\<lambda>b. SOME a. bookInv b a) (engines s symbol)" for symbol
  have "bookInv b (SOME a. bookInv b a)" if "engines s symbol = Some b" for symbol b
    using r that reachable_inv someI_ex [of "bookInv b"] by (auto simp: svcReachable_def)
  then have "svcRep (engines s) A"
    by (auto simp: svcRep_def A_def split: option.splits)
  then show ?thesis by blast
qed

lemma bookFor_reachable:
  assumes "svcReachable s" and "bookFor s symbol = (s1, b)"
  shows "reachable b" and "svcReachable s1"
  using assms reach_new by (auto simp: svcReachable_def bookFor_def split: option.splits if_splits)

lemma svcReachable_upd: "svcReachable s \<Longrightarrow> reachable b \<Longrightarrow> svcReachable (s\<lparr>engines := (engines s)(symbol \<mapsto> b)\<rparr>)"
  by (auto simp: svcReachable_def split: if_splits)

lemma svcReachable_more [simp]:
  "svcReachable (s\<lparr>published := ps\<rparr>) = svcReachable s" "svcReachable (s\<lparr>offset := k\<rparr>) = svcReachable s"
  "svcReachable (s\<lparr>svcLive := l\<rparr>) = svcReachable s"
  by (simp_all add: svcReachable_def)

lemma processCommand_reachable:
  assumes "svcReachable s" and "processCommand cd s symbol cmd = Some s'"
  shows "svcReachable s'"
proof -
  obtain s1 b where bf: "bookFor s symbol = (s1, b)" by (metis surj_pair)
  note r = bookFor_reachable [OF assms(1) bf]
  from assms(2) bf obtain b' es where
      run: "(case cmd of NewOrder q \<Rightarrow> do { (b, i, es) \<leftarrow> Limit b (toOrder q); Some (b, es) }
       | CancelOrder c \<Rightarrow> Cancel b (crOrderId c) | CommandUnset \<Rightarrow> Some (b, [])) = Some (b', es)"
      and s': "s' = (let s2 = s1\<lparr>engines := (engines s1)(symbol \<mapsto> b')\<rparr> in
        if \<not> svcLive s2 then s2 else publishEvents cd s2 symbol es)"
    by (auto simp: processCommand_def bind_Some_iff Let_def)
  have "reachable b'"
    using run r(1) reach_limit [OF r(1) toOrder_trader] reach_cancel [OF r(1)]
    by (cases cmd) (auto simp: bind_Some_iff)
  with r(2) s' show ?thesis
    by (auto simp: Let_def publishEvents_eq svcReachable_upd)
qed

lemma handleMsg_reachable:
  assumes "svcReachable s" and "handleMsg cd s m = Some s'"
  shows "svcReachable s'"
  using assms processCommand_reachable
  by (auto simp: handleMsg_def dispatchMessage_def bind_Some_iff split: option.splits)

text \<open>A service whose books all represent abstract ones; every reachable service is one.\<close>

definition svcOk :: "MarketService \<Rightarrow> bool" where
  "svcOk s \<longleftrightarrow> (\<exists>A. svcRep (engines s) A)"

lemma svcReachable_ok: "svcReachable s \<Longrightarrow> svcOk s"
  using svcReachable_rep by (simp add: svcOk_def)

lemma svcOk_more [simp]:
  "svcOk (s\<lparr>published := ps\<rparr>) = svcOk s" "svcOk (s\<lparr>offset := k\<rparr>) = svcOk s" "svcOk (s\<lparr>svcLive := l\<rparr>) = svcOk s"
  by (simp_all add: svcOk_def)

lemma handleMsg_total: "svcOk s \<Longrightarrow> \<exists>s'. handleMsg cd s m = Some s' \<and> svcOk s'"
  using handleMsg_rep [of s _ cd m] by (fastforce simp: svcOk_def)

section \<open>persist and load\<close>

lemma svc_snapshots:
  assumes "svcOk s" and "engines s symbol = Some b"
  shows "\<exists>st. Snapshot b = Some st \<and> (\<forall>e\<in>set (bsOrders st). length (enTrader e) = 8)"
proof -
  from assms(1) obtain A where A: "svcRep (engines s) A" by (auto simp: svcOk_def)
  from assms(2) obtain a where "A symbol = Some a" using svcRep_None [OF A, of symbol] by auto
  with svcRep_Some [OF A] assms(2) have a: "bookInv b a" by fastforce
  with book.snapshot_R [OF a] show ?thesis by (auto simp: bookInv_def tradersOk_def aState_def)
qed

lemma svc_symbolBooks:
  assumes "svcOk s"
  shows "\<exists>sbs. symbolBooks (engines s) symbols = Some sbs \<and>
    loadBooks sbs books = Some (\<lambda>x. if x \<in> set symbols \<and> engines s x \<noteq> None then Snapshot (the (engines s x)) else books x)"
  by (rule symbolBooks_load) (rule svc_snapshots [OF assms])

lemma symbolBooks_total:
  assumes "svcOk s"
  shows "\<exists>sbs. symbolBooks (engines s) symbols = Some sbs"
  using svc_symbolBooks [OF assms] by blast

lemma persist_total:
  assumes "svcOk s"
  shows "\<exists>r. persist cd symbols io files k (engines s) = Some r"
proof -
  from symbolBooks_total [OF assms, of symbols] obtain sbs where "symbolBooks (engines s) symbols = Some sbs" by blast
  then show ?thesis
    by (auto simp: persist_def split: option.split persistIO.split)
qed

text \<open>\<open>proto.Unmarshal\<close> reads what \<open>proto.Marshal\<close> wrote.\<close>

definition codecOk :: "codec \<Rightarrow> bool" where
  "codecOk cd \<longleftrightarrow> (\<forall>snap data. encode cd (PSnap snap) = Some data \<longrightarrow> decodeSnap cd data = Some snap)"

lemma persist_load:
  assumes cd: "codecOk cd" and r: "svcOk s" and syms: "set symbols = dom (engines s)"
    and p: "persist cd symbols io files k (engines s) = Some (files', None)"
  shows "load cd False files' = Some (Inr (k, \<lambda>sym. case engines s sym of None \<Rightarrow> None | Some b \<Rightarrow> Snapshot b))"
proof -
  from persist_snapshot_file(2) [OF p] obtain sbs data where
      f: "symbolBooks (engines s) symbols = Some sbs" "files' snapshotFile = Some data"
      "encode cd (PSnap \<lparr>mkOffset = k, mkBooks = sbs\<rparr>) = Some data" by blast
  with cd have d: "decodeSnap cd data = Some \<lparr>mkOffset = k, mkBooks = sbs\<rparr>" by (auto simp: codecOk_def)
  have "loadBooks sbs Map.empty = Some (\<lambda>sym. if sym \<in> set symbols \<and> engines s sym \<noteq> None
      then Snapshot (the (engines s sym)) else None)"
    using svc_symbolBooks [OF r, of symbols Map.empty] f(1) by auto
  moreover have "(\<lambda>sym. if sym \<in> set symbols \<and> engines s sym \<noteq> None then Snapshot (the (engines s sym)) else None) =
      (\<lambda>sym. case engines s sym of None \<Rightarrow> None | Some b \<Rightarrow> Snapshot b)"
    using syms by (auto simp: fun_eq_iff split: option.split)
  ultimately show ?thesis
    using f(2) d by (simp add: load_def)
qed

lemma restoreBooks_rep:
  assumes "svcRep E A" and books: "books = (\<lambda>sym. case E sym of None \<Rightarrow> None | Some b \<Rightarrow> Snapshot b)"
  shows "svcRep (engines s) (A |` D) \<Longrightarrow>
    \<exists>E'. restoreBooks s books symbols = Some (s\<lparr>engines := E'\<rparr>) \<and> svcRep E' (A |` (D \<union> set symbols))"
proof (induction symbols arbitrary: s D)
  case Nil
  then show ?case by (intro exI [of _ "engines s"]) simp
next
  case (Cons sym symbols)
  show ?case
  proof (cases "A sym")
    case None
    then have "books sym = None" using svcRep_None [OF assms(1), of sym] books by simp
    moreover have "A |` (D \<union> set (sym # symbols)) = A |` (D \<union> set symbols)"
      using None by (auto simp: restrict_map_def fun_eq_iff)
    ultimately show ?thesis using Cons by simp
  next
    case (Some a)
    from svcRep_Some [OF assms(1) Some] obtain b where b: "E sym = Some b" "bookInv b a" by blast
    then have st: "books sym = Some (aState a)" using book.snapshot_R books by simp
    from book.restore_R [OF b(2)] obtain b' where b': "Restore (aState a) = Some b'" "bookInv b' a" by blast
    obtain s1 eng where bf: "bookFor s sym = (s1, eng)" by (metis surj_pair)
    note bb = bookFor_rep [OF Cons.prems bf]
    have s1: "s1\<lparr>engines := X\<rparr> = s\<lparr>engines := X\<rparr>" for X by (subst bb(3)) simp
    have "(A |` D)(sym \<mapsto> a) = A |` (insert sym D)"
      using Some by (auto simp: restrict_map_def fun_eq_iff)
    then have "svcRep ((engines s1)(sym \<mapsto> b')) (A |` insert sym D)"
      using svcRep_upd [OF Cons.prems b'(2), of sym] bb(2) by simp
    moreover define s2 where "s2 = s1\<lparr>engines := (engines s1)(sym \<mapsto> b')\<rparr>"
    ultimately have "svcRep (engines s2) (A |` insert sym D)" by simp
    from Cons.IH [OF this] obtain E' where
        "restoreBooks s2 books symbols = Some (s2\<lparr>engines := E'\<rparr>)" "svcRep E' (A |` (insert sym D \<union> set symbols))"
      by blast
    moreover have "restoreBooks s books (sym # symbols) = restoreBooks s2 books symbols"
      using st b'(1) bf by (simp add: s2_def)
    moreover have "s2\<lparr>engines := E'\<rparr> = s\<lparr>engines := E'\<rparr>" using s1 by (simp add: s2_def)
    ultimately show ?thesis by (intro exI [of _ E']) simp
  qed
qed

section \<open>The loops\<close>

text \<open>The messages \<open>ms\<close> are those the replay loop consumes from offset \<open>off\<close> on: it stops behind
  the last of them and not before.\<close>

definition replayed :: "int \<Rightarrow> int \<Rightarrow> kafkaMsg list \<Rightarrow> bool" where
  "replayed off hwm ms \<longleftrightarrow> (ms \<noteq> [] \<longrightarrow> off + 1 < hwm) \<and> (\<forall>m\<in>set (butlast ms). kmOffset m + 1 < hwm) \<and>
     hwm \<le> (if ms = [] then off else kmOffset (last ms)) + 1"

lemma replayLoop_all:
  assumes "replayed (offset s) hwm ms" and "svcOk s"
  shows "\<exists>s1. handleMsgs cd s ms = Some s1 \<and>
    (\<forall>fs. replayLoop cd env hwm s files (map Fetched ms @ fs) = liveLoop cd env (s1\<lparr>svcLive := True\<rparr>) files 0 fs)"
  using assms
proof (induction ms arbitrary: s)
  case Nil
  then show ?case by (subst replayLoop.simps) (simp add: replayed_def)
next
  case (Cons m ms)
  from handleMsg_total [OF Cons.prems(2), of cd m] obtain s1 where s1: "handleMsg cd s m = Some s1" "svcOk s1" by blast
  then have off: "offset s1 = kmOffset m" by (auto simp: handleMsg_def bind_Some_iff)
  have "replayed (offset s1) hwm ms"
    using Cons.prems(1) off by (cases ms) (auto simp: replayed_def)
  from Cons.IH [OF this s1(2)] s1(1) Cons.prems(1) show ?case
    by (subst replayLoop.simps) (auto simp: replayed_def)
qed

lemma liveLoop_total: "svcOk s \<Longrightarrow> \<exists>r. liveLoop cd env s files k fs = Some r"
proof (induction fs arbitrary: s files k)
  case (Cons f fs)
  show ?case
  proof (cases f)
    case (Fetched m)
    from handleMsg_total [OF Cons.prems, of cd m] obtain s1 where s1: "handleMsg cd s m = Some s1" "svcOk s1" by blast
    from persist_total [OF s1(2), of cd "envOrder env (offset s1)" "envIO env (offset s1)" files "offset s1"] obtain f' e where
        "persist cd (envOrder env (offset s1)) (envIO env (offset s1)) files (offset s1) (engines s1) = Some (f', e)" by auto
    with s1 Fetched Cons.IH [OF s1(2)] show ?thesis by simp
  next
    case (FetchError c)
    from persist_total [OF Cons.prems, of cd "envOrder env (offset s)" "envIO env (offset s)" files "offset s"] obtain f' e where
        "persist cd (envOrder env (offset s)) (envIO env (offset s)) files (offset s) (engines s) = Some (f', e)" by auto
    with FetchError show ?thesis by simp
  qed
qed simp

lemma replayLoop_total: "svcOk s \<Longrightarrow> \<exists>r. replayLoop cd env hwm s files fs = Some r"
proof (induction fs arbitrary: s)
  case Nil
  then show ?case using liveLoop_total by (subst replayLoop.simps) simp
next
  case (Cons f fs)
  show ?case
  proof (cases f)
    case (Fetched m)
    from handleMsg_total [OF Cons.prems, of cd m] obtain s1 where s1: "handleMsg cd s m = Some s1" "svcOk s1" by blast
    with Cons.IH [OF s1(2)] Fetched liveLoop_total [of "s\<lparr>svcLive := True\<rparr>" cd env files 0 "f # fs"] Cons.prems show ?thesis
      by (subst replayLoop.simps) (simp del: liveLoop.simps)
  next
    case (FetchError c)
    with liveLoop_total [of "s\<lparr>svcLive := True\<rparr>" cd env files 0 "f # fs"] Cons.prems show ?thesis
      by (subst replayLoop.simps) (simp del: liveLoop.simps)
  qed
qed

text \<open>A restart: a fresh service on the files a successful \<open>persist\<close> left.\<close>

lemma restart_rep:
  assumes cd: "codecOk cd" and r: "svcOk s" and syms: "set symbols = dom (engines s)"
    and p: "persist cd symbols io files (offset s) (engines s) = Some (files', None)"
    and env: "\<not> envReadErr env" "\<not> envSeekErr env" "envHWM env = Some hwm" "set (envRestoreOrder env) = dom (engines s)"
    and A: "svcRep (engines s) A"
  shows "\<exists>E. svcRep E A \<and> (\<forall>fs. Run cd env (MarketService_New c) files' fs =
      replayLoop cd env hwm ((MarketService_New c)\<lparr>offset := offset s, engines := E\<rparr>) files' fs)"
proof -
  let ?books = "\<lambda>sym. case engines s sym of None \<Rightarrow> None | Some b \<Rightarrow> Snapshot b"
  have l: "load cd False files' = Some (Inr (offset s, ?books))"
    using persist_load [OF cd r syms p] .
  have "svcRep (engines ((MarketService_New c)\<lparr>offset := offset s\<rparr>)) (A |` {})"
    by (simp add: svcRep_def MarketService_New_def)
  from restoreBooks_rep [OF A refl this, of "envRestoreOrder env"] obtain E where
      E: "restoreBooks ((MarketService_New c)\<lparr>offset := offset s\<rparr>) ?books (envRestoreOrder env) =
        Some ((MarketService_New c)\<lparr>offset := offset s, engines := E\<rparr>)"
      "svcRep E (A |` ({} \<union> set (envRestoreOrder env)))" by auto
  have "A |` ({} \<union> set (envRestoreOrder env)) = A"
  proof
    fix x
    show "(A |` ({} \<union> set (envRestoreOrder env))) x = A x"
      using svcRep_None [OF A, of x] env(4) by (cases "A x") (auto simp: restrict_map_def)
  qed
  with E l env show ?thesis by (auto simp: Run_def)
qed

end
