(* ===== verification/MarketProps.thy ===== *)
theory MarketProps
  imports MarketRecovery MatchProps
begin

text \<open>
  The properties of the market service: the snapshot file, recovery after a restart,
  what is published and what is not, and the conversion of incoming prices.
\<close>

section \<open>Sample data\<close>

definition bookStates :: "MarketService \<Rightarrow> books" where
  "bookStates s symbol = (case engines s symbol of None \<Rightarrow> None | Some b \<Rightarrow> Snapshot b)"

definition demoSnap :: MarketSnapshot where
  "demoSnap = \<lparr>mkOffset = 4, mkBooks = [\<lparr>sbSymbol = ''G'', sbBook = Some (marshalBookState (aState aNew))\<rparr>]\<rparr>"

definition demoPb :: pbOrder where
  "demoPb = \<lparr>poSymbol = ''G'', poTrader = ''alice'', poPrice = 100, poSize = 10, poSide = 0\<rparr>"

definition demoCodec :: codec where
  "demoCodec = \<lparr>encode = (\<lambda>msg. case msg of PSnap snap \<Rightarrow> (if snap = demoSnap then Some ''snap'' else None)
       | PExec _ \<Rightarrow> Some ''exec'' | PDepth _ \<Rightarrow> Some ''depth''),
     decodeSnap = (\<lambda>data. if data = ''snap'' then Some demoSnap else None),
     decodeCmd = (\<lambda>data. if data = ''buy'' then Some (NewOrder demoPb) else None)\<rparr>"

definition demoConfig :: Config where
  "demoConfig = \<lparr>cfgExecTopic = ''x'', cfgDepthTopic = ''d'', cfgFlushEvery = 1000, cfgMinBytes = 1,
     cfgMaxBytes = 1, cfgMaxWait = 1, cfgPublisher = False\<rparr>"

definition demoSvc :: MarketService where
  "demoSvc = \<lparr>cfg = demoConfig, engines = [''G'' \<mapsto> OrderBook_New], offset = 4, svcLive = True, published = []\<rparr>"

definition demoEnv :: runEnv where
  "demoEnv = \<lparr>envReadErr = False, envRestoreOrder = [''G''], envSeekErr = False, envHWM = Some 6,
     envOrder = (\<lambda>_. [''G'']), envIO = (\<lambda>_. IoOk)\<rparr>"

definition demoMsg :: kafkaMsg where
  "demoMsg = \<lparr>kmOffset = 5, kmKey = ''G'', kmValue = ''buy''\<rparr>"

lemma demo_codecOk: "codecOk demoCodec"
  by (simp add: codecOk_def demoCodec_def)

lemma demo_svcReachable: "svcReachable demoSvc"
  using reach_new by (simp add: svcReachable_def demoSvc_def)

lemma demo_persist:
  "persist demoCodec [''G''] IoOk Map.empty (offset demoSvc) (engines demoSvc) =
   Some (Map.empty(snapshotTmp := None, snapshotFile \<mapsto> ''snap''), None)"
  using Snapshot_rep [OF New_rep]
  by (simp add: persist_def demoSvc_def demoCodec_def demoSnap_def)

lemma svcRep_states:
  assumes "svcRep E A" and "svcRep E' A"
  shows "(case E x of None \<Rightarrow> None | Some b \<Rightarrow> Snapshot b) = (case E' x of None \<Rightarrow> None | Some b \<Rightarrow> Snapshot b)"
  using svcRep_None [OF assms(1), of x] svcRep_None [OF assms(2), of x]
    svcRep_Some [OF assms(1), of x] svcRep_Some [OF assms(2), of x] book.snapshot_R
  by (cases "A x") fastforce+

section \<open>The snapshot file\<close>

text \<open>Writing an exported book to its protobuf message and reading it back is the identity
  for every book the engine can reach; the eight byte trader and the 16 bit prices survive.\<close>

lemma book_message_roundtrip:
  assumes "reachable b" and "Snapshot b = Some st"
  shows "unmarshalBookState (marshalBookState st) = st"
proof -
  obtain a where "tradersOk a" "st = aState a" using reachable_state [OF assms] by metis
  then show ?thesis by (intro unmarshal_marshalBookState) (simp add: tradersOk_def aState_def)
qed

lemma book_message_roundtrip_demo:
  "\<exists>b st. reachable b \<and> Snapshot b = Some st \<and> bsOrders st = [submitted 1 demoBuy] \<and>
    unmarshalBookState (marshalBookState st) = st"
proof -
  from demo_book obtain b where b: "reachable b" "Snapshot b = Some (aState demoA1)" by blast
  have "bsOrders (aState demoA1) = [submitted 1 demoBuy]" by (simp add: aState_def demoA1_def)
  with book_message_roundtrip [OF b] b show ?thesis by blast
qed

text \<open>C10: persisting is all or nothing for the file a restart reads. Whatever fails (creating the
  directory, encoding, writing part of the temporary file, renaming), the old snapshot is
  intact; without a failure a restart reads back the offset and every book.\<close>

theorem persist_atomic:
  assumes "codecOk cd" and "svcReachable s" and "set symbols = dom (engines s)"
    and "persist cd symbols io files k (engines s) = Some (files', err)"
  shows "if err = None then load cd False files' = Some (Inr (k, bookStates s))
    else files' snapshotFile = files snapshotFile"
proof (cases err)
  case None
  moreover have "bookStates s = (\<lambda>sym. case engines s sym of None \<Rightarrow> None | Some b \<Rightarrow> Snapshot b)"
    by (simp add: fun_eq_iff bookStates_def)
  ultimately show ?thesis using persist_load [OF assms(1) svcReachable_ok [OF assms(2)] assms(3)] assms(4) by simp
next
  case (Some e)
  with persist_snapshot_file(1) [OF assms(4)] show ?thesis by simp
qed

theorem persist_atomic_witness:
  "codecOk demoCodec \<and> svcReachable demoSvc \<and> set [''G''] = dom (engines demoSvc) \<and>
   (\<exists>files'. persist demoCodec [''G''] IoOk Map.empty 4 (engines demoSvc) = Some (files', None) \<and>
     load demoCodec False files' = Some (Inr (4, bookStates demoSvc)))"
proof -
  have d: "set [''G''] = dom (engines demoSvc)" and o: "offset demoSvc = 4" by (simp_all add: demoSvc_def)
  show ?thesis
    using persist_atomic [OF demo_codecOk demo_svcReachable d demo_persist [unfolded o]]
      demo_codecOk demo_svcReachable d demo_persist [unfolded o] by auto
qed

section \<open>Recovery\<close>

text \<open>C11: recovery. A service that persisted its books at some offset and went on with the messages
  ms, and a fresh service started on that file which replays the same messages up to the
  high water mark, are interchangeable from there on: the restarted one becomes live at the
  same offset, has published nothing, and for every continuation publishes exactly what the
  original publishes and holds the same books.\<close>

theorem restart_recovers:
  assumes "codecOk cd" and "svcReachable s" and "svcLive s" and "set symbols = dom (engines s)"
    and "persist cd symbols io files (offset s) (engines s) = Some (files', None)"
    and "\<not> envReadErr env" and "\<not> envSeekErr env" and "envHWM env = Some hwm"
    and "set (envRestoreOrder env) = dom (engines s)" and "replayed (offset s) hwm ms"
    and "fillDefaults c = cfg s" and "\<not> cfgPublisher c"
  shows "\<exists>t r. handleMsgs cd s ms = Some t \<and> svcLive r \<and> published r = [] \<and> offset r = offset t \<and>
    (\<forall>fs. Run cd env (MarketService_New c) files' (map Fetched ms @ fs) = liveLoop cd env r files' 0 fs) \<and>
    (\<forall>ms'. \<exists>t' r' ps. handleMsgs cd t ms' = Some t' \<and> handleMsgs cd r ms' = Some r' \<and>
       published t' = published t @ ps \<and> published r' = ps \<and> bookStates r' = bookStates t')"
proof -
  from svcReachable_rep [OF assms(2)] obtain A where A: "svcRep (engines s) A" by blast
  let ?n = "\<lambda>E. (MarketService_New c)\<lparr>offset := offset s, engines := E\<rparr>"
  from restart_rep [OF assms(1) svcReachable_ok [OF assms(2)] assms(4-9) A] obtain E where
      E: "svcRep E A" and run: "\<And>fs. Run cd env (MarketService_New c) files' fs = replayLoop cd env hwm (?n E) files' fs"
    by blast
  have n: "cfg (?n E) = cfg s" "svcLive (?n E) = False" "published (?n E) = []" "offset (?n E) = offset s" "engines (?n E) = E"
    using assms(11,12) by (simp_all add: MarketService_New_def)
  have okn: "svcOk (?n E)" using E by (auto simp: svcOk_def)
  have rp: "replayed (offset (?n E)) hwm ms" using assms(10) n(4) by simp
  obtain r1 where r1: "handleMsgs cd (?n E) ms = Some r1"
      "\<And>fs. replayLoop cd env hwm (?n E) files' (map Fetched ms @ fs) = liveLoop cd env (r1\<lparr>svcLive := True\<rparr>) files' 0 fs"
    using replayLoop_all [OF rp okn] by blast
  have E1: "cfg r1 = cfg s" "published r1 = []" "offset r1 = (if ms = [] then offset s else kmOffset (last ms))"
      "svcRep (engines r1) (fst (specMsgs cd (cfg s) A ms))"
    using handleMsgs_rep [of "?n E" A cd ms] E r1(1) n by auto
  obtain t where t: "handleMsgs cd s ms = Some t" "offset t = (if ms = [] then offset s else kmOffset (last ms))"
      "cfg t = cfg s" "svcLive t" "svcRep (engines t) (fst (specMsgs cd (cfg s) A ms))"
    using handleMsgs_rep [OF A, of cd ms] assms(3) by auto
  let ?r = "r1\<lparr>svcLive := True\<rparr>"
  have r: "svcLive ?r" "published ?r = []" "offset ?r = offset t" "cfg ?r = cfg t" "svcRep (engines ?r) (fst (specMsgs cd (cfg s) A ms))"
    using E1 t by simp_all
  have "\<exists>t' r' ps. handleMsgs cd t ms' = Some t' \<and> handleMsgs cd ?r ms' = Some r' \<and>
       published t' = published t @ ps \<and> published r' = ps \<and> bookStates r' = bookStates t'" for ms'
  proof -
    obtain E2 E3 where
        "handleMsgs cd t ms' = Some (t\<lparr>engines := E2, offset := (if ms' = [] then offset t else kmOffset (last ms')),
          published := published t @ snd (specMsgs cd (cfg t) (fst (specMsgs cd (cfg s) A ms)) ms')\<rparr>)"
        "handleMsgs cd ?r ms' = Some (?r\<lparr>engines := E3, offset := (if ms' = [] then offset ?r else kmOffset (last ms')),
          published := published ?r @ snd (specMsgs cd (cfg t) (fst (specMsgs cd (cfg s) A ms)) ms')\<rparr>)"
        "svcRep E2 (fst (specMsgs cd (cfg t) (fst (specMsgs cd (cfg s) A ms)) ms'))"
        "svcRep E3 (fst (specMsgs cd (cfg t) (fst (specMsgs cd (cfg s) A ms)) ms'))"
      using handleMsgs_rep [OF t(5), of cd ms'] handleMsgs_rep [OF r(5), of cd ms'] t(4) r(1,4) by auto
    then show ?thesis
      using r(2) svcRep_states [of E2 _ E3] by (auto simp: bookStates_def fun_eq_iff)
  qed
  with t(1) r r1(2) run show ?thesis
    by (intro exI [of _ t] exI [of _ ?r]) auto
qed

theorem restart_recovers_witness:
  "\<exists>files' t r. persist demoCodec [''G''] IoOk Map.empty 4 (engines demoSvc) = Some (files', None) \<and>
    handleMsgs demoCodec demoSvc [demoMsg] = Some t \<and> svcLive r \<and> published r = [] \<and> offset r = offset t \<and>
    (\<forall>fs. Run demoCodec demoEnv (MarketService_New demoConfig) files' (map Fetched [demoMsg] @ fs) =
       liveLoop demoCodec demoEnv r files' 0 fs)"
proof -
  have d: "svcLive demoSvc" "set [''G''] = dom (engines demoSvc)" "set (envRestoreOrder demoEnv) = dom (engines demoSvc)"
      "\<not> envReadErr demoEnv" "\<not> envSeekErr demoEnv" "envHWM demoEnv = Some 6" "replayed (offset demoSvc) 6 [demoMsg]"
      "fillDefaults demoConfig = cfg demoSvc" "\<not> cfgPublisher demoConfig"
    by (simp_all add: demoSvc_def demoEnv_def replayed_def demoMsg_def demoConfig_def fillDefaults_def)
  have o: "offset demoSvc = 4" by (simp add: demoSvc_def)
  show ?thesis
    using restart_recovers [OF demo_codecOk demo_svcReachable d(1,2) demo_persist d(4-6,3,7-9)]
      demo_persist [unfolded o] by blast
qed

section \<open>Publishing\<close>

text \<open>C12: a message that decodes to a command changes the book of its own symbol as the engine does
  and no other; a live service publishes exactly one message per event of that command, in
  order (less those the encoder refuses), and a service that is replaying publishes none.\<close>

theorem message_effect:
  assumes "svcReachable s" and "decodeCmd cd (kmValue m) = Some cmd" and "toCmd cmd = Some c"
  shows "\<exists>b' es s'. bookExec (snd (bookFor s (kmKey m))) c = Some (b', es) \<and> handleMsg cd s m = Some s' \<and>
    engines s' = (engines s)(kmKey m \<mapsto> b') \<and> offset s' = kmOffset m \<and>
    published s' = published s @ (if svcLive s then pubsOf cd (cfg s) (kmKey m) es else [])"
proof -
  obtain s1 b where bf: "bookFor s (kmKey m) = (s1, b)" by (metis surj_pair)
  from svcReachable_rep [OF assms(1)] obtain A where A: "svcRep (engines s) A" by blast
  note bb = bookFor_rep [OF A bf]
  have ok: "cmdOk c" using assms(3) by (cases cmd) (auto simp: toCmd_def cmdOk_def)
  from book.exec_R [OF bb(1) ok] obtain b' es where x: "bookExec b c = Some (b', es)" by blast
  have s1: "svcLive s1 = svcLive s" "cfg s1 = cfg s" "published s1 = published s"
    by (subst bb(3), simp)+
  have "(case cmd of NewOrder q \<Rightarrow> do { (b, i, es) \<leftarrow> Limit b (toOrder q); Some (b, es) }
       | CancelOrder c \<Rightarrow> Cancel b (crOrderId c) | CommandUnset \<Rightarrow> Some (b, [])) = Some (b', es)"
    using x assms(3) by (cases cmd) (auto simp: toCmd_def bookExec_def)
  then have "\<exists>s'. handleMsg cd s m = Some s' \<and> engines s' = (engines s)(kmKey m \<mapsto> b') \<and> offset s' = kmOffset m \<and>
      published s' = published s @ (if svcLive s then pubsOf cd (cfg s) (kmKey m) es else [])"
    using bf assms(2) bb(2) s1 by (simp add: handleMsg_def dispatchMessage_def processCommand_def publishEvents_eq)
  with x bf show ?thesis by auto
qed

theorem message_effect_witness:
  "\<exists>b' es s'. svcReachable demoSvc \<and> bookExec (snd (bookFor demoSvc ''G'')) (CmdLimit (toOrder demoPb)) = Some (b', es) \<and>
    handleMsg demoCodec demoSvc demoMsg = Some s' \<and> engines s' = [''G'' \<mapsto> b'] \<and> offset s' = 5 \<and>
    published s' = pubsOf demoCodec demoConfig ''G'' es"
proof -
  have d: "decodeCmd demoCodec (kmValue demoMsg) = Some (NewOrder demoPb)" "toCmd (NewOrder demoPb) = Some (CmdLimit (toOrder demoPb))"
    by (simp_all add: demoCodec_def demoMsg_def toCmd_def)
  show ?thesis
    using message_effect [OF demo_svcReachable d] demo_svcReachable by (auto simp: demoSvc_def demoMsg_def)
qed

text \<open>C13: the service does not panic: from any reachable state, on any sequence of fetch results
  and file system failures, the replay and live loops reach the next fetch or return.\<close>

theorem service_total:
  assumes "svcReachable s"
  shows "(\<exists>r. replayLoop cd env hwm s files fs = Some r) \<and> (\<exists>r. liveLoop cd env s files k fs = Some r) \<and>
    (\<forall>m s'. handleMsg cd s m = Some s' \<longrightarrow> svcReachable s')"
  using replayLoop_total liveLoop_total svcReachable_ok [OF assms] handleMsg_reachable [OF assms] by blast

theorem service_total_witness:
  "svcReachable demoSvc \<and> (\<exists>r. replayLoop demoCodec demoEnv 6 demoSvc Map.empty [Fetched demoMsg, FetchError True] = Some r)"
  using service_total [OF demo_svcReachable] demo_svcReachable by blast

section \<open>Divergences\<close>

text \<open>A price is not checked against the engine's 16 bits: an order is processed exactly as if
  its price had been reduced modulo 65536.\<close>

theorem price_reduced:
  "processCommand cd s symbol (NewOrder q) = processCommand cd s symbol (NewOrder (q\<lparr>poPrice := poPrice q mod 65536\<rparr>))"
proof -
  have "ucast (x mod 65536) = (ucast x :: Price)" for x :: uint32
  proof -
    have "x mod 65536 = take_bit 16 x" by (simp add: take_bit_eq_mod)
    moreover have "ucast (take_bit 16 x) = (ucast x :: Price)" by transfer simp
    ultimately show ?thesis by simp
  qed
  then show ?thesis by (simp add: processCommand_def toOrder_def)
qed

text \<open>Commands that wait in the partition when the service first starts (no snapshot yet) are
  executed during the replay, and no execution report for them is ever handed to the
  writers: the service turns live with everything executed and nothing published.\<close>

theorem backlog_unpublished:
  assumes "files snapshotFile = None" and "\<not> envReadErr env" and "\<not> envSeekErr env" and "envHWM env = Some hwm"
    and "replayed (- 1) hwm ms" and "\<not> cfgPublisher c"
  shows "\<exists>r. handleMsgs cd ((MarketService_New c)\<lparr>offset := - 1\<rparr>) ms = Some r \<and> published r = [] \<and>
    (\<forall>fs. Run cd env (MarketService_New c) files (map Fetched ms @ fs) =
       liveLoop cd env (r\<lparr>svcLive := True\<rparr>) files 0 fs)"
proof -
  let ?n = "(MarketService_New c)\<lparr>offset := - 1\<rparr>"
  have "restoreBooks s Map.empty xs = Some s" for s xs by (induction xs) simp_all
  then have run: "Run cd env (MarketService_New c) files fs = replayLoop cd env hwm ?n files fs" for fs
    using assms(1-4) by (simp add: Run_def load_def)
  have A: "svcRep (engines ?n) Map.empty" by (simp add: svcRep_def MarketService_New_def)
  have "replayed (offset ?n) hwm ms" "svcOk ?n" using assms(5) A by (auto simp: svcOk_def)
  from replayLoop_all [OF this] obtain r where r: "handleMsgs cd ?n ms = Some r"
      "\<And>fs. replayLoop cd env hwm ?n files (map Fetched ms @ fs) = liveLoop cd env (r\<lparr>svcLive := True\<rparr>) files 0 fs" by blast
  have "svcLive ?n = False" "published ?n = []" using assms(6) by (simp_all add: MarketService_New_def)
  with handleMsgs_rep [OF A, of cd ms] r(1) have "published r = []" by auto
  with r run show ?thesis by auto
qed

theorem backlog_unpublished_witness:
  "\<exists>r. handleMsgs demoCodec ((MarketService_New demoConfig)\<lparr>offset := - 1\<rparr>) [demoMsg] = Some r \<and> published r = [] \<and>
    Run demoCodec demoEnv (MarketService_New demoConfig) Map.empty [Fetched demoMsg] =
      liveLoop demoCodec demoEnv (r\<lparr>svcLive := True\<rparr>) Map.empty 0 []"
proof -
  have d: "Map.empty snapshotFile = None" "\<not> envReadErr demoEnv" "\<not> envSeekErr demoEnv" "envHWM demoEnv = Some 6"
      "replayed (- 1) 6 [demoMsg]" "\<not> cfgPublisher demoConfig"
    by (simp_all add: demoEnv_def replayed_def demoMsg_def demoConfig_def)
  from backlog_unpublished [OF d, of demoCodec] obtain r where
      "handleMsgs demoCodec ((MarketService_New demoConfig)\<lparr>offset := - 1\<rparr>) [demoMsg] = Some r" "published r = []"
      "\<And>fs. Run demoCodec demoEnv (MarketService_New demoConfig) Map.empty (map Fetched [demoMsg] @ fs) =
        liveLoop demoCodec demoEnv (r\<lparr>svcLive := True\<rparr>) Map.empty 0 fs" by blast
  from this(1,2) this(3) [of "[]"] show ?thesis by (intro exI [of _ r]) simp
qed

end
