(* ===== verification/CashierDB.thy ===== *)
theory CashierDB
  imports Prelude
begin

text \<open>
  The cashier on PostgreSQL (\<open>cashier/internal/postgres_cashier.go\<close>) over the schema
  of \<open>cashier/db/migrations\<close>. The database is a record of its three tables; the
  CHECK constraints and the BIGINT range are checked by every statement that writes
  an account. A transaction is atomic: its statements run on a copy that replaces
  the database at the commit (rows are locked from the first read on). What the
  surroundings may do to one call is an argument: any statement may fail, and a
  commit may fail before or after it took effect. What the schema refuses beyond the
  CHECK constraints (a user identifier of more than 64 characters, text that is not
  valid UTF-8) is such a failing statement. The texts of error messages are not
  modelled.
\<close>

section \<open>Tables, results, faults\<close>

record AccountSnapshot =
  snGross :: int
  snEscrowed :: int
  snIsReplay :: bool

datatype cashierErr =
    InvalidAmount | MissingKey
  | InsufficientFundsError | UnknownUserError | UnknownEscrowError
  | ConcurrentModification | DbError

type_synonym cashierResult = "cashierErr + AccountSnapshot"

record account =
  acGross :: int
  acEscrowed :: int
  acVersion :: int

record escrowEntry =
  eeUser :: string
  eeAmount :: int

record db =
  accounts :: "string \<Rightarrow> account option"
  escrowEntries :: "uint32 \<Rightarrow> escrowEntry option"
  idempotencyKeys :: "string set"

datatype stmt = StBegin | StKey | StReplay | StSelect | StUpdate | StInsert | StDelete | StFetch | StPreRead | StRollback | StCheck

datatype commitOutcome = Committed | NotCommitted | CommitUnknown

record faults =
  failing :: "stmt \<Rightarrow> bool"
  commitOut :: commitOutcome

definition noFaults :: faults where
  "noFaults = \<lparr>failing = (\<lambda>_. False), commitOut = Committed\<rparr>"

text \<open>The constraints of the table \<open>accounts\<close>.\<close>

definition accOk :: "account \<Rightarrow> bool" where
  "accOk a \<longleftrightarrow> 0 \<le> acGross a \<and> 0 \<le> acEscrowed a \<and> acEscrowed a \<le> acGross a \<and>
     acGross a \<le> int64_max \<and> in_int64 (acVersion a)"

text \<open>A statement that writes one account row, and one that writes one escrow row; \<^const>\<open>None\<close> is
  the error of a violated constraint.\<close>

definition writeAccount :: "db \<Rightarrow> string \<Rightarrow> account \<Rightarrow> db option" where
  "writeAccount d u a = (if accOk a then Some (d\<lparr>accounts := (accounts d)(u \<mapsto> a)\<rparr>) else None)"

definition snapOf :: "account \<Rightarrow> AccountSnapshot" where
  "snapOf a = \<lparr>snGross = acGross a, snEscrowed = acEscrowed a, snIsReplay = False\<rparr>"

definition commitTx :: "faults \<Rightarrow> db \<Rightarrow> db \<Rightarrow> AccountSnapshot \<Rightarrow> db \<times> cashierResult" where
  "commitTx f old new snap = (case commitOut f of
     Committed \<Rightarrow> (new, Inr snap)
   | NotCommitted \<Rightarrow> (old, Inl DbError)
   | CommitUnknown \<Rightarrow> (new, Inl DbError))"

section \<open>Shared parts\<close>

definition fetchSnapshot :: "faults \<Rightarrow> db \<Rightarrow> string \<Rightarrow> cashierResult" where
  "fetchSnapshot f d u =
     (if failing f StFetch then Inl DbError
      else case accounts d u of None \<Rightarrow> Inl DbError | Some a \<Rightarrow> Inr (snapOf a))"

definition withIdempotency ::
    "faults \<Rightarrow> db \<Rightarrow> string \<Rightarrow> string \<Rightarrow> (db \<Rightarrow> cashierErr + db \<times> AccountSnapshot) \<Rightarrow> db \<times> cashierResult" where
  "withIdempotency f d u key fn =
     (if failing f StBegin \<or> failing f StKey then (d, Inl DbError)
      else if key \<in> idempotencyKeys d
      then (if failing f StReplay then (d, Inl DbError)
            else case accounts d u of
              None \<Rightarrow> (d, Inl DbError)
            | Some a \<Rightarrow> (d, Inr ((snapOf a)\<lparr>snIsReplay := True\<rparr>)))
      else case fn (d\<lparr>idempotencyKeys := insert key (idempotencyKeys d)\<rparr>) of
          Inl e \<Rightarrow> (d, Inl e)
        | Inr (d', snap) \<Rightarrow> commitTx f d d' snap)"

text \<open>The end of the callbacks: the statement's result, then \<open>fetchSnapshot\<close> in the transaction.\<close>

definition thenFetch :: "faults \<Rightarrow> string \<Rightarrow> db option \<Rightarrow> cashierErr + db \<times> AccountSnapshot" where
  "thenFetch f u r =
     (if failing f StUpdate then Inl DbError
      else case r of
        None \<Rightarrow> Inl DbError
      | Some d \<Rightarrow> (case fetchSnapshot f d u of Inl e \<Rightarrow> Inl e | Inr snap \<Rightarrow> Inr (d, snap)))"

section \<open>The operations\<close>

definition upsertDeposit :: "db \<Rightarrow> string \<Rightarrow> int \<Rightarrow> int \<Rightarrow> db option" where
  "upsertDeposit d u gross escrowed = (case accounts d u of
     None \<Rightarrow> writeAccount d u \<lparr>acGross = gross, acEscrowed = escrowed, acVersion = 0\<rparr>
   | Some a \<Rightarrow> writeAccount d u \<lparr>acGross = acGross a + gross, acEscrowed = acEscrowed a + escrowed,
                                  acVersion = acVersion a + 1\<rparr>)"

definition pgDeposit :: "faults \<Rightarrow> db \<Rightarrow> string \<Rightarrow> string \<Rightarrow> int \<Rightarrow> db \<times> cashierResult" where
  "pgDeposit f d u key amount =
     (if amount \<le> 0 then (d, Inl InvalidAmount)
      else if key = [] then (d, Inl MissingKey)
      else withIdempotency f d u key (\<lambda>tx. thenFetch f u (upsertDeposit tx u amount 0)))"

text \<open>The conditional update \<open>WHERE user_id = $2 AND version = $3\<close>: the rows it affects.\<close>

definition updateVersioned :: "db \<Rightarrow> string \<Rightarrow> int \<Rightarrow> (account \<Rightarrow> account) \<Rightarrow> cashierErr + db" where
  "updateVersioned d u version upd = (case accounts d u of
     None \<Rightarrow> Inl ConcurrentModification
   | Some a \<Rightarrow>
       if acVersion a \<noteq> version then Inl ConcurrentModification
       else (case writeAccount d u ((upd a)\<lparr>acVersion := acVersion a + 1\<rparr>) of
           None \<Rightarrow> Inl DbError | Some d' \<Rightarrow> Inr d'))"

definition pgWithdraw :: "faults \<Rightarrow> db \<Rightarrow> string \<Rightarrow> string \<Rightarrow> int \<Rightarrow> db \<times> cashierResult" where
  "pgWithdraw f d u key amount =
     (if amount \<le> 0 then (d, Inl InvalidAmount)
      else if key = [] then (d, Inl MissingKey)
      else withIdempotency f d u key (\<lambda>tx.
        if failing f StSelect then Inl DbError
        else case accounts tx u of
          None \<Rightarrow> Inl UnknownUserError
        | Some a \<Rightarrow>
            if wrap64 (acGross a - acEscrowed a) < amount then Inl InsufficientFundsError
            else if failing f StUpdate then Inl DbError
            else (case updateVersioned tx u (acVersion a) (\<lambda>r. r\<lparr>acGross := wrap64 (acGross a - amount)\<rparr>) of
                Inl e \<Rightarrow> Inl e
              | Inr tx' \<Rightarrow> (case fetchSnapshot f tx' u of Inl e \<Rightarrow> Inl e | Inr snap \<Rightarrow> Inr (tx', snap)))))"

definition pgCheckAvailable :: "faults \<Rightarrow> db \<Rightarrow> string \<Rightarrow> cashierResult" where
  "pgCheckAvailable f d u =
     (if failing f StCheck then Inl DbError
      else case accounts d u of
        None \<Rightarrow> Inr \<lparr>snGross = 0, snEscrowed = 0, snIsReplay = False\<rparr>
      | Some a \<Rightarrow> Inr (snapOf a))"

definition pgEscrow :: "faults \<Rightarrow> db \<Rightarrow> string \<Rightarrow> uint32 \<Rightarrow> int \<Rightarrow> db \<times> cashierResult" where
  "pgEscrow f d u orderID amount =
     (if amount \<le> 0 then (d, Inl InvalidAmount)
      else if failing f StBegin \<or> failing f StSelect then (d, Inl DbError)
      else case accounts d u of
        None \<Rightarrow> (d, Inl UnknownUserError)
      | Some a \<Rightarrow>
          if wrap64 (acGross a - acEscrowed a) < amount then (d, Inl InsufficientFundsError)
          else if failing f StUpdate then (d, Inl DbError)
          else (case updateVersioned d u (acVersion a) (\<lambda>r. r\<lparr>acEscrowed := wrap64 (acEscrowed a + amount)\<rparr>) of
              Inl e \<Rightarrow> (d, Inl e)
            | Inr tx \<Rightarrow>
                if failing f StInsert then (d, Inl DbError)
                else if escrowEntries tx orderID \<noteq> None
                then (if failing f StRollback then (d, Inl DbError) else (d, pgCheckAvailable f d u))
                else commitTx f d
                  (tx\<lparr>escrowEntries := (escrowEntries tx)(orderID \<mapsto> \<lparr>eeUser = u, eeAmount = amount\<rparr>)\<rparr>)
                  \<lparr>snGross = acGross a, snEscrowed = wrap64 (acEscrowed a + amount), snIsReplay = False\<rparr>))"

text \<open>\<open>ReleaseEscrow\<close> reads the entry outside its transaction; other calls may run in between.\<close>

definition releasePreRead :: "faults \<Rightarrow> db \<Rightarrow> uint32 \<Rightarrow> cashierErr + string \<times> int" where
  "releasePreRead f d orderID =
     (if failing f StPreRead then Inl DbError
      else case escrowEntries d orderID of
        None \<Rightarrow> Inl UnknownEscrowError
      | Some e \<Rightarrow> Inr (eeUser e, eeAmount e))"

definition releaseTx :: "faults \<Rightarrow> db \<Rightarrow> uint32 \<Rightarrow> string \<Rightarrow> int \<Rightarrow> db \<times> cashierResult" where
  "releaseTx f d orderID u amount =
     (if failing f StBegin \<or> failing f StDelete then (d, Inl DbError)
      else if escrowEntries d orderID = None then (d, Inl UnknownEscrowError)
      else let tx = d\<lparr>escrowEntries := (escrowEntries d)(orderID := None)\<rparr> in
        if failing f StSelect then (d, Inl DbError)
        else case accounts tx u of
          None \<Rightarrow> (d, Inl DbError)
        | Some a \<Rightarrow>
            if failing f StUpdate then (d, Inl DbError)
            else (case updateVersioned tx u (acVersion a) (\<lambda>r. r\<lparr>acEscrowed := wrap64 (acEscrowed a - amount)\<rparr>) of
                Inl e \<Rightarrow> (d, Inl e)
              | Inr tx' \<Rightarrow> commitTx f d tx'
                  \<lparr>snGross = acGross a, snEscrowed = wrap64 (acEscrowed a - amount), snIsReplay = False\<rparr>))"

definition pgReleaseEscrow :: "faults \<Rightarrow> db \<Rightarrow> uint32 \<Rightarrow> db \<times> cashierResult" where
  "pgReleaseEscrow f d orderID = (case releasePreRead f d orderID of
     Inl e \<Rightarrow> (d, Inl e)
   | Inr (u, amount) \<Rightarrow> releaseTx f d orderID u amount)"

definition pgDepositEscrowed :: "faults \<Rightarrow> db \<Rightarrow> string \<Rightarrow> string \<Rightarrow> int \<Rightarrow> db \<times> cashierResult" where
  "pgDepositEscrowed f d u depositRef amount =
     (if amount \<le> 0 then (d, Inl InvalidAmount)
      else if depositRef = [] then (d, Inl MissingKey)
      else withIdempotency f d u depositRef (\<lambda>tx. thenFetch f u (upsertDeposit tx u amount amount)))"

definition confirmKey :: "string \<Rightarrow> string" where
  "confirmKey depositRef = ''confirm:'' @ depositRef"

definition cancelKey :: "string \<Rightarrow> string" where
  "cancelKey depositRef = ''cancel:'' @ depositRef"

definition pgConfirmDeposit :: "faults \<Rightarrow> db \<Rightarrow> string \<Rightarrow> string \<Rightarrow> int \<Rightarrow> db \<times> cashierResult" where
  "pgConfirmDeposit f d u depositRef amount =
     (if amount \<le> 0 then (d, Inl InvalidAmount)
      else if depositRef = [] then (d, Inl MissingKey)
      else withIdempotency f d u (confirmKey depositRef) (\<lambda>tx.
        case accounts tx u of
          None \<Rightarrow> Inl (if failing f StUpdate then DbError else UnknownUserError)
        | Some a \<Rightarrow> thenFetch f u (writeAccount tx u
            (a\<lparr>acEscrowed := acEscrowed a - amount, acVersion := acVersion a + 1\<rparr>))))"

definition pgCancelDeposit :: "faults \<Rightarrow> db \<Rightarrow> string \<Rightarrow> string \<Rightarrow> int \<Rightarrow> db \<times> cashierResult" where
  "pgCancelDeposit f d u depositRef amount =
     (if amount \<le> 0 then (d, Inl InvalidAmount)
      else if depositRef = [] then (d, Inl MissingKey)
      else withIdempotency f d u (cancelKey depositRef) (\<lambda>tx.
        case accounts tx u of
          None \<Rightarrow> Inl (if failing f StUpdate then DbError else InsufficientFundsError)
        | Some a \<Rightarrow>
            if acEscrowed a < amount then Inl (if failing f StUpdate then DbError else InsufficientFundsError)
            else thenFetch f u (writeAccount tx u
              (a\<lparr>acGross := acGross a - amount, acEscrowed := acEscrowed a - amount,
                 acVersion := acVersion a + 1\<rparr>))))"

section \<open>All operations as commands\<close>

datatype cashierCmd =
    CDeposit string string int | CWithdraw string string int
  | CEscrow string uint32 int | CReleaseEscrow uint32 | CCheckAvailable string
  | CDepositEscrowed string string int | CConfirmDeposit string string int | CCancelDeposit string string int

fun pgExec :: "faults \<Rightarrow> db \<Rightarrow> cashierCmd \<Rightarrow> db \<times> cashierResult" where
  "pgExec f d (CDeposit u k n) = pgDeposit f d u k n"
| "pgExec f d (CWithdraw u k n) = pgWithdraw f d u k n"
| "pgExec f d (CEscrow u i n) = pgEscrow f d u i n"
| "pgExec f d (CReleaseEscrow i) = pgReleaseEscrow f d i"
| "pgExec f d (CCheckAvailable u) = (d, pgCheckAvailable f d u)"
| "pgExec f d (CDepositEscrowed u k n) = pgDepositEscrowed f d u k n"
| "pgExec f d (CConfirmDeposit u k n) = pgConfirmDeposit f d u k n"
| "pgExec f d (CCancelDeposit u k n) = pgCancelDeposit f d u k n"

definition emptyDb :: db where
  "emptyDb = \<lparr>accounts = Map.empty, escrowEntries = Map.empty, idempotencyKeys = {}\<rparr>"

end
