(* ===== verification/CashierSpec.thy ===== *)
theory CashierSpec
  imports CashierDB
begin

text \<open>
  What the cashier promises, as one step on the tables: \<open>effect d c\<close> is the database
  after command \<open>c\<close> took effect, \<^const>\<open>None\<close> when it must not. Every operation of the
  implementation, under every pattern of faults, either leaves the database as it is
  or takes exactly this step.
\<close>

section \<open>The specification\<close>

definition bump :: "db \<Rightarrow> string \<Rightarrow> int \<Rightarrow> int \<Rightarrow> db option" where
  "bump d u dg de =
     (let a = (case accounts d u of
           None \<Rightarrow> \<lparr>acGross = dg, acEscrowed = de, acVersion = 0\<rparr>
         | Some a \<Rightarrow> \<lparr>acGross = acGross a + dg, acEscrowed = acEscrowed a + de, acVersion = acVersion a + 1\<rparr>)
      in if accOk a then Some (d\<lparr>accounts := (accounts d)(u \<mapsto> a)\<rparr>) else None)"

definition addKey :: "db \<Rightarrow> string \<Rightarrow> db" where
  "addKey d k = d\<lparr>idempotencyKeys := insert k (idempotencyKeys d)\<rparr>"

definition available :: "db \<Rightarrow> string \<Rightarrow> int option" where
  "available d u = map_option (\<lambda>a. acGross a - acEscrowed a) (accounts d u)"

fun effect :: "db \<Rightarrow> cashierCmd \<Rightarrow> db option" where
  "effect d (CDeposit u k n) =
     (if 0 < n \<and> k \<noteq> [] \<and> k \<notin> idempotencyKeys d then bump (addKey d k) u n 0 else None)"
| "effect d (CWithdraw u k n) =
     (if 0 < n \<and> k \<noteq> [] \<and> k \<notin> idempotencyKeys d
      then (case accounts d u of None \<Rightarrow> None
        | Some a \<Rightarrow> if n \<le> acGross a - acEscrowed a then bump (addKey d k) u (- n) 0 else None)
      else None)"
| "effect d (CEscrow u i n) =
     (if 0 < n \<and> escrowEntries d i = None
      then (case accounts d u of None \<Rightarrow> None
        | Some a \<Rightarrow> if n \<le> acGross a - acEscrowed a
            then bump (d\<lparr>escrowEntries := (escrowEntries d)(i \<mapsto> \<lparr>eeUser = u, eeAmount = n\<rparr>)\<rparr>) u 0 n else None)
      else None)"
| "effect d (CReleaseEscrow i) =
     (case escrowEntries d i of None \<Rightarrow> None
      | Some e \<Rightarrow> if accounts d (eeUser e) = None then None
          else bump (d\<lparr>escrowEntries := (escrowEntries d)(i := None)\<rparr>) (eeUser e) 0 (- eeAmount e))"
| "effect d (CCheckAvailable u) = None"
| "effect d (CDepositEscrowed u k n) =
     (if 0 < n \<and> k \<noteq> [] \<and> k \<notin> idempotencyKeys d then bump (addKey d k) u n n else None)"
| "effect d (CConfirmDeposit u k n) =
     (if 0 < n \<and> k \<noteq> [] \<and> confirmKey k \<notin> idempotencyKeys d \<and> accounts d u \<noteq> None
      then bump (addKey d (confirmKey k)) u 0 (- n) else None)"
| "effect d (CCancelDeposit u k n) =
     (if 0 < n \<and> k \<noteq> [] \<and> cancelKey k \<notin> idempotencyKeys d
      then (case accounts d u of None \<Rightarrow> None
        | Some a \<Rightarrow> if n \<le> acEscrowed a then bump (addKey d (cancelKey k)) u (- n) (- n) else None)
      else None)"

text \<open>The account a command is about.\<close>

definition userOf :: "db \<Rightarrow> cashierCmd \<Rightarrow> string" where
  "userOf d c = (case c of
     CDeposit u k n \<Rightarrow> u | CWithdraw u k n \<Rightarrow> u | CEscrow u i n \<Rightarrow> u
   | CReleaseEscrow i \<Rightarrow> (case escrowEntries d i of None \<Rightarrow> [] | Some e \<Rightarrow> eeUser e)
   | CCheckAvailable u \<Rightarrow> u | CDepositEscrowed u k n \<Rightarrow> u | CConfirmDeposit u k n \<Rightarrow> u | CCancelDeposit u k n \<Rightarrow> u)"

definition answer :: "db \<Rightarrow> string \<Rightarrow> AccountSnapshot" where
  "answer d u = (case accounts d u of
     None \<Rightarrow> \<lparr>snGross = 0, snEscrowed = 0, snIsReplay = False\<rparr> | Some a \<Rightarrow> snapOf a)"

text \<open>The invariant of the tables: the constraints, and every escrow entry positive and of a known user.\<close>

definition dbOk :: "db \<Rightarrow> bool" where
  "dbOk d \<longleftrightarrow> (\<forall>u a. accounts d u = Some a \<longrightarrow> accOk a) \<and>
     (\<forall>i e. escrowEntries d i = Some e \<longrightarrow> 0 < eeAmount e \<and> eeAmount e \<le> int64_max \<and> accounts d (eeUser e) \<noteq> None)"

section \<open>One step\<close>

text \<open>\<open>steps f d c x\<close>: the outcome \<open>x\<close> of a call is a stutter, or the step of the specification.\<close>

definition stepOk :: "faults \<Rightarrow> db \<Rightarrow> cashierCmd \<Rightarrow> db \<times> cashierResult \<Rightarrow> bool" where
  "stepOk f d c x \<longleftrightarrow> (case effect d c of
     None \<Rightarrow> fst x = d
   | Some d' \<Rightarrow>
       (x = (d', Inr (answer d' (userOf d c))) \<and> commitOut f = Committed) \<or>
       (x = (d', Inl DbError) \<and> commitOut f = CommitUnknown) \<or>
       (x = (d, Inl DbError) \<and> f \<noteq> noFaults))"

lemma commitTx_step:
  "effect d c = Some d' \<Longrightarrow> snap = answer d' (userOf d c) \<Longrightarrow> stepOk f d c (commitTx f d d' snap)"
  by (cases "commitOut f") (auto simp: stepOk_def commitTx_def noFaults_def)

lemma failing_fault: "failing f s \<Longrightarrow> f \<noteq> noFaults"
  by (auto simp: noFaults_def)

lemma step_fail: "failing f s \<Longrightarrow> stepOk f d c (d, Inl DbError)"
  using failing_fault by (auto simp: stepOk_def split: option.split)

lemma step_stutter: "effect d c = None \<Longrightarrow> stepOk f d c (d, r)"
  by (simp add: stepOk_def)

lemma dbOk_acc: "dbOk d \<Longrightarrow> accounts d u = Some a \<Longrightarrow> accOk a"
  by (simp add: dbOk_def)

lemma writeAccount_bump:
  "accounts d u = Some a \<Longrightarrow> writeAccount d u \<lparr>acGross = acGross a + g, acEscrowed = acEscrowed a + e, acVersion = acVersion a + 1\<rparr> = bump d u g e"
  by (simp add: writeAccount_def bump_def Let_def)

lemma upsertDeposit_bump: "upsertDeposit d u g e = bump d u g e"
  by (simp add: upsertDeposit_def bump_def writeAccount_def Let_def split: option.split)

lemma bump_account: "bump d u g e = Some d' \<Longrightarrow> \<exists>a. accounts d' u = Some a \<and> accOk a"
  by (auto simp: bump_def Let_def split: if_splits)

lemma accounts_addKey [simp]: "accounts (addKey d k) = accounts d"
  by (simp add: addKey_def)

lemma thenFetch_cases:
  assumes "r = effect d c" and "\<And>d'. r = Some d' \<Longrightarrow> accounts d' u \<noteq> None" and "userOf d c = u"
  shows "case thenFetch f u r of
    Inl e \<Rightarrow> stepOk f d c (d, Inl e)
  | Inr (d', snap) \<Rightarrow> effect d c = Some d' \<and> snap = answer d' (userOf d c)"
proof (cases r)
  case None
  with assms show ?thesis by (simp add: thenFetch_def stepOk_def)
next
  case (Some d')
  then obtain a where a: "accounts d' u = Some a" using assms(2) by blast
  show ?thesis
    using Some assms a step_fail [of f StUpdate d c] step_fail [of f StFetch d c]
    by (auto simp: thenFetch_def fetchSnapshot_def answer_def)
qed

text \<open>The wrapper: what remains is the callback on the database that has the key.\<close>

lemma withIdempotency_step:
  assumes "k \<in> idempotencyKeys d \<Longrightarrow> effect d c = None"
    and "k \<notin> idempotencyKeys d \<Longrightarrow> (case fn (addKey d k) of
        Inl e \<Rightarrow> stepOk f d c (d, Inl e)
      | Inr (d', snap) \<Rightarrow> effect d c = Some d' \<and> snap = answer d' (userOf d c))"
  shows "stepOk f d c (withIdempotency f d u k fn)"
proof (cases "failing f StBegin \<or> failing f StKey")
  case True
  then show ?thesis using step_fail by (auto simp: withIdempotency_def)
next
  case False
  show ?thesis
  proof (cases "k \<in> idempotencyKeys d")
    case True
    with False assms(1) step_stutter show ?thesis
      by (auto simp: withIdempotency_def split: option.split)
  next
    case new: False
    then have "withIdempotency f d u k fn = (case fn (addKey d k) of Inl e \<Rightarrow> (d, Inl e)
        | Inr (d', snap) \<Rightarrow> commitTx f d d' snap)"
      using False by (simp add: withIdempotency_def addKey_def)
    then show ?thesis
      using assms(2) [OF new] commitTx_step by (auto split: sum.splits prod.splits)
  qed
qed

lemma keyedFetch_step:
  assumes "k \<in> idempotencyKeys d \<Longrightarrow> effect d c = None"
    and "k \<notin> idempotencyKeys d \<Longrightarrow> res (addKey d k) = effect d c"
    and "\<And>d'. effect d c = Some d' \<Longrightarrow> accounts d' u \<noteq> None" and "userOf d c = u"
  shows "stepOk f d c (withIdempotency f d u k (\<lambda>tx. thenFetch f u (res tx)))"
  using assms(1)
proof (rule withIdempotency_step)
  assume "k \<notin> idempotencyKeys d"
  then show "case thenFetch f u (res (addKey d k)) of Inl e \<Rightarrow> stepOk f d c (d, Inl e)
      | Inr (d', snap) \<Rightarrow> effect d c = Some d' \<and> snap = answer d' (userOf d c)"
    using thenFetch_cases [of "res (addKey d k)" d c u f] assms(2-4) by simp
qed

section \<open>The operations\<close>

lemma bump_new: "bump d u g e = Some d' \<Longrightarrow> accounts d' u \<noteq> None"
  using bump_account by fastforce

lemma userOf_simps [simp]:
  "userOf d (CDeposit u k n) = u" "userOf d (CWithdraw u k n) = u" "userOf d (CEscrow u i n) = u"
  "userOf d (CCheckAvailable u) = u" "userOf d (CDepositEscrowed u k n) = u" "userOf d (CConfirmDeposit u k n) = u"
  "userOf d (CCancelDeposit u k n) = u" "escrowEntries d i = Some e \<Longrightarrow> userOf d (CReleaseEscrow i) = eeUser e"
  by (simp_all add: userOf_def)

lemma step_rejected: "effect d c = None \<Longrightarrow> fst x = d \<Longrightarrow> stepOk f d c x"
  by (simp add: stepOk_def)

lemma pgDeposit_step: "stepOk f d (CDeposit u k n) (pgDeposit f d u k n)"
proof (cases "n \<le> 0 \<or> k = []")
  case True
  then show ?thesis by (intro step_rejected) (auto simp: pgDeposit_def)
next
  case False
  then have "stepOk f d (CDeposit u k n) (withIdempotency f d u k (\<lambda>tx. thenFetch f u (upsertDeposit tx u n 0)))"
    by (intro keyedFetch_step) (auto simp: upsertDeposit_bump dest: bump_new split: if_splits)
  with False show ?thesis by (simp add: pgDeposit_def)
qed

lemma pgDepositEscrowed_step: "stepOk f d (CDepositEscrowed u k n) (pgDepositEscrowed f d u k n)"
proof (cases "n \<le> 0 \<or> k = []")
  case True
  then show ?thesis by (intro step_rejected) (auto simp: pgDepositEscrowed_def)
next
  case False
  then have "stepOk f d (CDepositEscrowed u k n) (withIdempotency f d u k (\<lambda>tx. thenFetch f u (upsertDeposit tx u n n)))"
    by (intro keyedFetch_step) (auto simp: upsertDeposit_bump dest: bump_new split: if_splits)
  with False show ?thesis by (simp add: pgDepositEscrowed_def)
qed

lemma update_bump:
  assumes "accounts d u = Some a"
  shows "writeAccount d u (a\<lparr>acEscrowed := acEscrowed a - n, acVersion := acVersion a + 1\<rparr>) = bump d u 0 (- n)"
    and "writeAccount d u (a\<lparr>acGross := acGross a - n, acEscrowed := acEscrowed a - n, acVersion := acVersion a + 1\<rparr>) = bump d u (- n) (- n)"
    and "writeAccount d u (a\<lparr>acGross := acGross a - n, acVersion := acVersion a + 1\<rparr>) = bump d u (- n) 0"
    and "writeAccount d u (a\<lparr>acEscrowed := acEscrowed a + n, acVersion := acVersion a + 1\<rparr>) = bump d u 0 n"
  using assms by (cases a; simp add: bump_def writeAccount_def Let_def)+

lemma withIdempotency_reject:
  assumes "\<And>tx. accounts tx = accounts d \<Longrightarrow> \<exists>e. fn tx = Inl e"
  shows "fst (withIdempotency f d u k fn) = d"
  using assms [of "d\<lparr>idempotencyKeys := insert k (idempotencyKeys d)\<rparr>"]
  by (auto simp: withIdempotency_def split: option.split)

lemma pgConfirmDeposit_step: "stepOk f d (CConfirmDeposit u k n) (pgConfirmDeposit f d u k n)"
proof (cases "n \<le> 0 \<or> k = []")
  case True
  then show ?thesis by (intro step_rejected) (auto simp: pgConfirmDeposit_def)
next
  case False
  show ?thesis
  proof (cases "accounts d u")
    case None
    with False show ?thesis
      by (auto simp: pgConfirmDeposit_def intro!: withIdempotency_reject step_rejected)
  next
    case (Some a)
    then have "stepOk f d (CConfirmDeposit u k n) (withIdempotency f d u (confirmKey k) (\<lambda>tx.
        thenFetch f u (writeAccount tx u (a\<lparr>acEscrowed := acEscrowed a - n, acVersion := acVersion a + 1\<rparr>))))"
      using False by (intro keyedFetch_step) (auto simp: update_bump(1) dest: bump_new split: if_splits)
    moreover have "withIdempotency f d u (confirmKey k) (\<lambda>tx. case accounts tx u of
          None \<Rightarrow> Inl (if failing f StUpdate then DbError else UnknownUserError)
        | Some a \<Rightarrow> thenFetch f u (writeAccount tx u (a\<lparr>acEscrowed := acEscrowed a - n, acVersion := acVersion a + 1\<rparr>))) =
      withIdempotency f d u (confirmKey k) (\<lambda>tx.
        thenFetch f u (writeAccount tx u (a\<lparr>acEscrowed := acEscrowed a - n, acVersion := acVersion a + 1\<rparr>)))"
      using Some by (simp add: withIdempotency_def)
    ultimately show ?thesis using False by (simp add: pgConfirmDeposit_def)
  qed
qed

lemma pgCancelDeposit_step: "stepOk f d (CCancelDeposit u k n) (pgCancelDeposit f d u k n)"
proof (cases "n \<le> 0 \<or> k = []")
  case True
  then show ?thesis by (intro step_rejected) (auto simp: pgCancelDeposit_def)
next
  case False
  show ?thesis
  proof (cases "\<exists>a. accounts d u = Some a \<and> n \<le> acEscrowed a")
    case no: False
    then show ?thesis
      using False
      by (cases "accounts d u") (auto simp: pgCancelDeposit_def intro!: withIdempotency_reject step_rejected)
  next
    case True
    then obtain a where a: "accounts d u = Some a" "n \<le> acEscrowed a" by blast
    then have "stepOk f d (CCancelDeposit u k n) (withIdempotency f d u (cancelKey k) (\<lambda>tx.
        thenFetch f u (writeAccount tx u (a\<lparr>acGross := acGross a - n, acEscrowed := acEscrowed a - n, acVersion := acVersion a + 1\<rparr>))))"
      using False by (intro keyedFetch_step) (auto simp: update_bump(2) dest: bump_new split: if_splits)
    moreover have "pgCancelDeposit f d u k n = withIdempotency f d u (cancelKey k) (\<lambda>tx.
        thenFetch f u (writeAccount tx u (a\<lparr>acGross := acGross a - n, acEscrowed := acEscrowed a - n, acVersion := acVersion a + 1\<rparr>)))"
      using False a by (simp add: pgCancelDeposit_def withIdempotency_def)
    ultimately show ?thesis by simp
  qed
qed

lemma wrap64_diff: "0 \<le> x \<Longrightarrow> x \<le> int64_max \<Longrightarrow> 0 \<le> y \<Longrightarrow> y \<le> int64_max \<Longrightarrow> wrap64 (x - y) = x - y"
  by (rule wrap64_id) (auto simp: in_int64_def int64_min_def int64_max_def)

lemma accOk_wrap:
  assumes "accOk a"
  shows "wrap64 (acGross a - acEscrowed a) = acGross a - acEscrowed a"
    and "0 \<le> n \<Longrightarrow> n \<le> acGross a - acEscrowed a \<Longrightarrow> wrap64 (acGross a - n) = acGross a - n"
    and "0 \<le> n \<Longrightarrow> n \<le> acGross a - acEscrowed a \<Longrightarrow> wrap64 (acEscrowed a + n) = acEscrowed a + n"
    and "0 \<le> n \<Longrightarrow> n \<le> int64_max \<Longrightarrow> wrap64 (acEscrowed a - n) = acEscrowed a - n"
  using assms by (auto simp: accOk_def intro!: wrap64_id simp: in_int64_def int64_min_def int64_max_def)

lemma updateVersioned_same:
  "accounts d u = Some a \<Longrightarrow> updateVersioned d u (acVersion a) upd =
    (case writeAccount d u ((upd a)\<lparr>acVersion := acVersion a + 1\<rparr>) of None \<Rightarrow> Inl DbError | Some d' \<Rightarrow> Inr d')"
  by (simp add: updateVersioned_def)

lemma pgWithdraw_step:
  assumes "dbOk d"
  shows "stepOk f d (CWithdraw u k n) (pgWithdraw f d u k n)"
proof (cases "n \<le> 0 \<or> k = []")
  case True
  then show ?thesis by (intro step_rejected) (auto simp: pgWithdraw_def)
next
  case False
  show ?thesis
  proof (cases "\<exists>a. accounts d u = Some a \<and> n \<le> acGross a - acEscrowed a")
    case no: False
    then show ?thesis
      using False accOk_wrap(1) [OF dbOk_acc [OF assms]]
      by (cases "accounts d u") (auto simp: pgWithdraw_def intro!: withIdempotency_reject step_rejected)
  next
    case True
    then obtain a where a: "accounts d u = Some a" "n \<le> acGross a - acEscrowed a" by blast
    note w = accOk_wrap [OF dbOk_acc [OF assms a(1)]]
    let ?c = "CWithdraw u k n"
    have eff: "effect d ?c = (if k \<in> idempotencyKeys d then None else bump (addKey d k) u (- n) 0)"
      using False a by simp
    show ?thesis
      unfolding pgWithdraw_def using False
    proof (simp, intro conjI impI withIdempotency_step)
      assume "k \<in> idempotencyKeys d"
      then show "effect d ?c = None" by (simp add: eff)
    next
      assume new: "k \<notin> idempotencyKeys d"
      then have b: "writeAccount (addKey d k) u (a\<lparr>acGross := acGross a - n, acVersion := acVersion a + 1\<rparr>) = effect d ?c"
        using update_bump(3) [of "addKey d k" u a n] a eff by simp
      show "case if failing f StSelect then Inl DbError else case accounts (addKey d k) u of None \<Rightarrow> Inl UnknownUserError
          | Some a \<Rightarrow> if wrap64 (acGross a - acEscrowed a) < n then Inl InsufficientFundsError
             else if failing f StUpdate then Inl DbError
             else (case updateVersioned (addKey d k) u (acVersion a) (\<lambda>r. r\<lparr>acGross := wrap64 (acGross a - n)\<rparr>) of
                 Inl e \<Rightarrow> Inl e | Inr tx' \<Rightarrow> (case fetchSnapshot f tx' u of Inl e \<Rightarrow> Inl e | Inr snap \<Rightarrow> Inr (tx', snap))) of
          Inl e \<Rightarrow> stepOk f d ?c (d, Inl e)
        | Inr (d', snap) \<Rightarrow> effect d ?c = Some d' \<and> snap = answer d' (userOf d ?c)"
        using a False w updateVersioned_same [of "addKey d k" u a] b bump_new [of "addKey d k" u "- n" 0] eff new
          step_fail [of f StSelect d ?c] step_fail [of f StUpdate d ?c] step_fail [of f StFetch d ?c]
        by (auto simp: fetchSnapshot_def answer_def stepOk_def split: option.split)
    qed
  qed
qed

lemma bump_frame:
  "bump (d\<lparr>escrowEntries := E\<rparr>) u g e = map_option (\<lambda>x. x\<lparr>escrowEntries := E\<rparr>) (bump d u g e)"
  by (auto simp: bump_def Let_def split: option.split)

lemma bump_entries: "bump d u g e = Some d' \<Longrightarrow> escrowEntries d' = escrowEntries d"
  by (auto simp: bump_def Let_def split: if_splits)

lemma bump_result:
  assumes "bump d u g e = Some d'" and "accounts d u = Some a"
  shows "answer d' u = \<lparr>snGross = acGross a + g, snEscrowed = acEscrowed a + e, snIsReplay = False\<rparr>"
  using assms by (auto simp: bump_def Let_def answer_def snapOf_def split: if_splits)

lemma pgEscrow_step:
  assumes "dbOk d"
  shows "stepOk f d (CEscrow u i n) (pgEscrow f d u i n)"
proof (cases "0 < n \<and> (\<exists>a. accounts d u = Some a \<and> n \<le> acGross a - acEscrowed a)")
  case False
  then show ?thesis
    using accOk_wrap(1) [OF dbOk_acc [OF assms]]
    by (cases "accounts d u") (auto simp: pgEscrow_def intro!: step_rejected)
next
  case True
  then obtain a where a: "0 < n" "accounts d u = Some a" "n \<le> acGross a - acEscrowed a" by blast
  note w = accOk_wrap [OF dbOk_acc [OF assms a(2)]]
  let ?c = "CEscrow u i n"
  have b: "writeAccount d u (a\<lparr>acEscrowed := wrap64 (acEscrowed a + n), acVersion := acVersion a + 1\<rparr>) = bump d u 0 n"
    using update_bump(4) [OF a(2)] w(3) [of n] a by simp
  have ac: "accOk a" using dbOk_acc [OF assms a(2)] .
  show ?thesis
  proof (cases "bump d u 0 n")
    case None
    then have "effect d ?c = None" using a by (simp add: bump_frame)
    moreover have "fst (pgEscrow f d u i n) = d"
      using None a w(1) updateVersioned_same [OF a(2)] b by (auto simp: pgEscrow_def)
    ultimately show ?thesis by (rule step_rejected)
  next
    case (Some d1)
    note snap = bump_result [OF Some a(2)] and ent = bump_entries [OF Some]
    show ?thesis
    proof (cases "escrowEntries d i")
      case None
      let ?d' = "d1\<lparr>escrowEntries := (escrowEntries d)(i \<mapsto> \<lparr>eeUser = u, eeAmount = n\<rparr>)\<rparr>"
      have eff: "effect d ?c = Some ?d'" using a None Some by (simp add: bump_frame)
      have ans: "answer ?d' u = answer d1 u" by (simp add: answer_def)
      show ?thesis
        using None Some a w updateVersioned_same [OF a(2)] b ent snap
          commitTx_step [OF eff, of "answer ?d' u" f] ans
          step_fail [of f StSelect d ?c] step_fail [of f StUpdate d ?c] step_fail [of f StBegin d ?c] step_fail [of f StInsert d ?c]
        by (auto simp: pgEscrow_def simp del: effect.simps)
    next
      case dup: (Some e)
      then have "effect d ?c = None" by simp
      moreover have "fst (pgEscrow f d u i n) = d"
        using dup Some a w updateVersioned_same [OF a(2)] b ent by (auto simp: pgEscrow_def)
      ultimately show ?thesis by (rule step_rejected)
    qed
  qed
qed

lemma releaseTx_step:
  assumes "dbOk d" and e: "escrowEntries d i = Some e"
  shows "stepOk f d (CReleaseEscrow i) (releaseTx f d i (eeUser e) (eeAmount e))"
proof -
  let ?c = "CReleaseEscrow i" and ?tx = "d\<lparr>escrowEntries := (escrowEntries d)(i := None)\<rparr>"
  from assms obtain a where a: "accounts d (eeUser e) = Some a" and n: "0 < eeAmount e" "eeAmount e \<le> int64_max"
    unfolding dbOk_def by blast
  note w = accOk_wrap [OF dbOk_acc [OF assms(1) a]]
  have b: "writeAccount ?tx (eeUser e) (a\<lparr>acEscrowed := wrap64 (acEscrowed a - eeAmount e), acVersion := acVersion a + 1\<rparr>) = effect d ?c"
    using update_bump(1) [of ?tx "eeUser e" a "eeAmount e"] w(4) [of "eeAmount e"] a n e by simp
  show ?thesis
  proof (cases "effect d ?c")
    case None
    then show ?thesis
      using a e updateVersioned_same [of ?tx "eeUser e" a] b
      by (intro step_rejected) (auto simp: releaseTx_def Let_def simp del: effect.simps)
  next
    case (Some d')
    then have "bump ?tx (eeUser e) 0 (- eeAmount e) = Some d'" using a e by simp
    from bump_result [OF this, of a] have "answer d' (userOf d ?c) =
        \<lparr>snGross = acGross a, snEscrowed = wrap64 (acEscrowed a - eeAmount e), snIsReplay = False\<rparr>"
      using a e w(4) [of "eeAmount e"] n by simp
    then show ?thesis
      using a e updateVersioned_same [of ?tx "eeUser e" a] b Some commitTx_step [OF Some, of "answer d' (userOf d ?c)" f]
        step_fail [of f StSelect d ?c] step_fail [of f StUpdate d ?c] step_fail [of f StBegin d ?c] step_fail [of f StDelete d ?c]
      by (auto simp: releaseTx_def Let_def simp del: effect.simps userOf_simps)
  qed
qed

lemma pgReleaseEscrow_step:
  assumes "dbOk d"
  shows "stepOk f d (CReleaseEscrow i) (pgReleaseEscrow f d i)"
proof (cases "escrowEntries d i")
  case None
  then show ?thesis by (intro step_rejected) (auto simp: pgReleaseEscrow_def releasePreRead_def)
next
  case (Some e)
  then show ?thesis
    using releaseTx_step [OF assms Some] step_fail [of f StPreRead d "CReleaseEscrow i"]
    by (auto simp: pgReleaseEscrow_def releasePreRead_def)
qed

lemma pgExec_step: "dbOk d \<Longrightarrow> stepOk f d c (pgExec f d c)"
  by (cases c) (simp_all add: pgDeposit_step pgWithdraw_step pgEscrow_step pgReleaseEscrow_step
      pgDepositEscrowed_step pgConfirmDeposit_step pgCancelDeposit_step step_stutter)

lemma pgExec_cases:
  assumes "dbOk d" and "pgExec f d c = (d', r)"
  shows "d' = d \<or> effect d c = Some d'"
  using pgExec_step [OF assms(1), of f c] assms(2) by (auto simp: stepOk_def split: option.splits)

section \<open>The invariant\<close>

lemma bump_dbOk:
  assumes "bump d u g e = Some d'"
    and "\<And>v a. v \<noteq> u \<Longrightarrow> accounts d v = Some a \<Longrightarrow> accOk a"
    and "\<And>i x. escrowEntries d i = Some x \<Longrightarrow> 0 < eeAmount x \<and> eeAmount x \<le> int64_max \<and> (accounts d (eeUser x) \<noteq> None \<or> eeUser x = u)"
  shows "dbOk d'"
proof -
  from assms(1) obtain a where a: "accOk a" "d' = d\<lparr>accounts := (accounts d)(u \<mapsto> a)\<rparr>"
    by (auto simp: bump_def Let_def split: if_splits)
  have "accounts d' (eeUser x) \<noteq> None" if "escrowEntries d i = Some x" for i x
    using assms(3) [OF that] a(2) by (cases "eeUser x = u") simp_all
  with a assms(2,3) show ?thesis unfolding dbOk_def by (auto split: if_splits)
qed

lemma bump_key_dbOk: "dbOk d \<Longrightarrow> bump (addKey d k) u g e = Some d' \<Longrightarrow> dbOk d'"
  by (erule bump_dbOk) (auto simp: dbOk_def addKey_def)

lemma effect_dbOk:
  assumes "dbOk d" and "effect d c = Some d'"
  shows "dbOk d'"
proof (cases c)
  case (CEscrow u i n)
  with assms obtain a where a: "0 < n" "accounts d u = Some a" "n \<le> acGross a - acEscrowed a"
      "bump (d\<lparr>escrowEntries := (escrowEntries d)(i \<mapsto> \<lparr>eeUser = u, eeAmount = n\<rparr>)\<rparr>) u 0 n = Some d'"
    by (auto split: if_splits option.splits)
  moreover have "n \<le> int64_max" using a dbOk_acc [OF assms(1) a(2)] by (auto simp: accOk_def)
  ultimately show ?thesis
    using assms(1) by (intro bump_dbOk [OF a(4)]) (auto simp: dbOk_def split: if_splits)
next
  case (CReleaseEscrow i)
  with assms obtain e where "escrowEntries d i = Some e" and
      b: "bump (d\<lparr>escrowEntries := (escrowEntries d)(i := None)\<rparr>) (eeUser e) 0 (- eeAmount e) = Some d'"
    by (auto split: if_splits option.splits)
  then show ?thesis
    using assms(1) by (intro bump_dbOk [OF b]) (auto simp: dbOk_def split: if_splits)
qed (use assms bump_key_dbOk in \<open>auto split: if_splits option.splits\<close>)

lemma pgExec_dbOk: "dbOk d \<Longrightarrow> pgExec f d c = (d', r) \<Longrightarrow> dbOk d'"
  using pgExec_cases effect_dbOk by blast

lemma emptyDb_ok: "dbOk emptyDb"
  by (simp add: dbOk_def emptyDb_def)

end
