(* ===== verification/CashierService.thy ===== *)
theory CashierService
  imports CashierSpec
begin

text \<open>
  The in-memory cashier the tests run on (\<open>cashier/internal/fake_cashier.go\<close>) and the
  gRPC service over either of them (\<open>cashier/internal/service.go\<close>). The fake holds one
  mutex per call, so each call is one step; dereferencing a missing account is a
  panic, \<^const>\<open>None\<close>.
\<close>

section \<open>FakeCashier\<close>

record fakeAccount =
  faGross :: int
  faEscrowed :: int

record fakeEscrow =
  feUser :: string
  feAmount :: int

record FakeCashier =
  fkAccounts :: "string \<Rightarrow> fakeAccount option"
  fkEscrows :: "uint32 \<Rightarrow> fakeEscrow option"
  fkKeys :: "string set"

definition NewFakeCashier :: FakeCashier where
  "NewFakeCashier = \<lparr>fkAccounts = Map.empty, fkEscrows = Map.empty, fkKeys = {}\<rparr>"

type_synonym fakeResult = "(FakeCashier \<times> cashierResult) option"

definition getOrCreate :: "FakeCashier \<Rightarrow> string \<Rightarrow> FakeCashier \<times> fakeAccount" where
  "getOrCreate k u = (case fkAccounts k u of
     Some acc \<Rightarrow> (k, acc)
   | None \<Rightarrow> (let acc = \<lparr>faGross = 0, faEscrowed = 0\<rparr> in (k\<lparr>fkAccounts := (fkAccounts k)(u \<mapsto> acc)\<rparr>, acc)))"

definition fakeSnapshot :: "fakeAccount \<Rightarrow> AccountSnapshot" where
  "fakeSnapshot acc = \<lparr>snGross = faGross acc, snEscrowed = faEscrowed acc, snIsReplay = False\<rparr>"

definition putAcc :: "FakeCashier \<Rightarrow> string \<Rightarrow> fakeAccount \<Rightarrow> FakeCashier" where
  "putAcc k u acc = k\<lparr>fkAccounts := (fkAccounts k)(u \<mapsto> acc)\<rparr>"

definition putKey :: "FakeCashier \<Rightarrow> string \<Rightarrow> FakeCashier" where
  "putKey k key = k\<lparr>fkKeys := insert key (fkKeys k)\<rparr>"

text \<open>A deduplicated call: the account as it is, created when missing.\<close>

definition fakeReplay :: "FakeCashier \<Rightarrow> string \<Rightarrow> fakeResult" where
  "fakeReplay k u = (let (k', acc) = getOrCreate k u in Some (k', Inr ((fakeSnapshot acc)\<lparr>snIsReplay := True\<rparr>)))"

definition fakeDeposit :: "FakeCashier \<Rightarrow> string \<Rightarrow> string \<Rightarrow> int \<Rightarrow> fakeResult" where
  "fakeDeposit k u key amount =
     (if amount \<le> 0 then Some (k, Inl InvalidAmount)
      else if key = [] then Some (k, Inl MissingKey)
      else if key \<in> fkKeys k then fakeReplay k u
      else let (k1, acc) = getOrCreate k u;
               acc' = acc\<lparr>faGross := wrap64 (faGross acc + amount)\<rparr>
           in Some (putKey (putAcc k1 u acc') key, Inr (fakeSnapshot acc')))"

definition fakeWithdraw :: "FakeCashier \<Rightarrow> string \<Rightarrow> string \<Rightarrow> int \<Rightarrow> fakeResult" where
  "fakeWithdraw k u key amount =
     (if amount \<le> 0 then Some (k, Inl InvalidAmount)
      else if key = [] then Some (k, Inl MissingKey)
      else if key \<in> fkKeys k
      then (case fkAccounts k u of
          None \<Rightarrow> None
        | Some acc \<Rightarrow> Some (k, Inr ((fakeSnapshot acc)\<lparr>snIsReplay := True\<rparr>)))
      else case fkAccounts k u of
          None \<Rightarrow> Some (k, Inl UnknownUserError)
        | Some acc \<Rightarrow>
            if wrap64 (faGross acc - faEscrowed acc) < amount then Some (k, Inl InsufficientFundsError)
            else let acc' = acc\<lparr>faGross := wrap64 (faGross acc - amount)\<rparr>
                 in Some (putKey (putAcc k u acc') key, Inr (fakeSnapshot acc')))"

definition fakeEscrowOp :: "FakeCashier \<Rightarrow> string \<Rightarrow> uint32 \<Rightarrow> int \<Rightarrow> fakeResult" where
  "fakeEscrowOp k u orderID amount =
     (if amount \<le> 0 then Some (k, Inl InvalidAmount)
      else if fkEscrows k orderID \<noteq> None
      then (case fkAccounts k u of None \<Rightarrow> None | Some acc \<Rightarrow> Some (k, Inr (fakeSnapshot acc)))
      else case fkAccounts k u of
          None \<Rightarrow> Some (k, Inl UnknownUserError)
        | Some acc \<Rightarrow>
            if wrap64 (faGross acc - faEscrowed acc) < amount then Some (k, Inl InsufficientFundsError)
            else let acc' = acc\<lparr>faEscrowed := wrap64 (faEscrowed acc + amount)\<rparr>;
                     k1 = putAcc k u acc'
                 in Some (k1\<lparr>fkEscrows := (fkEscrows k1)(orderID \<mapsto> \<lparr>feUser = u, feAmount = amount\<rparr>)\<rparr>,
                          Inr (fakeSnapshot acc')))"

definition fakeReleaseEscrow :: "FakeCashier \<Rightarrow> uint32 \<Rightarrow> fakeResult" where
  "fakeReleaseEscrow k orderID = (case fkEscrows k orderID of
     None \<Rightarrow> Some (k, Inl UnknownEscrowError)
   | Some e \<Rightarrow>
       let k1 = k\<lparr>fkEscrows := (fkEscrows k)(orderID := None)\<rparr> in
       (case fkAccounts k1 (feUser e) of
          None \<Rightarrow> None
        | Some acc \<Rightarrow>
            let acc' = acc\<lparr>faEscrowed := wrap64 (faEscrowed acc - feAmount e)\<rparr>
            in Some (putAcc k1 (feUser e) acc', Inr (fakeSnapshot acc'))))"

definition fakeCheckAvailable :: "FakeCashier \<Rightarrow> string \<Rightarrow> fakeResult" where
  "fakeCheckAvailable k u = (case fkAccounts k u of
     None \<Rightarrow> Some (k, Inr \<lparr>snGross = 0, snEscrowed = 0, snIsReplay = False\<rparr>)
   | Some acc \<Rightarrow> Some (k, Inr (fakeSnapshot acc)))"

definition fakeDepositEscrowed :: "FakeCashier \<Rightarrow> string \<Rightarrow> string \<Rightarrow> int \<Rightarrow> fakeResult" where
  "fakeDepositEscrowed k u depositRef amount =
     (if amount \<le> 0 then Some (k, Inl InvalidAmount)
      else if depositRef \<in> fkKeys k then fakeReplay k u
      else let (k1, acc) = getOrCreate k u;
               acc' = acc\<lparr>faGross := wrap64 (faGross acc + amount), faEscrowed := wrap64 (faEscrowed acc + amount)\<rparr>
           in Some (putKey (putAcc k1 u acc') depositRef, Inr (fakeSnapshot acc')))"

definition fakeConfirmDeposit :: "FakeCashier \<Rightarrow> string \<Rightarrow> string \<Rightarrow> int \<Rightarrow> fakeResult" where
  "fakeConfirmDeposit k u depositRef amount =
     (if amount \<le> 0 then Some (k, Inl InvalidAmount)
      else if confirmKey depositRef \<in> fkKeys k then fakeReplay k u
      else case fkAccounts k u of
          None \<Rightarrow> Some (k, Inl UnknownUserError)
        | Some acc \<Rightarrow>
            let acc' = acc\<lparr>faEscrowed := wrap64 (faEscrowed acc - amount)\<rparr>
            in Some (putKey (putAcc k u acc') (confirmKey depositRef), Inr (fakeSnapshot acc')))"

definition fakeCancelDeposit :: "FakeCashier \<Rightarrow> string \<Rightarrow> string \<Rightarrow> int \<Rightarrow> fakeResult" where
  "fakeCancelDeposit k u depositRef amount =
     (if amount \<le> 0 then Some (k, Inl InvalidAmount)
      else if cancelKey depositRef \<in> fkKeys k then fakeReplay k u
      else case fkAccounts k u of
          None \<Rightarrow> Some (k, Inl UnknownUserError)
        | Some acc \<Rightarrow>
            if faEscrowed acc < amount then Some (k, Inl InsufficientFundsError)
            else let acc' = acc\<lparr>faGross := wrap64 (faGross acc - amount), faEscrowed := wrap64 (faEscrowed acc - amount)\<rparr>
                 in Some (putKey (putAcc k u acc') (cancelKey depositRef), Inr (fakeSnapshot acc')))"

section \<open>The interface Cashier\<close>

record 'c Cashier =
  opDeposit :: "'c \<Rightarrow> string \<Rightarrow> string \<Rightarrow> int \<Rightarrow> ('c \<times> cashierResult) option"
  opWithdraw :: "'c \<Rightarrow> string \<Rightarrow> string \<Rightarrow> int \<Rightarrow> ('c \<times> cashierResult) option"
  opEscrow :: "'c \<Rightarrow> string \<Rightarrow> uint32 \<Rightarrow> int \<Rightarrow> ('c \<times> cashierResult) option"
  opReleaseEscrow :: "'c \<Rightarrow> uint32 \<Rightarrow> ('c \<times> cashierResult) option"
  opCheckAvailable :: "'c \<Rightarrow> string \<Rightarrow> ('c \<times> cashierResult) option"
  opDepositEscrowed :: "'c \<Rightarrow> string \<Rightarrow> string \<Rightarrow> int \<Rightarrow> ('c \<times> cashierResult) option"
  opConfirmDeposit :: "'c \<Rightarrow> string \<Rightarrow> string \<Rightarrow> int \<Rightarrow> ('c \<times> cashierResult) option"
  opCancelDeposit :: "'c \<Rightarrow> string \<Rightarrow> string \<Rightarrow> int \<Rightarrow> ('c \<times> cashierResult) option"

definition PostgresCashier :: "faults \<Rightarrow> db Cashier" where
  "PostgresCashier f = \<lparr>
     opDeposit = (\<lambda>d u k n. Some (pgDeposit f d u k n)),
     opWithdraw = (\<lambda>d u k n. Some (pgWithdraw f d u k n)),
     opEscrow = (\<lambda>d u i n. Some (pgEscrow f d u i n)),
     opReleaseEscrow = (\<lambda>d i. Some (pgReleaseEscrow f d i)),
     opCheckAvailable = (\<lambda>d u. Some (d, pgCheckAvailable f d u)),
     opDepositEscrowed = (\<lambda>d u k n. Some (pgDepositEscrowed f d u k n)),
     opConfirmDeposit = (\<lambda>d u k n. Some (pgConfirmDeposit f d u k n)),
     opCancelDeposit = (\<lambda>d u k n. Some (pgCancelDeposit f d u k n))\<rparr>"

definition FakeCashierOps :: "FakeCashier Cashier" where
  "FakeCashierOps = \<lparr>opDeposit = fakeDeposit, opWithdraw = fakeWithdraw, opEscrow = fakeEscrowOp,
     opReleaseEscrow = fakeReleaseEscrow, opCheckAvailable = fakeCheckAvailable,
     opDepositEscrowed = fakeDepositEscrowed, opConfirmDeposit = fakeConfirmDeposit,
     opCancelDeposit = fakeCancelDeposit\<rparr>"

section \<open>CashierService\<close>

datatype grpcCode = InvalidArgument | FailedPrecondition | NotFound | Internal

record CashierResponse =
  rspGross :: int
  rspEscrowed :: int
  rspIsReplay :: bool

definition toGRPCError :: "cashierErr \<Rightarrow> grpcCode" where
  "toGRPCError e = (case e of
     InsufficientFundsError \<Rightarrow> FailedPrecondition
   | UnknownUserError \<Rightarrow> NotFound
   | UnknownEscrowError \<Rightarrow> NotFound
   | _ \<Rightarrow> Internal)"

definition toResponse :: "cashierResult \<Rightarrow> grpcCode + CashierResponse" where
  "toResponse r = (case r of
     Inl e \<Rightarrow> Inl (toGRPCError e)
   | Inr snap \<Rightarrow> Inr \<lparr>rspGross = snGross snap, rspEscrowed = snEscrowed snap, rspIsReplay = snIsReplay snap\<rparr>)"

type_synonym 'c svcResult = "('c \<times> (grpcCode + CashierResponse)) option"

definition respond :: "('c \<times> cashierResult) option \<Rightarrow> 'c svcResult" where
  "respond x = map_option (\<lambda>(c, r). (c, toResponse r)) x"

definition svcDeposit :: "'c Cashier \<Rightarrow> 'c \<Rightarrow> string \<Rightarrow> int \<Rightarrow> string \<Rightarrow> 'c svcResult" where
  "svcDeposit cs c userId amount idempotencyKey =
     (if amount \<le> 0 then Some (c, Inl InvalidArgument)
      else if idempotencyKey = [] then Some (c, Inl InvalidArgument)
      else respond (opDeposit cs c userId idempotencyKey amount))"

definition svcWithdraw :: "'c Cashier \<Rightarrow> 'c \<Rightarrow> string \<Rightarrow> int \<Rightarrow> string \<Rightarrow> 'c svcResult" where
  "svcWithdraw cs c userId amount idempotencyKey =
     (if amount \<le> 0 then Some (c, Inl InvalidArgument)
      else if idempotencyKey = [] then Some (c, Inl InvalidArgument)
      else respond (opWithdraw cs c userId idempotencyKey amount))"

definition svcEscrow :: "'c Cashier \<Rightarrow> 'c \<Rightarrow> string \<Rightarrow> uint32 \<Rightarrow> int \<Rightarrow> 'c svcResult" where
  "svcEscrow cs c userId orderId amount =
     (if amount \<le> 0 then Some (c, Inl InvalidArgument)
      else respond (opEscrow cs c userId orderId amount))"

definition svcReleaseEscrow :: "'c Cashier \<Rightarrow> 'c \<Rightarrow> uint32 \<Rightarrow> 'c svcResult" where
  "svcReleaseEscrow cs c orderId = respond (opReleaseEscrow cs c orderId)"

definition svcCheckAvailable :: "'c Cashier \<Rightarrow> 'c \<Rightarrow> string \<Rightarrow> 'c svcResult" where
  "svcCheckAvailable cs c userId = respond (opCheckAvailable cs c userId)"

definition svcDepositEscrowed :: "'c Cashier \<Rightarrow> 'c \<Rightarrow> string \<Rightarrow> int \<Rightarrow> string \<Rightarrow> 'c svcResult" where
  "svcDepositEscrowed cs c userId amount depositRef =
     (if amount \<le> 0 then Some (c, Inl InvalidArgument)
      else if depositRef = [] then Some (c, Inl InvalidArgument)
      else respond (opDepositEscrowed cs c userId depositRef amount))"

definition svcConfirmDeposit :: "'c Cashier \<Rightarrow> 'c \<Rightarrow> string \<Rightarrow> int \<Rightarrow> string \<Rightarrow> 'c svcResult" where
  "svcConfirmDeposit cs c userId amount depositRef =
     (if amount \<le> 0 then Some (c, Inl InvalidArgument)
      else if depositRef = [] then Some (c, Inl InvalidArgument)
      else respond (opConfirmDeposit cs c userId depositRef amount))"

definition svcCancelDeposit :: "'c Cashier \<Rightarrow> 'c \<Rightarrow> string \<Rightarrow> int \<Rightarrow> string \<Rightarrow> 'c svcResult" where
  "svcCancelDeposit cs c userId amount depositRef =
     (if amount \<le> 0 then Some (c, Inl InvalidArgument)
      else if depositRef = [] then Some (c, Inl InvalidArgument)
      else respond (opCancelDeposit cs c userId depositRef amount))"

text \<open>All requests in one function.\<close>

fun svcExec :: "'c Cashier \<Rightarrow> 'c \<Rightarrow> cashierCmd \<Rightarrow> 'c svcResult" where
  "svcExec cs c (CDeposit u k n) = svcDeposit cs c u n k"
| "svcExec cs c (CWithdraw u k n) = svcWithdraw cs c u n k"
| "svcExec cs c (CEscrow u i n) = svcEscrow cs c u i n"
| "svcExec cs c (CReleaseEscrow i) = svcReleaseEscrow cs c i"
| "svcExec cs c (CCheckAvailable u) = svcCheckAvailable cs c u"
| "svcExec cs c (CDepositEscrowed u k n) = svcDepositEscrowed cs c u n k"
| "svcExec cs c (CConfirmDeposit u k n) = svcConfirmDeposit cs c u n k"
| "svcExec cs c (CCancelDeposit u k n) = svcCancelDeposit cs c u n k"

fun fakeExec :: "FakeCashier \<Rightarrow> cashierCmd \<Rightarrow> fakeResult" where
  "fakeExec s (CDeposit u k n) = fakeDeposit s u k n"
| "fakeExec s (CWithdraw u k n) = fakeWithdraw s u k n"
| "fakeExec s (CEscrow u i n) = fakeEscrowOp s u i n"
| "fakeExec s (CReleaseEscrow i) = fakeReleaseEscrow s i"
| "fakeExec s (CCheckAvailable u) = fakeCheckAvailable s u"
| "fakeExec s (CDepositEscrowed u k n) = fakeDepositEscrowed s u k n"
| "fakeExec s (CConfirmDeposit u k n) = fakeConfirmDeposit s u k n"
| "fakeExec s (CCancelDeposit u k n) = fakeCancelDeposit s u k n"

end
