(* ===== verification/CashierProps.thy ===== *)
theory CashierProps
  imports CashierService
begin

text \<open>
  The properties of the cashier. The locale \<open>retried\<close> is the contract a client that
  retries over an unreliable network relies on: a deduplicated command never takes
  effect twice, whatever fails and whatever else runs in between. It is interpreted
  on the PostgreSQL cashier under all faults.
\<close>

section \<open>Deduplicated commands\<close>

definition keyOf :: "cashierCmd \<Rightarrow> string option" where
  "keyOf c = (case c of
     CDeposit u k n \<Rightarrow> Some k | CWithdraw u k n \<Rightarrow> Some k | CDepositEscrowed u k n \<Rightarrow> Some k
   | CConfirmDeposit u k n \<Rightarrow> Some (confirmKey k) | CCancelDeposit u k n \<Rightarrow> Some (cancelKey k)
   | _ \<Rightarrow> None)"

definition recorded :: "db \<Rightarrow> cashierCmd \<Rightarrow> bool" where
  "recorded d c = (case keyOf c of None \<Rightarrow> False | Some k \<Rightarrow> k \<in> idempotencyKeys d)"

text \<open>How often \<open>c\<close> changes the state in a run; \<open>runAll\<close> is the state after it.\<close>

fun timesApplied :: "('f \<Rightarrow> 'd \<Rightarrow> 'c \<Rightarrow> 'd \<times> 'r) \<Rightarrow> 'c \<Rightarrow> 'd \<Rightarrow> ('f \<times> 'c) list \<Rightarrow> nat" where
  "timesApplied exec c d [] = 0"
| "timesApplied exec c d ((f, c') # xs) =
     (if c' = c \<and> fst (exec f d c') \<noteq> d then 1 else 0) + timesApplied exec c (fst (exec f d c')) xs"

fun runAll :: "('f \<Rightarrow> 'd \<Rightarrow> 'c \<Rightarrow> 'd \<times> 'r) \<Rightarrow> 'd \<Rightarrow> ('f \<times> 'c) list \<Rightarrow> 'd" where
  "runAll exec d [] = d"
| "runAll exec d ((f, c) # xs) = runAll exec (fst (exec f d c)) xs"

locale retried =
  fixes exec :: "'f \<Rightarrow> 'd \<Rightarrow> 'c \<Rightarrow> 'd \<times> 'r" and eff :: "'d \<Rightarrow> 'c \<Rightarrow> 'd option"
    and inv :: "'d \<Rightarrow> bool" and known :: "'d \<Rightarrow> 'c \<Rightarrow> bool" and dedup :: "'c \<Rightarrow> bool"
  assumes step: "inv d \<Longrightarrow> fst (exec f d c) = d \<or> eff d c = Some (fst (exec f d c))"
    and inv_eff: "inv d \<Longrightarrow> eff d c = Some d' \<Longrightarrow> inv d'"
    and known_eff: "known d c \<Longrightarrow> eff d c = None"
    and eff_known: "dedup c \<Longrightarrow> eff d c = Some d' \<Longrightarrow> known d' c"
    and known_mono: "known d c \<Longrightarrow> eff d c' = Some d' \<Longrightarrow> known d' c"
begin

lemma inv_step: "inv d \<Longrightarrow> inv (fst (exec f d c))"
  using step inv_eff by metis

lemma inv_runAll: "inv d \<Longrightarrow> inv (runAll exec d xs)"
proof (induction xs arbitrary: d)
  case (Cons x xs)
  then show ?case by (cases x) (simp add: inv_step)
qed simp

lemma known_step: "inv d \<Longrightarrow> known d c \<Longrightarrow> known (fst (exec f d c')) c"
  using step known_mono by metis

lemma known_never: "inv d \<Longrightarrow> known d c \<Longrightarrow> timesApplied exec c d xs = 0"
proof (induction xs arbitrary: d)
  case (Cons x xs)
  obtain f c' where x: "x = (f, c')" by (cases x)
  have "c' = c \<Longrightarrow> fst (exec f d c') = d"
    using step [OF Cons.prems(1), of f c'] known_eff [OF Cons.prems(2)] by auto
  with x Cons.IH [OF inv_step [OF Cons.prems(1)] known_step [OF Cons.prems]] show ?case by auto
qed simp

lemma once: "inv d \<Longrightarrow> dedup c \<Longrightarrow> timesApplied exec c d xs \<le> 1"
proof (induction xs arbitrary: d)
  case (Cons x xs)
  obtain f c' where x: "x = (f, c')" by (cases x)
  let ?d = "fst (exec f d c')"
  show ?case
  proof (cases "c' = c \<and> ?d \<noteq> d")
    case True
    then have "known ?d c"
      using step [OF Cons.prems(1), of f c'] eff_known [OF Cons.prems(2)] by auto
    then have "timesApplied exec c ?d xs = 0"
      by (rule known_never [OF inv_step [OF Cons.prems(1)]])
    with x True show ?thesis by simp
  next
    case False
    with x Cons.IH [OF inv_step [OF Cons.prems(1), of f c'] Cons.prems(2)] show ?thesis by auto
  qed
qed simp

text \<open>Attempts of one command only: after any of them the state is the old or the new one.\<close>

lemma attempts_known:
  assumes "inv d" and "known d c"
  shows "runAll exec d (map (\<lambda>f. (f, c)) fs) = d"
proof (induction fs)
  case (Cons f fs)
  have "fst (exec f d c) = d"
    using step [OF assms(1), of f c] known_eff [OF assms(2)] by auto
  with Cons show ?case by simp
qed simp

lemma attempts:
  "inv d \<Longrightarrow> dedup c \<Longrightarrow> eff d c = Some d' \<Longrightarrow> runAll exec d (map (\<lambda>f. (f, c)) fs) \<in> {d, d'}"
proof (induction fs)
  case (Cons f fs)
  have "runAll exec d' (map (\<lambda>f. (f, c)) fs) = d'"
    by (rule attempts_known [OF inv_eff [OF Cons.prems(1,3)] eff_known [OF Cons.prems(2,3)]])
  with Cons step [OF Cons.prems(1), of f c] show ?case by auto
qed simp

end

lemma bump_keys: "bump d u g e = Some d' \<Longrightarrow> idempotencyKeys d' = idempotencyKeys d"
  by (auto simp: bump_def Let_def split: if_splits)

lemma keys_addKey [simp]: "idempotencyKeys (addKey d k) = insert k (idempotencyKeys d)"
  by (simp add: addKey_def)

lemma effect_keys:
  assumes "effect d c = Some d'"
  shows "idempotencyKeys d' = (case keyOf c of None \<Rightarrow> idempotencyKeys d | Some k \<Rightarrow> insert k (idempotencyKeys d))"
  using assms by (cases c) (auto simp: keyOf_def dest: bump_keys split: if_splits option.splits)

interpretation cashier: retried pgExec effect dbOk recorded "\<lambda>c. keyOf c \<noteq> None"
proof
  show "fst (pgExec f d c) = d \<or> effect d c = Some (fst (pgExec f d c))" if "dbOk d" for d f c
    using pgExec_cases [OF that, of f c] by (metis prod.collapse)
  show "dbOk d'" if "dbOk d" "effect d c = Some d'" for d c d'
    using that by (rule effect_dbOk)
  show "effect d c = None" if "recorded d c" for d c
    using that by (cases c) (auto simp: recorded_def keyOf_def)
  show "recorded d' c" if "keyOf c \<noteq> None" "effect d c = Some d'" for c d d'
    using that effect_keys [OF that(2)] by (auto simp: recorded_def)
  show "recorded d' c" if "recorded d c" "effect d c' = Some d'" for d c c' d'
    using that(1) effect_keys [OF that(2)] by (auto simp: recorded_def split: option.splits)
qed

section \<open>Sample data\<close>

definition demoCmds :: "cashierCmd list" where
  "demoCmds = [CDeposit ''ann'' ''k1'' 100, CEscrow ''ann'' 7 60, CWithdraw ''ann'' ''k2'' 40]"

definition demoDb :: db where
  "demoDb = runAll pgExec emptyDb [(noFaults, CDeposit ''ann'' ''k1'' 100)]"

definition lostCommit :: faults where
  "lostCommit = \<lparr>failing = (\<lambda>_. False), commitOut = CommitUnknown\<rparr>"

lemma demoDb_eq: "demoDb = \<lparr>accounts = [''ann'' \<mapsto> \<lparr>acGross = 100, acEscrowed = 0, acVersion = 0\<rparr>],
    escrowEntries = Map.empty, idempotencyKeys = {''k1''}\<rparr>"
  by (simp add: demoDb_def emptyDb_def pgDeposit_def withIdempotency_def noFaults_def thenFetch_def upsertDeposit_def
      writeAccount_def accOk_def int64_max_def in_int64_def int64_min_def fetchSnapshot_def commitTx_def)

lemma demoDb_ok: "dbOk demoDb"
  unfolding demoDb_def by (rule cashier.inv_runAll [OF emptyDb_ok])

text \<open>An order number released and escrowed again by another user.\<close>

definition raceBefore :: db where
  "raceBefore = runAll pgExec emptyDb (map (Pair noFaults)
     [CDeposit ''ann'' ''k1'' 100, CDeposit ''bob'' ''k2'' 10, CEscrow ''ann'' 7 60])"

definition raceAfter :: db where
  "raceAfter = runAll pgExec raceBefore (map (Pair noFaults)
     [CReleaseEscrow 7, CEscrow ''bob'' 7 10, CEscrow ''ann'' 8 80])"

lemmas demo_simps = emptyDb_def pgDeposit_def pgEscrow_def pgReleaseEscrow_def releasePreRead_def releaseTx_def withIdempotency_def
  noFaults_def thenFetch_def upsertDeposit_def updateVersioned_def writeAccount_def accOk_def int64_max_def in_int64_def
  int64_min_def fetchSnapshot_def commitTx_def wrap64_def

lemma raceBefore_eq: "raceBefore = \<lparr>accounts = [''ann'' \<mapsto> \<lparr>acGross = 100, acEscrowed = 60, acVersion = 1\<rparr>,
      ''bob'' \<mapsto> \<lparr>acGross = 10, acEscrowed = 0, acVersion = 0\<rparr>],
    escrowEntries = [7 \<mapsto> \<lparr>eeUser = ''ann'', eeAmount = 60\<rparr>], idempotencyKeys = {''k1'', ''k2''}\<rparr>"
  by (simp add: raceBefore_def demo_simps fun_upd_twist insert_commute)

lemma raceAfter_eq: "raceAfter = \<lparr>accounts = [''ann'' \<mapsto> \<lparr>acGross = 100, acEscrowed = 80, acVersion = 3\<rparr>,
      ''bob'' \<mapsto> \<lparr>acGross = 10, acEscrowed = 10, acVersion = 1\<rparr>],
    escrowEntries = [7 \<mapsto> \<lparr>eeUser = ''bob'', eeAmount = 10\<rparr>, 8 \<mapsto> \<lparr>eeUser = ''ann'', eeAmount = 80\<rparr>],
    idempotencyKeys = {''k1'', ''k2''}\<rparr>"
  by (simp add: raceAfter_def raceBefore_eq demo_simps fun_upd_twist insert_commute)

lemma raceAfter_ok: "dbOk raceAfter"
  unfolding raceAfter_def raceBefore_def by (intro cashier.inv_runAll emptyDb_ok)

section \<open>Refinement and solvency\<close>

text \<open>C14: every operation of the cashier on PostgreSQL is one step of the specification or none: where
  the specification refuses the command the database is untouched; where it allows it, the
  call either takes exactly that step and answers with the balances it leaves, or reports a
  database error, with the step taken only if the commit was ambiguous; and without faults
  the step is taken.\<close>

theorem cashier_refines:
  assumes "dbOk d"
  shows "stepOk f d c (pgExec f d c)"
  using assms by (rule pgExec_step)

theorem cashier_refines_witness:
  "dbOk demoDb \<and> effect demoDb (CWithdraw ''ann'' ''k2'' 40) \<noteq> None \<and>
   stepOk noFaults demoDb (CWithdraw ''ann'' ''k2'' 40) (pgExec noFaults demoDb (CWithdraw ''ann'' ''k2'' 40))"
  using cashier_refines [OF demoDb_ok, of noFaults "CWithdraw ''ann'' ''k2'' 40"] demoDb_ok
  by (simp add: demoDb_eq bump_def accOk_def int64_max_def in_int64_def int64_min_def addKey_def)


section \<open>Retries\<close>

text \<open>C16: a command with an idempotency key takes effect at most once, in any run: retried any number
  of times, after failed statements, lost or ambiguous commits, and with any other commands
  in between.\<close>

theorem at_most_once:
  assumes "dbOk d" and "keyOf c \<noteq> None"
  shows "timesApplied pgExec c d xs \<le> 1"
  using assms by (rule cashier.once)

theorem at_most_once_witness:
  "dbOk emptyDb \<and> keyOf (CDeposit ''ann'' ''k1'' 100) \<noteq> None \<and>
   timesApplied pgExec (CDeposit ''ann'' ''k1'' 100) emptyDb
     [(lostCommit, CDeposit ''ann'' ''k1'' 100), (noFaults, CDeposit ''ann'' ''k1'' 100)] \<le> 1"
  using at_most_once [OF emptyDb_ok, of "CDeposit ''ann'' ''k1'' 100"
      "[(lostCommit, CDeposit ''ann'' ''k1'' 100), (noFaults, CDeposit ''ann'' ''k1'' 100)]"] emptyDb_ok
  by (simp add: keyOf_def)

text \<open>C17: retrying converges. When the specification allows a keyed command, then after any number of
  faulty attempts one attempt without faults leaves exactly the state after one application
  and reports its balances; the reply says whether it is a replay.\<close>

theorem retry_converges:
  assumes "dbOk d" and "keyOf c \<noteq> None" and "effect d c = Some d'"
  shows "\<exists>s. pgExec noFaults (runAll pgExec d (map (\<lambda>f. (f, c)) fs)) c = (d', Inr s) \<and>
    snGross s = snGross (answer d' (userOf d c)) \<and> snEscrowed s = snEscrowed (answer d' (userOf d c)) \<and>
    (snIsReplay s \<longleftrightarrow> runAll pgExec d (map (\<lambda>f. (f, c)) fs) = d')"
proof -
  have ne: "d' \<noteq> d"
    using cashier.eff_known [OF assms(2,3)] cashier.known_eff [of d c] assms(3) by auto
  have first: "pgExec noFaults d c = (d', Inr (answer d' (userOf d c)))"
    using pgExec_step [OF assms(1), of noFaults c] assms(3) by (auto simp: stepOk_def noFaults_def)
  obtain a where a: "accounts d' (userOf d c) = Some a"
    using assms(2,3) by (cases c) (auto simp: keyOf_def dest: bump_account split: if_splits option.splits)
  have again: "pgExec noFaults d' c = (d', Inr ((snapOf a)\<lparr>snIsReplay := True\<rparr>))"
    using a assms(2,3) effect_keys [OF assms(3)]
    by (cases c) (auto simp: keyOf_def noFaults_def withIdempotency_def pgDeposit_def pgWithdraw_def pgDepositEscrowed_def
        pgConfirmDeposit_def pgCancelDeposit_def split: if_splits option.splits)
  from cashier.attempts [OF assms] consider "runAll pgExec d (map (\<lambda>f. (f, c)) fs) = d" | "runAll pgExec d (map (\<lambda>f. (f, c)) fs) = d'"
    by auto
  then show ?thesis
    using first again a ne by cases (auto simp: answer_def snapOf_def)
qed

theorem retry_converges_witness:
  "\<exists>d' s. dbOk demoDb \<and> effect demoDb (CWithdraw ''ann'' ''k2'' 40) = Some d' \<and>
    pgExec noFaults (runAll pgExec demoDb (map (\<lambda>f. (f, CWithdraw ''ann'' ''k2'' 40)) [lostCommit, lostCommit]))
      (CWithdraw ''ann'' ''k2'' 40) = (d', Inr s)"
proof -
  obtain d' where d': "effect demoDb (CWithdraw ''ann'' ''k2'' 40) = Some d'"
    by (simp add: demoDb_eq bump_def accOk_def int64_max_def in_int64_def int64_min_def addKey_def)
  have k: "keyOf (CWithdraw ''ann'' ''k2'' 40) \<noteq> None" by (simp add: keyOf_def)
  show ?thesis using retry_converges [OF demoDb_ok k d', of "[lostCommit, lostCommit]"] d' demoDb_ok by blast
qed

section \<open>Interleaved releases\<close>

text \<open>C18: ReleaseEscrow reads the entry before its transaction, so other calls may run in between. If the
  entry is unchanged when the transaction runs, the call is one step of the specification; if it was
  released meanwhile, nothing is changed; but if the order number was escrowed again meanwhile, a
  committed release deletes the new entry and takes the old amount off the old user's escrow.\<close>

theorem release_interleaved:
  assumes "dbOk d" and "releasePreRead f d0 i = Inr (u, n)"
  shows "case escrowEntries d i of
      None \<Rightarrow> fst (releaseTx f d i u n) = d
    | Some e \<Rightarrow>
        (if eeUser e = u \<and> eeAmount e = n then stepOk f d (CReleaseEscrow i) (releaseTx f d i u n)
         else \<forall>d' s. releaseTx f d i u n = (d', Inr s) \<longrightarrow>
           escrowEntries d' i = None \<and> (\<forall>v. v \<noteq> u \<longrightarrow> accounts d' v = accounts d v) \<and>
           (\<exists>a a'. accounts d u = Some a \<and> accounts d' u = Some a' \<and>
              acGross a' = acGross a \<and> acEscrowed a' = wrap64 (acEscrowed a - n)))"
proof (cases "escrowEntries d i")
  case None
  then show ?thesis by (simp add: releaseTx_def)
next
  case (Some e)
  show ?thesis
  proof (cases "eeUser e = u \<and> eeAmount e = n")
    case True
    then show ?thesis using releaseTx_step [OF assms(1) Some, of f] Some by simp
  next
    case False
    with Some show ?thesis
      by (auto simp: releaseTx_def Let_def updateVersioned_def writeAccount_def commitTx_def
          split: if_splits option.splits commitOutcome.splits sum.splits)
  qed
qed

theorem release_interleaved_witness:
  "releasePreRead noFaults raceBefore 7 = Inr (''ann'', 60) \<and> dbOk raceAfter \<and>
   (\<exists>d' s. releaseTx noFaults raceAfter 7 ''ann'' 60 = (d', Inr s) \<and> escrowEntries d' 7 = None \<and>
      accounts d' ''bob'' = accounts raceAfter ''bob'')"
proof -
  have r: "releasePreRead noFaults raceBefore 7 = Inr (''ann'', 60)"
    by (simp add: raceBefore_eq releasePreRead_def noFaults_def)
  obtain d' s where t: "releaseTx noFaults raceAfter 7 ''ann'' 60 = (d', Inr s)"
    by (simp add: raceAfter_eq demo_simps Let_def)
  from release_interleaved [OF raceAfter_ok r] t r raceAfter_ok show ?thesis
    by (auto simp: raceAfter_eq)
qed

section \<open>The service and the in-memory cashier\<close>

definition grpcOf :: "cashierResult \<Rightarrow> grpcCode + CashierResponse" where
  "grpcOf r = (case r of Inl InvalidAmount \<Rightarrow> Inl InvalidArgument | Inl MissingKey \<Rightarrow> Inl InvalidArgument | _ \<Rightarrow> toResponse r)"

definition checked :: "cashierResult \<Rightarrow> bool" where
  "checked r = (r \<noteq> Inl InvalidAmount \<and> r \<noteq> Inl MissingKey)"

lemma grpcOf_checked: "checked r \<Longrightarrow> grpcOf r = toResponse r"
  by (auto simp: grpcOf_def checked_def split: sum.split cashierErr.split)

lemma respond_checked: "checked (snd x) \<Longrightarrow> respond (Some x) = Some (map_prod id grpcOf x)"
  by (cases x) (simp add: respond_def grpcOf_checked)

lemma checked_simps [simp]: "checked (Inr s)" "checked (Inl e) \<longleftrightarrow> e \<noteq> InvalidAmount \<and> e \<noteq> MissingKey"
  by (simp_all add: checked_def)

lemma checked_commit [simp]: "checked (snd (commitTx f d d' s))"
  by (simp add: commitTx_def split: commitOutcome.split)

lemma checked_avail [simp]: "checked (pgCheckAvailable f d u)"
  by (simp add: pgCheckAvailable_def split: option.split)

lemma checked_withIdempotency:
  assumes "\<And>tx e. fn tx = Inl e \<Longrightarrow> e \<noteq> InvalidAmount \<and> e \<noteq> MissingKey"
  shows "checked (snd (withIdempotency f d u k fn))"
  using assms by (auto simp: withIdempotency_def split: option.split sum.split)

lemma fetch_err: "fetchSnapshot f d u = Inl e \<Longrightarrow> e = DbError"
  by (auto simp: fetchSnapshot_def split: if_splits option.splits)

lemma thenFetch_err: "thenFetch f u r = Inl e \<Longrightarrow> e = DbError"
  by (auto simp: thenFetch_def dest: fetch_err split: if_splits option.splits sum.splits)

lemma updateVersioned_err: "updateVersioned d u v g = Inl e \<Longrightarrow> e = DbError \<or> e = ConcurrentModification"
  by (auto simp: updateVersioned_def split: if_splits option.splits)

lemma checked_release: "checked (snd (pgReleaseEscrow f d i))"
  by (auto simp: pgReleaseEscrow_def releasePreRead_def releaseTx_def Let_def dest: updateVersioned_err
      split: option.split sum.split)

lemma checked_escrow: "0 < n \<Longrightarrow> checked (snd (pgEscrow f d u i n))"
  by (auto simp: pgEscrow_def dest: updateVersioned_err split: option.split sum.split)

lemma checked_keyed:
  assumes "0 < n" and "k \<noteq> []"
  shows "checked (snd (pgDeposit f d u k n))" and "checked (snd (pgWithdraw f d u k n))"
    and "checked (snd (pgDepositEscrowed f d u k n))" and "checked (snd (pgConfirmDeposit f d u k n))"
    and "checked (snd (pgCancelDeposit f d u k n))"
  using assms
  by (auto simp: pgDeposit_def pgWithdraw_def pgDepositEscrowed_def pgConfirmDeposit_def pgCancelDeposit_def
      dest: thenFetch_err fetch_err updateVersioned_err
      intro!: checked_withIdempotency split: option.splits if_splits sum.splits)

lemma svc_grpc: "svcExec (PostgresCashier f) d c = Some (map_prod id grpcOf (pgExec f d c))"
proof (cases c)
  case (CReleaseEscrow i)
  then show ?thesis
    using checked_release by (simp add: svcReleaseEscrow_def PostgresCashier_def respond_checked)
next
  case (CCheckAvailable u)
  then show ?thesis
    by (simp add: svcCheckAvailable_def PostgresCashier_def respond_checked)
next
  case (CEscrow u i n)
  then show ?thesis
    using checked_escrow [of n f d u i]
    by (cases "0 < n") (simp_all add: svcEscrow_def PostgresCashier_def respond_checked pgEscrow_def grpcOf_def)
next
  case (CDeposit u k n)
  then show ?thesis
    using checked_keyed(1) [of n k f d u]
    by (cases "0 < n \<and> k \<noteq> []") (auto simp: svcDeposit_def PostgresCashier_def respond_checked pgDeposit_def grpcOf_def)
next
  case (CWithdraw u k n)
  then show ?thesis
    using checked_keyed(2) [of n k f d u]
    by (cases "0 < n \<and> k \<noteq> []") (auto simp: svcWithdraw_def PostgresCashier_def respond_checked pgWithdraw_def grpcOf_def)
next
  case (CDepositEscrowed u k n)
  then show ?thesis
    using checked_keyed(3) [of n k f d u]
    by (cases "0 < n \<and> k \<noteq> []") (auto simp: svcDepositEscrowed_def PostgresCashier_def respond_checked pgDepositEscrowed_def grpcOf_def)
next
  case (CConfirmDeposit u k n)
  then show ?thesis
    using checked_keyed(4) [of n k f d u]
    by (cases "0 < n \<and> k \<noteq> []") (auto simp: svcConfirmDeposit_def PostgresCashier_def respond_checked pgConfirmDeposit_def grpcOf_def)
next
  case (CCancelDeposit u k n)
  then show ?thesis
    using checked_keyed(5) [of n k f d u]
    by (cases "0 < n \<and> k \<noteq> []") (auto simp: svcCancelDeposit_def PostgresCashier_def respond_checked pgCancelDeposit_def grpcOf_def)
qed


definition fakeOf :: "db \<Rightarrow> FakeCashier" where
  "fakeOf d = \<lparr>
     fkAccounts = (\<lambda>u. map_option (\<lambda>a. \<lparr>faGross = acGross a, faEscrowed = acEscrowed a\<rparr>) (accounts d u)),
     fkEscrows = (\<lambda>i. map_option (\<lambda>e. \<lparr>feUser = eeUser e, feAmount = eeAmount e\<rparr>) (escrowEntries d i)),
     fkKeys = idempotencyKeys d\<rparr>"

lemma not_failing: "failing noFaults x = False"
  by (simp add: noFaults_def)

lemma fakeOf_simps [simp]:
  "fkKeys (fakeOf d) = idempotencyKeys d"
  "fkAccounts (fakeOf d) u = map_option (\<lambda>a. \<lparr>faGross = acGross a, faEscrowed = acEscrowed a\<rparr>) (accounts d u)"
  "fkEscrows (fakeOf d) i = map_option (\<lambda>e. \<lparr>feUser = eeUser e, feAmount = eeAmount e\<rparr>) (escrowEntries d i)"
  by (simp_all add: fakeOf_def)

text \<open>A keyed call without faults is a replay or its callback; both leave an image in memory.\<close>

lemma keyed_noFaults:
  assumes "withIdempotency noFaults d u k fn = (d', Inr s)"
  obtains (replay) a where "k \<in> idempotencyKeys d" "accounts d u = Some a" "d' = d" "s = (snapOf a)\<lparr>snIsReplay := True\<rparr>"
  | (fresh) "k \<notin> idempotencyKeys d" "fn (addKey d k) = Inr (d', s)"
  using assms by (auto simp: withIdempotency_def noFaults_def commitTx_def addKey_def split: if_splits option.splits sum.splits)

lemma fake_replay: "accounts d u = Some a \<Longrightarrow> fakeReplay (fakeOf d) u = Some (fakeOf d, Inr ((snapOf a)\<lparr>snIsReplay := True\<rparr>))"
  by (simp add: fakeReplay_def getOrCreate_def fakeSnapshot_def snapOf_def)

lemma thenFetch_noFaults:
  "thenFetch noFaults u r = Inr (d', s) \<longleftrightarrow> r = Some d' \<and> (\<exists>a. accounts d' u = Some a \<and> s = snapOf a)"
  by (auto simp: thenFetch_def fetchSnapshot_def noFaults_def split: option.split)

lemma fake_write:
  assumes "writeAccount d u a = Some d'"
  shows "accOk a" and "accounts d' u = Some a"
    and "fakeOf d' = putAcc (fakeOf d) u \<lparr>faGross = acGross a, faEscrowed = acEscrowed a\<rparr>"
  using assms by (auto simp: writeAccount_def fakeOf_def putAcc_def fun_eq_iff split: if_splits)

lemma fake_key: "fakeOf (addKey d k) = putKey (fakeOf d) k"
  by (simp add: fakeOf_def addKey_def putKey_def)

lemma putAcc_putKey: "putAcc (putKey s k) u a = putKey (putAcc s u a) k"
  by (simp add: putAcc_def putKey_def)

lemma putAcc_twice: "putAcc (s\<lparr>fkAccounts := (fkAccounts s)(u \<mapsto> a)\<rparr>) u b = putAcc s u b"
  by (simp add: putAcc_def)

lemma accOk_ranges: "accOk a \<Longrightarrow> wrap64 (acGross a) = acGross a \<and> wrap64 (acEscrowed a) = acEscrowed a"
  by (auto simp: accOk_def in_int64_def int64_min_def int64_max_def intro!: wrap64_id)

lemma fake_upsert:
  assumes "upsertDeposit (addKey d k) u g e = Some d'" and "getOrCreate (fakeOf d) u = (k1, acc)" and "accounts d' u = Some a"
  shows "fakeOf d' = putKey (putAcc k1 u \<lparr>faGross = faGross acc + g, faEscrowed = faEscrowed acc + e\<rparr>) k \<and>
    wrap64 (faGross acc + g) = faGross acc + g \<and> wrap64 (faEscrowed acc + e) = faEscrowed acc + e \<and>
    fakeSnapshot \<lparr>faGross = faGross acc + g, faEscrowed = faEscrowed acc + e\<rparr> = snapOf a"
proof (cases "accounts d u")
  case None
  with assms have w: "writeAccount (addKey d k) u \<lparr>acGross = g, acEscrowed = e, acVersion = 0\<rparr> = Some d'"
    by (simp add: upsertDeposit_def addKey_def)
  from None assms(2,3) fake_write [OF w] accOk_ranges [OF fake_write(1) [OF w]] show ?thesis
    by (auto simp: getOrCreate_def Let_def putAcc_twice putAcc_putKey fake_key fakeSnapshot_def snapOf_def)
next
  case (Some b)
  with assms have w: "writeAccount (addKey d k) u \<lparr>acGross = acGross b + g, acEscrowed = acEscrowed b + e, acVersion = acVersion b + 1\<rparr> = Some d'"
    by (simp add: upsertDeposit_def addKey_def)
  from Some assms(2,3) fake_write [OF w] accOk_ranges [OF fake_write(1) [OF w]] show ?thesis
    by (auto simp: getOrCreate_def putAcc_putKey fake_key fakeSnapshot_def snapOf_def)
qed

lemma fake_deposit:
  assumes "pgDeposit noFaults d u k n = (d', Inr s)"
  shows "fakeDeposit (fakeOf d) u k n = Some (fakeOf d', Inr s)"
proof -
  from assms have g: "0 < n" "k \<noteq> []" and w: "withIdempotency noFaults d u k (\<lambda>tx. thenFetch noFaults u (upsertDeposit tx u n 0)) = (d', Inr s)"
    by (auto simp: pgDeposit_def split: if_splits)
  from w show ?thesis
  proof (cases rule: keyed_noFaults)
    case (replay a)
    with g show ?thesis by (simp add: fakeDeposit_def fake_replay)
  next
    case fresh
    then obtain b where up: "upsertDeposit (addKey d k) u n 0 = Some d'" and b: "accounts d' u = Some b" "s = snapOf b"
      by (auto simp: thenFetch_noFaults)
    obtain k1 acc where gc: "getOrCreate (fakeOf d) u = (k1, acc)" by (cases "getOrCreate (fakeOf d) u")
    from fake_upsert [OF up gc b(1)] g fresh(1) b(2) gc show ?thesis
      by (cases acc) (simp add: fakeDeposit_def)
  qed
qed

lemma fake_depositEscrowed:
  assumes "pgDepositEscrowed noFaults d u k n = (d', Inr s)"
  shows "fakeDepositEscrowed (fakeOf d) u k n = Some (fakeOf d', Inr s)"
proof -
  from assms have g: "0 < n" "k \<noteq> []" and w: "withIdempotency noFaults d u k (\<lambda>tx. thenFetch noFaults u (upsertDeposit tx u n n)) = (d', Inr s)"
    by (auto simp: pgDepositEscrowed_def split: if_splits)
  from w show ?thesis
  proof (cases rule: keyed_noFaults)
    case (replay a)
    with g show ?thesis by (simp add: fakeDepositEscrowed_def fake_replay)
  next
    case fresh
    then obtain b where up: "upsertDeposit (addKey d k) u n n = Some d'" and b: "accounts d' u = Some b" "s = snapOf b"
      by (auto simp: thenFetch_noFaults)
    obtain k1 acc where gc: "getOrCreate (fakeOf d) u = (k1, acc)" by (cases "getOrCreate (fakeOf d) u")
    from fake_upsert [OF up gc b(1)] g fresh(1) b(2) gc show ?thesis
      by (cases acc) (simp add: fakeDepositEscrowed_def)
  qed
qed

lemma fake_confirm:
  assumes "pgConfirmDeposit noFaults d u k n = (d', Inr s)"
  shows "fakeConfirmDeposit (fakeOf d) u k n = Some (fakeOf d', Inr s)"
proof -
  from assms have g: "0 < n"
    by (auto simp: pgConfirmDeposit_def split: if_splits)
  from assms obtain fn where w: "withIdempotency noFaults d u (confirmKey k) fn = (d', Inr s)"
    and fn: "fn = (\<lambda>tx. case accounts tx u of None \<Rightarrow> Inl (if failing noFaults StUpdate then DbError else UnknownUserError)
      | Some a \<Rightarrow> thenFetch noFaults u (writeAccount tx u (a\<lparr>acEscrowed := acEscrowed a - n, acVersion := acVersion a + 1\<rparr>)))"
    by (auto simp: pgConfirmDeposit_def split: if_splits)
  from w show ?thesis
  proof (cases rule: keyed_noFaults)
    case (replay a)
    with g show ?thesis by (simp add: fakeConfirmDeposit_def fake_replay)
  next
    case fresh
    then obtain a where a: "accounts d u = Some a"
      and wr: "writeAccount (addKey d (confirmKey k)) u (a\<lparr>acEscrowed := acEscrowed a - n, acVersion := acVersion a + 1\<rparr>) = Some d'"
      and s: "\<exists>b. accounts d' u = Some b \<and> s = snapOf b"
      unfolding fn by (auto simp: thenFetch_noFaults addKey_def split: option.splits)
    from fake_write [OF wr] accOk_ranges [OF fake_write(1) [OF wr]] a s g fresh(1) show ?thesis
      by (auto simp: fakeConfirmDeposit_def putAcc_putKey fake_key fakeSnapshot_def snapOf_def)
  qed
qed

lemma fake_cancel:
  assumes "pgCancelDeposit noFaults d u k n = (d', Inr s)"
  shows "fakeCancelDeposit (fakeOf d) u k n = Some (fakeOf d', Inr s)"
proof -
  from assms have g: "0 < n"
    by (auto simp: pgCancelDeposit_def split: if_splits)
  from assms obtain fn where w: "withIdempotency noFaults d u (cancelKey k) fn = (d', Inr s)"
    and fn: "fn = (\<lambda>tx. case accounts tx u of None \<Rightarrow> Inl (if failing noFaults StUpdate then DbError else InsufficientFundsError)
      | Some a \<Rightarrow> if acEscrowed a < n then Inl (if failing noFaults StUpdate then DbError else InsufficientFundsError)
         else thenFetch noFaults u (writeAccount tx u
           (a\<lparr>acGross := acGross a - n, acEscrowed := acEscrowed a - n, acVersion := acVersion a + 1\<rparr>)))"
    by (auto simp: pgCancelDeposit_def split: if_splits)
  from w show ?thesis
  proof (cases rule: keyed_noFaults)
    case (replay a)
    with g show ?thesis by (simp add: fakeCancelDeposit_def fake_replay)
  next
    case fresh
    then obtain a where a: "accounts d u = Some a" "n \<le> acEscrowed a"
      and wr: "writeAccount (addKey d (cancelKey k)) u
          (a\<lparr>acGross := acGross a - n, acEscrowed := acEscrowed a - n, acVersion := acVersion a + 1\<rparr>) = Some d'"
      and s: "\<exists>b. accounts d' u = Some b \<and> s = snapOf b"
      unfolding fn by (auto simp: thenFetch_noFaults addKey_def split: option.splits if_splits)
    from fake_write [OF wr] accOk_ranges [OF fake_write(1) [OF wr]] a s g fresh(1) show ?thesis
      by (auto simp: fakeCancelDeposit_def putAcc_putKey fake_key fakeSnapshot_def snapOf_def)
  qed
qed

lemma fake_withdraw:
  assumes "pgWithdraw noFaults d u k n = (d', Inr s)"
  shows "fakeWithdraw (fakeOf d) u k n = Some (fakeOf d', Inr s)"
proof -
  from assms have g: "0 < n" "k \<noteq> []"
    by (auto simp: pgWithdraw_def split: if_splits)
  from assms obtain fn where w: "withIdempotency noFaults d u k fn = (d', Inr s)"
    and fn: "fn = (\<lambda>tx. case accounts tx u of None \<Rightarrow> Inl UnknownUserError
      | Some a \<Rightarrow> if wrap64 (acGross a - acEscrowed a) < n then Inl InsufficientFundsError
          else (case updateVersioned tx u (acVersion a) (\<lambda>r. r\<lparr>acGross := wrap64 (acGross a - n)\<rparr>) of
              Inl e \<Rightarrow> Inl e
            | Inr tx' \<Rightarrow> (case fetchSnapshot noFaults tx' u of Inl e \<Rightarrow> Inl e | Inr snap \<Rightarrow> Inr (tx', snap))))"
    by (auto simp: pgWithdraw_def not_failing cong: option.case_cong if_cong split: if_splits)
  from w show ?thesis
  proof (cases rule: keyed_noFaults)
    case (replay a)
    with g show ?thesis by (simp add: fakeWithdraw_def fakeSnapshot_def snapOf_def)
  next
    case fresh
    then obtain a where a: "accounts d u = Some a" "\<not> wrap64 (acGross a - acEscrowed a) < n"
      and wr: "writeAccount (addKey d k) u (a\<lparr>acGross := wrap64 (acGross a - n), acVersion := acVersion a + 1\<rparr>) = Some d'"
      and s: "\<exists>b. accounts d' u = Some b \<and> s = snapOf b"
      unfolding fn
      by (auto simp: updateVersioned_def fetchSnapshot_def noFaults_def addKey_def split: option.splits if_splits sum.splits)
    from fake_write [OF wr] a s g fresh(1) show ?thesis
      by (auto simp: fakeWithdraw_def putAcc_putKey fake_key fakeSnapshot_def snapOf_def)
  qed
qed

lemma fake_escrow:
  assumes "pgEscrow noFaults d u i n = (d', Inr s)"
  shows "fakeEscrowOp (fakeOf d) u i n = Some (fakeOf d', Inr s)"
proof -
  from assms obtain a tx where a: "0 < n" "accounts d u = Some a" "\<not> wrap64 (acGross a - acEscrowed a) < n"
      and wr: "writeAccount d u (a\<lparr>acEscrowed := wrap64 (acEscrowed a + n), acVersion := acVersion a + 1\<rparr>) = Some tx"
    by (auto simp: pgEscrow_def noFaults_def updateVersioned_def split: if_splits option.splits sum.splits)
  have e: "escrowEntries tx = escrowEntries d" using wr by (auto simp: writeAccount_def split: if_splits)
  show ?thesis
  proof (cases "escrowEntries d i")
    case None
    with assms a wr e have "d' = tx\<lparr>escrowEntries := (escrowEntries tx)(i \<mapsto> \<lparr>eeUser = u, eeAmount = n\<rparr>)\<rparr>"
        "s = \<lparr>snGross = acGross a, snEscrowed = wrap64 (acEscrowed a + n), snIsReplay = False\<rparr>"
      by (auto simp: pgEscrow_def noFaults_def updateVersioned_def commitTx_def)
    with None a e fake_write(3) [OF wr] show ?thesis
      by (auto simp: fakeEscrowOp_def fakeSnapshot_def putAcc_def fakeOf_def Let_def fun_eq_iff)
  next
    case (Some x)
    with assms a wr e have "d' = d" "s = snapOf a"
      by (auto simp: pgEscrow_def noFaults_def updateVersioned_def pgCheckAvailable_def)
    with Some a show ?thesis by (simp add: fakeEscrowOp_def fakeSnapshot_def snapOf_def)
  qed
qed

lemma fake_release:
  assumes "pgReleaseEscrow noFaults d i = (d', Inr s)"
  shows "fakeReleaseEscrow (fakeOf d) i = Some (fakeOf d', Inr s)"
proof -
  from assms obtain x a where x: "escrowEntries d i = Some x" and a: "accounts d (eeUser x) = Some a"
      and wr: "writeAccount (d\<lparr>escrowEntries := (escrowEntries d)(i := None)\<rparr>) (eeUser x)
        (a\<lparr>acEscrowed := wrap64 (acEscrowed a - eeAmount x), acVersion := acVersion a + 1\<rparr>) = Some d'"
      and s: "s = \<lparr>snGross = acGross a, snEscrowed = wrap64 (acEscrowed a - eeAmount x), snIsReplay = False\<rparr>"
    by (auto simp: pgReleaseEscrow_def releasePreRead_def releaseTx_def Let_def noFaults_def updateVersioned_def commitTx_def
        split: if_splits option.splits sum.splits)
  have "fakeOf (d\<lparr>escrowEntries := (escrowEntries d)(i := None)\<rparr>) = (fakeOf d)\<lparr>fkEscrows := (fkEscrows (fakeOf d))(i := None)\<rparr>"
    by (simp add: fakeOf_def fun_eq_iff)
  with x a s fake_write(3) [OF wr] show ?thesis
    by (simp add: fakeReleaseEscrow_def fakeSnapshot_def)
qed

lemma fake_exec: "pgExec noFaults d c = (d', Inr s) \<Longrightarrow> fakeExec (fakeOf d) c = Some (fakeOf d', Inr s)"
proof (cases c)
  case (CCheckAvailable u)
  moreover assume "pgExec noFaults d c = (d', Inr s)"
  ultimately show ?thesis
    by (auto simp: pgCheckAvailable_def noFaults_def fakeCheckAvailable_def fakeSnapshot_def snapOf_def split: option.splits)
qed (simp_all add: fake_deposit fake_withdraw fake_escrow fake_release fake_depositEscrowed fake_confirm fake_cancel)

text \<open>C20: the in-memory cashier agrees with the PostgreSQL one on every call that succeeds there
  without faults: the same balances, escrow entries and keys afterwards and the same answer, replays
  included.\<close>

theorem fake_agrees:
  assumes "pgExec noFaults d c = (d', Inr s)"
  shows "fakeExec (fakeOf d) c = Some (fakeOf d', Inr s)"
  using assms by (rule fake_exec)

theorem fake_agrees_witness:
  "\<exists>d' s. pgExec noFaults raceBefore (CReleaseEscrow 7) = (d', Inr s) \<and>
     fakeExec (fakeOf raceBefore) (CReleaseEscrow 7) = Some (fakeOf d', Inr s)"
proof -
  obtain d' s where r: "pgExec noFaults raceBefore (CReleaseEscrow 7) = (d', Inr s)"
    by (simp add: raceBefore_eq demo_simps Let_def)
  from fake_agrees [OF r] r show ?thesis by blast
qed

end
