(* ===== verification/Decimal.thy ===== *)
theory Decimal
  imports Prelude
begin

text \<open>
  Decimal notation of integers, as Go's \<open>strconv.Itoa\<close> prints it, and the lemmas
  the users of printed numbers need: it can be read back, and it is made of digits.
\<close>

definition digitChar :: "nat \<Rightarrow> char" where
  "digitChar d = char_of (48 + d)"

fun natStr :: "nat \<Rightarrow> string" where
  "natStr n = (if n < 10 then [digitChar n] else natStr (n div 10) @ [digitChar (n mod 10)])"

declare natStr.simps [simp del]

definition itoa :: "int \<Rightarrow> string" where
  "itoa i = (if i < 0 then CHR ''-'' # natStr (nat (- i)) else natStr (nat i))"

definition digitVal :: "char \<Rightarrow> nat" where
  "digitVal c = of_char c - 48"

definition readNat :: "string \<Rightarrow> nat" where
  "readNat s = foldl (\<lambda>n c. 10 * n + digitVal c) 0 s"

lemma digitVal_digitChar [simp]: "d < 10 \<Longrightarrow> digitVal (digitChar d) = d"
  by (simp add: digitVal_def digitChar_def)

lemma readNat_snoc [simp]: "readNat (s @ [c]) = 10 * readNat s + digitVal c"
  by (simp add: readNat_def)

lemma readNat_natStr [simp]: "readNat (natStr n) = n"
proof (induction n rule: natStr.induct)
  case (1 n)
  show ?case
  proof (cases "n < 10")
    case True
    then show ?thesis by (simp add: natStr.simps [of n] readNat_def)
  next
    case False
    with 1 show ?thesis by (subst natStr.simps) simp
  qed
qed

lemma natStr_inj: "natStr m = natStr n \<longleftrightarrow> m = n"
  by (metis readNat_natStr)

lemma natStr_digits: "c \<in> set (natStr n) \<Longrightarrow> 48 \<le> (of_char c :: nat) \<and> (of_char c :: nat) < 58"
proof (induction n rule: natStr.induct)
  case (1 n)
  show ?case
  proof (cases "n < 10")
    case True
    with 1 show ?thesis by (simp add: natStr.simps [of n] digitChar_def)
  next
    case False
    then have "natStr n = natStr (n div 10) @ [digitChar (n mod 10)]" by (subst natStr.simps) simp
    with False 1 show ?thesis by (auto simp: digitChar_def)
  qed
qed

lemma natStr_nonempty [simp]: "natStr n \<noteq> []"
  by (subst natStr.simps) simp

lemma natStr_not_digit: "\<not> (48 \<le> (of_char c :: nat) \<and> (of_char c :: nat) < 58) \<Longrightarrow> c \<notin> set (natStr n)"
  using natStr_digits by blast

lemma itoa_inj: "itoa i = itoa j \<longleftrightarrow> i = j"
proof -
  have d: "CHR ''-'' \<notin> set (natStr m)" for m
    by (rule natStr_not_digit) simp
  then have "natStr m \<noteq> CHR ''-'' # natStr n" for n m
    using d [of m] by (metis list.set_intros(1))
  note this this [symmetric]
  then show ?thesis by (auto simp: itoa_def natStr_inj)
qed

lemma itoa_no_colon: "CHR '':'' \<notin> set (itoa i)"
  using natStr_not_digit [of "CHR '':''"] by (simp add: itoa_def)

end
