(* ===== verification/Watcher.thy ===== *)
theory Watcher
  imports CashierService Decimal
begin

text \<open>
  The bitcoin watcher (\<open>btcwatcher/internal\<close>): it follows the block chain, records the
  outputs paid to the addresses of users in the table \<open>btc_deposits\<close>, and drives every
  deposit through the cashier: escrowed when seen, confirmed when deep enough,
  cancelled when a reorganisation removed it for too long.

  The table is a list of rows, its order the one a scan returns them in unless the
  environment asks for another. Every database statement and every call to the
  cashier can fail; the watcher ignores those errors, and so a statement is one of
  applied or not applied. A call to the cashier goes to the gRPC service over the
  PostgreSQL cashier; the request may be lost, and so may the reply. Heights are
  block heights, used as integers; instants are microseconds and durations
  nanoseconds. The libraries for addresses and scripts are a parameter.
\<close>

section \<open>TxStore\<close>

record Deposit =
  dTxid :: string
  dVout :: int
  dUserID :: string
  dSatoshis :: int
  dSeenAtHeight :: int
  dEscrowed :: bool

record depositRow =
  rwTxid :: string
  rwVout :: int
  rwUser :: string
  rwSatoshis :: int
  rwSeenAtHeight :: int
  rwEscrowed :: bool
  rwConfirmed :: bool
  rwReorgedAt :: "int option"

type_synonym outpoint = "string \<times> int"

type_synonym btcDeposits = "depositRow list"

definition rowKey :: "depositRow \<Rightarrow> outpoint" where
  "rowKey r = (rwTxid r, rwVout r)"

definition updateWhere :: "(depositRow \<Rightarrow> bool) \<Rightarrow> (depositRow \<Rightarrow> depositRow) \<Rightarrow> btcDeposits \<Rightarrow> btcDeposits" where
  "updateWhere p upd t = map (\<lambda>r. if p r then upd r else r) t"

text \<open>\<open>INSERT ... ON CONFLICT DO UPDATE ... WHERE reorged_at IS NOT NULL\<close>; the table only holds positive
  amounts.\<close>

definition txInsert :: "Deposit \<Rightarrow> btcDeposits \<Rightarrow> btcDeposits" where
  "txInsert d t =
     (if dSatoshis d \<le> 0 then t
      else if (dTxid d, dVout d) \<in> rowKey ` set t
      then updateWhere (\<lambda>r. rowKey r = (dTxid d, dVout d) \<and> rwReorgedAt r \<noteq> None)
             (\<lambda>r. r\<lparr>rwSeenAtHeight := dSeenAtHeight d, rwReorgedAt := None\<rparr>) t
      else t @ [\<lparr>rwTxid = dTxid d, rwVout = dVout d, rwUser = dUserID d, rwSatoshis = dSatoshis d,
                 rwSeenAtHeight = dSeenAtHeight d, rwEscrowed = False, rwConfirmed = False, rwReorgedAt = None\<rparr>])"

text \<open>The order of a scan.\<close>

definition scanOrder :: "outpoint list \<Rightarrow> btcDeposits \<Rightarrow> btcDeposits" where
  "scanOrder ks t = orderBy rowKey ks t"

definition scanDeposits :: "btcDeposits \<Rightarrow> Deposit list" where
  "scanDeposits t = map (\<lambda>r. \<lparr>dTxid = rwTxid r, dVout = rwVout r, dUserID = rwUser r, dSatoshis = rwSatoshis r,
     dSeenAtHeight = rwSeenAtHeight r, dEscrowed = False\<rparr>) t"

definition ListNotEscrowed :: "outpoint list \<Rightarrow> btcDeposits \<Rightarrow> Deposit list" where
  "ListNotEscrowed ks t = scanDeposits (filter (\<lambda>r. \<not> rwEscrowed r \<and> rwReorgedAt r = None) (scanOrder ks t))"

definition readyRow :: "int \<Rightarrow> int \<Rightarrow> depositRow \<Rightarrow> bool" where
  "readyRow minDepth currentHeight r \<longleftrightarrow> rwEscrowed r \<and> \<not> rwConfirmed r \<and> rwReorgedAt r = None \<and>
     minDepth \<le> currentHeight - rwSeenAtHeight r"

definition ListReadyToConfirm :: "outpoint list \<Rightarrow> int \<Rightarrow> int \<Rightarrow> btcDeposits \<Rightarrow> Deposit list" where
  "ListReadyToConfirm ks minDepth currentHeight t =
     scanDeposits (filter (readyRow minDepth currentHeight) (scanOrder ks t))"

definition ListReorgedEscrowed :: "outpoint list \<Rightarrow> int \<Rightarrow> int \<Rightarrow> btcDeposits \<Rightarrow> Deposit list" where
  "ListReorgedEscrowed ks now minAge t =
     scanDeposits (filter (\<lambda>r. (case rwReorgedAt r of None \<Rightarrow> False
         | Some at \<Rightarrow> rwEscrowed r \<and> \<not> rwConfirmed r \<and> at < now - (minAge div 1000000) * 1000)) (scanOrder ks t))"

definition MarkEscrowed :: "outpoint \<Rightarrow> btcDeposits \<Rightarrow> btcDeposits" where
  "MarkEscrowed k = updateWhere (\<lambda>r. rowKey r = k) (\<lambda>r. r\<lparr>rwEscrowed := True\<rparr>)"

definition MarkConfirmed :: "outpoint \<Rightarrow> btcDeposits \<Rightarrow> btcDeposits" where
  "MarkConfirmed k = updateWhere (\<lambda>r. rowKey r = k) (\<lambda>r. r\<lparr>rwConfirmed := True\<rparr>)"

definition MarkCancelled :: "outpoint \<Rightarrow> btcDeposits \<Rightarrow> btcDeposits" where
  "MarkCancelled k = filter (\<lambda>r. rowKey r \<noteq> k)"

definition softDelete :: "int \<Rightarrow> int \<Rightarrow> btcDeposits \<Rightarrow> btcDeposits" where
  "softDelete now height = updateWhere (\<lambda>r. height \<le> rwSeenAtHeight r \<and> \<not> rwConfirmed r \<and> rwEscrowed r)
     (\<lambda>r. r\<lparr>rwReorgedAt := Some now\<rparr>)"

definition hardDelete :: "int \<Rightarrow> btcDeposits \<Rightarrow> btcDeposits" where
  "hardDelete height = filter (\<lambda>r. \<not> (height \<le> rwSeenAtHeight r \<and> \<not> rwConfirmed r \<and> \<not> rwEscrowed r))"

section \<open>Environment\<close>

datatype storeOp =
    OpInsert outpoint | OpListNotEscrowed | OpListReady | OpListReorged
  | OpMarkEscrowed outpoint | OpMarkConfirmed outpoint | OpMarkCancelled outpoint
  | OpSoftDelete | OpHardDelete

datatype rpc = RequestLost | Answered faults | ReplyLost faults

text \<open>What the surroundings do while one event is handled.\<close>

record wenv =
  weLeader :: bool
  weNow :: int
  weOrder :: "outpoint list"
  weFails :: "storeOp \<Rightarrow> bool"
  weRpc :: "cashierCmd \<Rightarrow> rpc"
  weBest :: "int option"

text \<open>The libraries: the addresses of a script (\<^const>\<open>None\<close> an error), whether an address decodes.\<close>

record chainLib =
  extractPkScriptAddrs :: "string \<Rightarrow> string list option"
  decodeAddress :: "string \<Rightarrow> bool"

definition DeleteFromHeight :: "wenv \<Rightarrow> int \<Rightarrow> btcDeposits \<Rightarrow> btcDeposits" where
  "DeleteFromHeight e height t =
     (if weFails e OpSoftDelete then t
      else let t1 = softDelete (weNow e) height t in
        if weFails e OpHardDelete then t1 else hardDelete height t1)"

section \<open>CashierClient\<close>

definition callCashier :: "rpc \<Rightarrow> db \<Rightarrow> (db Cashier \<Rightarrow> db svcResult) \<Rightarrow> db \<times> bool" where
  "callCashier r d call = (case r of
     RequestLost \<Rightarrow> (d, False)
   | Answered f \<Rightarrow> (case call (PostgresCashier f) of None \<Rightarrow> (d, False) | Some (d', res) \<Rightarrow> (d', \<not> isl res))
   | ReplyLost f \<Rightarrow> (case call (PostgresCashier f) of None \<Rightarrow> (d, False) | Some (d', res) \<Rightarrow> (d', False)))"

definition clDepositEscrowed :: "(cashierCmd \<Rightarrow> rpc) \<Rightarrow> db \<Rightarrow> string \<Rightarrow> int \<Rightarrow> string \<Rightarrow> db \<times> bool" where
  "clDepositEscrowed r d userID satoshis ref =
     callCashier (r (CDepositEscrowed userID ref satoshis)) d (\<lambda>cs. svcDepositEscrowed cs d userID satoshis ref)"

definition clConfirmDeposit :: "(cashierCmd \<Rightarrow> rpc) \<Rightarrow> db \<Rightarrow> string \<Rightarrow> int \<Rightarrow> string \<Rightarrow> db \<times> bool" where
  "clConfirmDeposit r d userID satoshis ref =
     callCashier (r (CConfirmDeposit userID ref satoshis)) d (\<lambda>cs. svcConfirmDeposit cs d userID satoshis ref)"

definition clCancelDeposit :: "(cashierCmd \<Rightarrow> rpc) \<Rightarrow> db \<Rightarrow> string \<Rightarrow> int \<Rightarrow> string \<Rightarrow> db \<times> bool" where
  "clCancelDeposit r d userID satoshis ref =
     callCashier (r (CCancelDeposit userID ref satoshis)) d (\<lambda>cs. svcCancelDeposit cs d userID satoshis ref)"

section \<open>SPV node and scripts\<close>

record TxOut =
  outValue :: int
  outPkScript :: string

record MsgTx =
  txHash :: string
  txOuts :: "TxOut list"

record BlockEvent =
  beHeight :: int
  beConnected :: bool
  beRelevantTxs :: "MsgTx list"

text \<open>The addresses registered with the node, and those the running rescan filters for.\<close>

record SPVNode =
  nodeAddrs :: "string list"
  nodeRescan :: "string list option"

definition WatchAddresses :: "bool \<Rightarrow> SPVNode \<Rightarrow> string list \<Rightarrow> SPVNode \<times> bool" where
  "WatchAddresses updateFails n addrs =
     (let n1 = n\<lparr>nodeAddrs := nodeAddrs n @ addrs\<rparr> in
      case nodeRescan n of
        None \<Rightarrow> (n1, True)
      | Some watched \<Rightarrow>
          if updateFails then (n1, False) else (n1\<lparr>nodeRescan := Some (watched @ addrs)\<rparr>, True))"

definition Blocks :: "SPVNode \<Rightarrow> SPVNode" where
  "Blocks n = n\<lparr>nodeRescan := Some (nodeAddrs n)\<rparr>"

definition outputAddress :: "chainLib \<Rightarrow> string \<Rightarrow> string option" where
  "outputAddress lib pkScript = (case extractPkScriptAddrs lib pkScript of
     None \<Rightarrow> None
   | Some addrs \<Rightarrow> if length addrs \<noteq> 1 then None else Some (addrs ! 0))"

section \<open>Watcher\<close>

record UserRecord =
  urUserID :: string
  urBtcAddr :: string

record watcherConfig =
  wcConfirmations :: int
  wcReorgCancelAge :: int

record Watcher =
  wtTxs :: btcDeposits
  wtCashier :: db
  wtNode :: SPVNode
  wtIndex :: "string \<Rightarrow> string option"

definition depositRef :: "string \<Rightarrow> int \<Rightarrow> string" where
  "depositRef txid vout = txid @ '':'' @ itoa vout"

fun indexUsers :: "chainLib \<Rightarrow> UserRecord list \<Rightarrow> (string \<Rightarrow> string option) \<Rightarrow> string list \<Rightarrow>
    (string \<Rightarrow> string option) \<times> string list" where
  "indexUsers lib [] idx addrs = (idx, addrs)"
| "indexUsers lib (r # rs) idx addrs =
     (if \<not> decodeAddress lib (urBtcAddr r) then indexUsers lib rs idx addrs
      else indexUsers lib rs (idx(urBtcAddr r \<mapsto> urUserID r)) (addrs @ [urBtcAddr r]))"

definition loadUsers :: "chainLib \<Rightarrow> bool \<Rightarrow> UserRecord list option \<Rightarrow> Watcher \<Rightarrow> Watcher option" where
  "loadUsers lib updateFails listed w = (case listed of
     None \<Rightarrow> None
   | Some records \<Rightarrow>
       (let (idx, addrs) = indexUsers lib records Map.empty [];
            n = (if 0 < length addrs then fst (WatchAddresses updateFails (wtNode w) addrs) else wtNode w)
        in Some (w\<lparr>wtIndex := idx, wtNode := n\<rparr>)))"

fun indexNewUsers :: "chainLib \<Rightarrow> UserRecord list \<Rightarrow> (string \<Rightarrow> string option) \<Rightarrow> string list \<Rightarrow>
    (string \<Rightarrow> string option) \<times> string list" where
  "indexNewUsers lib [] idx addrs = (idx, addrs)"
| "indexNewUsers lib (r # rs) idx addrs =
     (if idx (urBtcAddr r) \<noteq> None then indexNewUsers lib rs idx addrs
      else if \<not> decodeAddress lib (urBtcAddr r) then indexNewUsers lib rs idx addrs
      else indexNewUsers lib rs (idx(urBtcAddr r \<mapsto> urUserID r)) (addrs @ [urBtcAddr r]))"

definition pollNewUsers :: "chainLib \<Rightarrow> bool \<Rightarrow> UserRecord list option \<Rightarrow> Watcher \<Rightarrow> Watcher \<times> bool" where
  "pollNewUsers lib updateFails listed w = (case listed of
     None \<Rightarrow> (w, False)
   | Some records \<Rightarrow>
       (let (idx, addrs) = indexNewUsers lib records (wtIndex w) [];
            w1 = w\<lparr>wtIndex := idx\<rparr>
        in if 0 < length addrs
           then (let (n, ok) = WatchAddresses updateFails (wtNode w1) addrs in (w1\<lparr>wtNode := n\<rparr>, ok))
           else (w1, True)))"

definition escrowRow :: "wenv \<Rightarrow> Deposit \<Rightarrow> Watcher \<Rightarrow> Watcher" where
  "escrowRow e d w =
     (let ref = depositRef (dTxid d) (dVout d);
          (c, ok) = clDepositEscrowed (weRpc e) (wtCashier w) (dUserID d) (dSatoshis d) ref;
          w1 = w\<lparr>wtCashier := c\<rparr>
      in if \<not> ok \<or> weFails e (OpMarkEscrowed (dTxid d, dVout d)) then w1
         else w1\<lparr>wtTxs := MarkEscrowed (dTxid d, dVout d) (wtTxs w1)\<rparr>)"

definition retryEscrows :: "wenv \<Rightarrow> Watcher \<Rightarrow> Watcher" where
  "retryEscrows e w =
     (if weFails e OpListNotEscrowed then w
      else fold (escrowRow e) (ListNotEscrowed (weOrder e) (wtTxs w)) w)"

definition confirmRow :: "wenv \<Rightarrow> Deposit \<Rightarrow> Watcher \<Rightarrow> Watcher" where
  "confirmRow e d w =
     (let ref = depositRef (dTxid d) (dVout d);
          (c, ok) = clConfirmDeposit (weRpc e) (wtCashier w) (dUserID d) (dSatoshis d) ref;
          w1 = w\<lparr>wtCashier := c\<rparr>
      in if \<not> ok \<or> weFails e (OpMarkConfirmed (dTxid d, dVout d)) then w1
         else w1\<lparr>wtTxs := MarkConfirmed (dTxid d, dVout d) (wtTxs w1)\<rparr>)"

definition checkConfirmations :: "watcherConfig \<Rightarrow> wenv \<Rightarrow> int \<Rightarrow> Watcher \<Rightarrow> Watcher" where
  "checkConfirmations cf e currentHeight w =
     (if weFails e OpListReady then w
      else fold (confirmRow e) (ListReadyToConfirm (weOrder e) (wcConfirmations cf) currentHeight (wtTxs w)) w)"

definition cancelRow :: "wenv \<Rightarrow> Deposit \<Rightarrow> Watcher \<Rightarrow> Watcher" where
  "cancelRow e d w =
     (let ref = depositRef (dTxid d) (dVout d);
          (c, ok) = clCancelDeposit (weRpc e) (wtCashier w) (dUserID d) (dSatoshis d) ref;
          w1 = w\<lparr>wtCashier := c\<rparr>
      in if \<not> ok \<or> weFails e (OpMarkCancelled (dTxid d, dVout d)) then w1
         else w1\<lparr>wtTxs := MarkCancelled (dTxid d, dVout d) (wtTxs w1)\<rparr>)"

definition cancelReorgedEscrows :: "watcherConfig \<Rightarrow> wenv \<Rightarrow> Watcher \<Rightarrow> Watcher" where
  "cancelReorgedEscrows cf e w =
     (let age = (if wcReorgCancelAge cf = 0 then 20 * 60 * 1000000000 else wcReorgCancelAge cf) in
      if weFails e OpListReorged then w
      else fold (cancelRow e) (ListReorgedEscrowed (weOrder e) (weNow e) age (wtTxs w)) w)"

fun insertOuts :: "chainLib \<Rightarrow> wenv \<Rightarrow> (string \<Rightarrow> string option) \<Rightarrow> int \<Rightarrow> string \<Rightarrow> int \<Rightarrow> TxOut list \<Rightarrow>
    btcDeposits \<Rightarrow> btcDeposits" where
  "insertOuts lib e idx height txid vout [] t = t"
| "insertOuts lib e idx height txid vout (out # outs) t =
     insertOuts lib e idx height txid (vout + 1) outs
       (case outputAddress lib (outPkScript out) of
          None \<Rightarrow> t
        | Some addrStr \<Rightarrow> (case idx addrStr of
            None \<Rightarrow> t
          | Some userID \<Rightarrow>
              if weFails e (OpInsert (txid, vout)) then t
              else txInsert \<lparr>dTxid = txid, dVout = vout, dUserID = userID, dSatoshis = outValue out,
                              dSeenAtHeight = height, dEscrowed = False\<rparr> t))"

fun insertTxs :: "chainLib \<Rightarrow> wenv \<Rightarrow> (string \<Rightarrow> string option) \<Rightarrow> int \<Rightarrow> MsgTx list \<Rightarrow> btcDeposits \<Rightarrow> btcDeposits" where
  "insertTxs lib e idx height [] t = t"
| "insertTxs lib e idx height (tx # txs) t =
     insertTxs lib e idx height txs (insertOuts lib e idx height (txHash tx) 0 (txOuts tx) t)"

definition handleBlockConnected :: "chainLib \<Rightarrow> watcherConfig \<Rightarrow> wenv \<Rightarrow> BlockEvent \<Rightarrow> Watcher \<Rightarrow> Watcher" where
  "handleBlockConnected lib cf e evt w =
     (let w1 = w\<lparr>wtTxs := insertTxs lib e (wtIndex w) (beHeight evt) (beRelevantTxs evt) (wtTxs w)\<rparr> in
      if weLeader e then checkConfirmations cf e (beHeight evt) (retryEscrows e w1) else w1)"

definition cashierTick :: "watcherConfig \<Rightarrow> wenv \<Rightarrow> Watcher \<Rightarrow> Watcher" where
  "cashierTick cf e w =
     (if weLeader e
      then (let w1 = cancelReorgedEscrows cf e (retryEscrows e w) in
            case weBest e of None \<Rightarrow> w1 | Some height \<Rightarrow> checkConfirmations cf e height w1)
      else w)"

datatype wEvent =
    EvDone | EvPoll bool "UserRecord list option" | EvTick wenv | EvBlock wenv BlockEvent | EvClosed

datatype wStatus = WatchRunning | WatchCancelled | WatchClosed | WatchNoUsers | WatchNoStream

definition watchEvent :: "chainLib \<Rightarrow> watcherConfig \<Rightarrow> wEvent \<Rightarrow> Watcher \<Rightarrow> Watcher" where
  "watchEvent lib cf ev w = (case ev of
     EvPoll updateFails listed \<Rightarrow> fst (pollNewUsers lib updateFails listed w)
   | EvTick e \<Rightarrow> cashierTick cf e w
   | EvBlock e evt \<Rightarrow>
       if beConnected evt then handleBlockConnected lib cf e evt w
       else w\<lparr>wtTxs := DeleteFromHeight e (beHeight evt) (wtTxs w)\<rparr>
   | _ \<Rightarrow> w)"

fun watchLoop :: "chainLib \<Rightarrow> watcherConfig \<Rightarrow> wEvent list \<Rightarrow> Watcher \<Rightarrow> wStatus \<times> Watcher" where
  "watchLoop lib cf [] w = (WatchRunning, w)"
| "watchLoop lib cf (EvDone # evs) w = (WatchCancelled, w)"
| "watchLoop lib cf (EvClosed # evs) w = (WatchClosed, w)"
| "watchLoop lib cf (ev # evs) w = watchLoop lib cf evs (watchEvent lib cf ev w)"

definition Watcher_Run :: "chainLib \<Rightarrow> watcherConfig \<Rightarrow> bool \<Rightarrow> UserRecord list option \<Rightarrow> bool \<Rightarrow> wEvent list \<Rightarrow>
    Watcher \<Rightarrow> wStatus \<times> Watcher" where
  "Watcher_Run lib cf updateFails listed streamFails evs w = (case loadUsers lib updateFails listed w of
     None \<Rightarrow> (WatchNoUsers, w)
   | Some w1 \<Rightarrow>
       if streamFails then (WatchNoStream, w1)
       else watchLoop lib cf evs (w1\<lparr>wtNode := Blocks (wtNode w1)\<rparr>))"

section \<open>LeaderElector\<close>

datatype electorState = CreatingSession | Waiting | Campaigning | Leading | Stopped

record LeaderElector =
  leState :: electorState
  leading :: bool

definition NewLeaderElector :: LeaderElector where
  "NewLeaderElector = \<lparr>leState = CreatingSession, leading = False\<rparr>"

datatype electorEvent = SessionCreated | SessionFailed | CampaignWon | CampaignFailed | LeaseExpired | TimerFired | CtxDone

text \<open>\<open>Run\<close> as a transition function. The loop does not look at the session once it leads, so
  \<open>LeaseExpired\<close> only matters to etcd.\<close>

definition electorStep :: "electorEvent \<Rightarrow> LeaderElector \<Rightarrow> LeaderElector" where
  "electorStep ev le = (case (leState le, ev) of
     (CreatingSession, SessionCreated) \<Rightarrow> le\<lparr>leState := Campaigning\<rparr>
   | (CreatingSession, SessionFailed) \<Rightarrow> le\<lparr>leState := Waiting\<rparr>
   | (CreatingSession, CtxDone) \<Rightarrow> le\<lparr>leState := Stopped\<rparr>
   | (Waiting, TimerFired) \<Rightarrow> le\<lparr>leState := CreatingSession\<rparr>
   | (Waiting, CtxDone) \<Rightarrow> le\<lparr>leState := Stopped\<rparr>
   | (Campaigning, CampaignWon) \<Rightarrow> le\<lparr>leState := Leading, leading := True\<rparr>
   | (Campaigning, CampaignFailed) \<Rightarrow> le\<lparr>leState := Waiting\<rparr>
   | (Campaigning, CtxDone) \<Rightarrow> le\<lparr>leState := Stopped\<rparr>
   | (Leading, CtxDone) \<Rightarrow> le\<lparr>leState := Stopped, leading := False\<rparr>
   | _ \<Rightarrow> le)"

definition IsLeader :: "LeaderElector \<Rightarrow> bool" where
  "IsLeader le = leading le"

end
