(* ===== verification/WatcherSteps.thy ===== *)
theory WatcherSteps
  imports Watcher CashierProps
begin

text \<open>
  Watchers as concurrent processes. Any number of nodes share the table and the
  cashier, and several may believe they lead. A node works off the rows of one
  listing as a queue of jobs; one statement or one call is one step, so that all
  interleavings of the handlers are runs of \<open>sysStep\<close>, and a handler that runs alone
  is a run of its own node.
\<close>

section \<open>Calls to the cashier\<close>

lemma keyed_success:
  assumes "pgExec f d c = (d', Inr s)" and "keyOf c = Some k"
  shows "k \<in> idempotencyKeys d'"
proof (cases "k \<in> idempotencyKeys d")
  case True
  then show ?thesis
    using assms by (cases c) (auto simp: keyOf_def pgDeposit_def pgWithdraw_def pgDepositEscrowed_def pgConfirmDeposit_def
        pgCancelDeposit_def withIdempotency_def split: if_splits option.splits)
next
  case False
  have w: "withIdempotency f d u k' fn = (d', Inr s) \<Longrightarrow> k = k' \<Longrightarrow> fn (addKey d k') = Inr (d', s)" for u k' fn
    using False by (auto simp: withIdempotency_def commitTx_def addKey_def split: if_splits sum.splits commitOutcome.splits)
  have t: "thenFetch f u r = Inr (d', s) \<Longrightarrow> r = Some d'" for u r
    by (auto simp: thenFetch_def split: if_splits option.splits sum.splits)
  have wr: "writeAccount (addKey d k') u a = Some d' \<Longrightarrow> k' \<in> idempotencyKeys d'" for u a k'
    by (auto simp: writeAccount_def split: if_splits)
  have up: "upsertDeposit (addKey d k') u g e = Some d' \<Longrightarrow> k' \<in> idempotencyKeys d'" for u g e k'
    using wr by (auto simp: upsertDeposit_def split: option.splits)
  show ?thesis
    using assms by (cases c) (auto simp: keyOf_def pgDeposit_def pgWithdraw_def pgDepositEscrowed_def pgConfirmDeposit_def
        pgCancelDeposit_def updateVersioned_def dest!: w t wr up split: if_splits option.splits sum.splits)
qed

lemma callCashier_cases:
  assumes "dbOk d" and "callCashier r d (\<lambda>cs. svcExec cs d c) = (d', ok)"
  shows "(d' = d \<or> effect d c = Some d') \<and> (\<forall>k. ok \<longrightarrow> keyOf c = Some k \<longrightarrow> k \<in> idempotencyKeys d')"
proof -
  have g: "\<not> isl (grpcOf x) \<Longrightarrow> \<exists>s. x = Inr s" for x
    by (cases x) (auto simp: grpcOf_def toResponse_def split: cashierErr.splits)
  have p: "fst (pgExec f d c) = d \<or> effect d c = Some (fst (pgExec f d c))" for f
    using cashier.step [OF assms(1)] .
  have s: "snd (pgExec f d c) = Inr s \<Longrightarrow> keyOf c = Some k \<Longrightarrow> k \<in> idempotencyKeys (fst (pgExec f d c))" for f s k
    using keyed_success [of f d c "fst (pgExec f d c)" s k] by (metis prod.collapse)
  show ?thesis
  proof (cases r)
    case RequestLost
    with assms(2) show ?thesis by (auto simp: callCashier_def)
  next
    case (Answered f)
    with assms(2) have "d' = fst (pgExec f d c)" "ok \<longleftrightarrow> \<not> isl (grpcOf (snd (pgExec f d c)))"
      by (auto simp: callCashier_def svc_grpc map_prod_def split: prod.splits)
    with p [of f] s [of f] g [of "snd (pgExec f d c)"] show ?thesis by metis
  next
    case (ReplyLost f)
    with assms(2) have "d' = fst (pgExec f d c)" "\<not> ok"
      by (auto simp: callCashier_def svc_grpc map_prod_def split: prod.splits)
    with p [of f] show ?thesis by metis
  qed
qed

lemma cl_exec:
  "clDepositEscrowed r d u n ref = callCashier (r (CDepositEscrowed u ref n)) d (\<lambda>cs. svcExec cs d (CDepositEscrowed u ref n))"
  "clConfirmDeposit r d u n ref = callCashier (r (CConfirmDeposit u ref n)) d (\<lambda>cs. svcExec cs d (CConfirmDeposit u ref n))"
  "clCancelDeposit r d u n ref = callCashier (r (CCancelDeposit u ref n)) d (\<lambda>cs. svcExec cs d (CCancelDeposit u ref n))"
  by (simp_all add: clDepositEscrowed_def clConfirmDeposit_def clCancelDeposit_def)

lemma callCashier_ok: "dbOk d \<Longrightarrow> callCashier r d (\<lambda>cs. svcExec cs d c) = (d', ok) \<Longrightarrow> dbOk d'"
  using callCashier_cases effect_dbOk by blast

lemma callCashier_keys:
  "dbOk d \<Longrightarrow> callCashier r d (\<lambda>cs. svcExec cs d c) = (d', ok) \<Longrightarrow> idempotencyKeys d \<subseteq> idempotencyKeys d'"
  using callCashier_cases effect_keys by (fastforce split: option.splits)

section \<open>Interleaved watchers\<close>

definition dKey :: "Deposit \<Rightarrow> outpoint" where
  "dKey d = (dTxid d, dVout d)"

definition dRef :: "Deposit \<Rightarrow> string" where
  "dRef d = depositRef (dTxid d) (dVout d)"

definition rowRef :: "depositRow \<Rightarrow> string" where
  "rowRef r = depositRef (rwTxid r) (rwVout r)"

datatype job =
    JEscrow Deposit | JMarkEscrowed Deposit | JConfirm Deposit | JMarkConfirmed Deposit
  | JCancel Deposit | JMarkCancelled Deposit

record sys =
  syTxs :: btcDeposits
  syCashier :: db
  syJobs :: "nat \<Rightarrow> job list"

inductive sysStep :: "bool \<Rightarrow> watcherConfig \<Rightarrow> sys \<Rightarrow> sys \<Rightarrow> bool" for reorgs cf where
  Insert: "CHR '':'' \<notin> set (dTxid d) \<Longrightarrow> sysStep reorgs cf s (s\<lparr>syTxs := txInsert d (syTxs s)\<rparr>)"
| SoftDelete: "reorgs \<Longrightarrow> sysStep reorgs cf s (s\<lparr>syTxs := softDelete now h (syTxs s)\<rparr>)"
| HardDelete: "reorgs \<Longrightarrow> sysStep reorgs cf s (s\<lparr>syTxs := hardDelete h (syTxs s)\<rparr>)"
| ListNew: "syJobs s i = [] \<Longrightarrow>
    sysStep reorgs cf s (s\<lparr>syJobs := (syJobs s)(i := map JEscrow (ListNotEscrowed ks (syTxs s)))\<rparr>)"
| ListReady: "syJobs s i = [] \<Longrightarrow>
    sysStep reorgs cf s (s\<lparr>syJobs := (syJobs s)(i := map JConfirm (ListReadyToConfirm ks (wcConfirmations cf) h (syTxs s)))\<rparr>)"
| ListGone: "syJobs s i = [] \<Longrightarrow>
    sysStep reorgs cf s (s\<lparr>syJobs := (syJobs s)(i := map JCancel (ListReorgedEscrowed ks now age (syTxs s)))\<rparr>)"
| Escrow: "syJobs s i = JEscrow d # q \<Longrightarrow> clDepositEscrowed r (syCashier s) (dUserID d) (dSatoshis d) (dRef d) = (c, ok) \<Longrightarrow>
    sysStep reorgs cf s (s\<lparr>syCashier := c, syJobs := (syJobs s)(i := if ok then JMarkEscrowed d # q else q)\<rparr>)"
| MarkEsc: "syJobs s i = JMarkEscrowed d # q \<Longrightarrow> t = MarkEscrowed (dKey d) (syTxs s) \<or> t = syTxs s \<Longrightarrow>
    sysStep reorgs cf s (s\<lparr>syTxs := t, syJobs := (syJobs s)(i := q)\<rparr>)"
| Confirm: "syJobs s i = JConfirm d # q \<Longrightarrow> clConfirmDeposit r (syCashier s) (dUserID d) (dSatoshis d) (dRef d) = (c, ok) \<Longrightarrow>
    sysStep reorgs cf s (s\<lparr>syCashier := c, syJobs := (syJobs s)(i := if ok then JMarkConfirmed d # q else q)\<rparr>)"
| MarkConf: "syJobs s i = JMarkConfirmed d # q \<Longrightarrow> t = MarkConfirmed (dKey d) (syTxs s) \<or> t = syTxs s \<Longrightarrow>
    sysStep reorgs cf s (s\<lparr>syTxs := t, syJobs := (syJobs s)(i := q)\<rparr>)"
| Cancel: "syJobs s i = JCancel d # q \<Longrightarrow> clCancelDeposit r (syCashier s) (dUserID d) (dSatoshis d) (dRef d) = (c, ok) \<Longrightarrow>
    sysStep reorgs cf s (s\<lparr>syCashier := c, syJobs := (syJobs s)(i := if ok then JMarkCancelled d # q else q)\<rparr>)"
| MarkCanc: "syJobs s i = JMarkCancelled d # q \<Longrightarrow> t = MarkCancelled (dKey d) (syTxs s) \<or> t = syTxs s \<Longrightarrow>
    sysStep reorgs cf s (s\<lparr>syTxs := t, syJobs := (syJobs s)(i := q)\<rparr>)"

text \<open>A crash loses the queue of a node: its jobs are dropped.\<close>

inductive sysReach :: "bool \<Rightarrow> watcherConfig \<Rightarrow> sys \<Rightarrow> sys \<Rightarrow> bool" for reorgs cf s where
  reach_refl: "sysReach reorgs cf s s"
| reach_step: "sysReach reorgs cf s t \<Longrightarrow> sysStep reorgs cf t u \<Longrightarrow> sysReach reorgs cf s u"
| reach_crash: "sysReach reorgs cf s t \<Longrightarrow> sysReach reorgs cf s (t\<lparr>syJobs := (syJobs t)(i := [])\<rparr>)"

inductive_cases sysStepE: "sysStep reorgs cf s t"

lemma sysReach_trans: "sysReach reorgs cf t u \<Longrightarrow> sysReach reorgs cf s t \<Longrightarrow> sysReach reorgs cf s u"
  by (induction rule: sysReach.induct) (auto intro: sysReach.intros)

lemma sysStep_reach: "sysStep reorgs cf s t \<Longrightarrow> sysReach reorgs cf s t"
  by (rule reach_step [OF reach_refl])

section \<open>A handler alone is a run of its node\<close>

definition asSys :: "Watcher \<Rightarrow> (nat \<Rightarrow> job list) \<Rightarrow> sys" where
  "asSys w J = \<lparr>syTxs = wtTxs w, syCashier = wtCashier w, syJobs = J\<rparr>"

lemma asSys_simps [simp]:
  "syTxs (asSys w J) = wtTxs w" "syCashier (asSys w J) = wtCashier w" "syJobs (asSys w J) = J"
  "(asSys w J)\<lparr>syTxs := t\<rparr> = asSys (w\<lparr>wtTxs := t\<rparr>) J"
  "(asSys w J)\<lparr>syCashier := c\<rparr> = asSys (w\<lparr>wtCashier := c\<rparr>) J"
  "(asSys w J)\<lparr>syJobs := J'\<rparr> = asSys w J'"
  by (simp_all add: asSys_def)

lemma job_run:
  assumes "sysStep re cf (asSys w J) (asSys (w\<lparr>wtCashier := c\<rparr>) (J(i := if ok then mk # q else q)))"
    and "\<And>t'. t' = t \<or> t' = wtTxs w \<Longrightarrow> sysStep re cf (asSys (w\<lparr>wtCashier := c\<rparr>) (J(i := mk # q)))
      (asSys (w\<lparr>wtCashier := c, wtTxs := t'\<rparr>) (J(i := q)))"
  shows "sysReach re cf (asSys w J)
    (asSys (if \<not> ok \<or> fails then w\<lparr>wtCashier := c\<rparr> else w\<lparr>wtCashier := c, wtTxs := t\<rparr>) (J(i := q)))"
proof (cases ok)
  case True
  then have "sysReach re cf (asSys w J) (asSys (w\<lparr>wtCashier := c\<rparr>) (J(i := mk # q)))"
    using assms(1) by (intro sysStep_reach) simp
  moreover have "w\<lparr>wtCashier := c, wtTxs := wtTxs w\<rparr> = w\<lparr>wtCashier := c\<rparr>" by (cases w) simp
  ultimately show ?thesis
    using assms(2) [of t] assms(2) [of "wtTxs w"] True by (auto intro: reach_step)
next
  case False
  with assms(1) show ?thesis by (intro sysStep_reach) simp
qed

lemma escrowRow_run:
  assumes "J i = JEscrow d # q"
  shows "sysReach re cf (asSys w J) (asSys (escrowRow e d w) (J(i := q)))"
proof -
  obtain c ok where c: "clDepositEscrowed (weRpc e) (wtCashier w) (dUserID d) (dSatoshis d) (dRef d) = (c, ok)" by fastforce
  have row: "escrowRow e d w = (if \<not> ok \<or> weFails e (OpMarkEscrowed (dKey d)) then w\<lparr>wtCashier := c\<rparr>
      else w\<lparr>wtCashier := c, wtTxs := MarkEscrowed (dKey d) (wtTxs w)\<rparr>)"
    using c by (simp add: escrowRow_def dRef_def dKey_def)
  show ?thesis
    unfolding row
  proof (rule job_run [where mk = "JMarkEscrowed d"])
    show "sysStep re cf (asSys w J) (asSys (w\<lparr>wtCashier := c\<rparr>) (J(i := if ok then JMarkEscrowed d # q else q)))"
      using Escrow [of "asSys w J" i d q "weRpc e" c ok re cf] assms c by simp
    show "sysStep re cf (asSys (w\<lparr>wtCashier := c\<rparr>) (J(i := JMarkEscrowed d # q))) (asSys (w\<lparr>wtCashier := c, wtTxs := t\<rparr>) (J(i := q)))"
      if "t = MarkEscrowed (dKey d) (wtTxs w) \<or> t = wtTxs w" for t
      using MarkEsc [of "asSys (w\<lparr>wtCashier := c\<rparr>) (J(i := JMarkEscrowed d # q))" i d q t re cf] that by simp
  qed
qed

lemma confirmRow_run:
  assumes "J i = JConfirm d # q"
  shows "sysReach re cf (asSys w J) (asSys (confirmRow e d w) (J(i := q)))"
proof -
  obtain c ok where c: "clConfirmDeposit (weRpc e) (wtCashier w) (dUserID d) (dSatoshis d) (dRef d) = (c, ok)" by fastforce
  have row: "confirmRow e d w = (if \<not> ok \<or> weFails e (OpMarkConfirmed (dKey d)) then w\<lparr>wtCashier := c\<rparr>
      else w\<lparr>wtCashier := c, wtTxs := MarkConfirmed (dKey d) (wtTxs w)\<rparr>)"
    using c by (simp add: confirmRow_def dRef_def dKey_def)
  show ?thesis
    unfolding row
  proof (rule job_run [where mk = "JMarkConfirmed d"])
    show "sysStep re cf (asSys w J) (asSys (w\<lparr>wtCashier := c\<rparr>) (J(i := if ok then JMarkConfirmed d # q else q)))"
      using Confirm [of "asSys w J" i d q "weRpc e" c ok re cf] assms c by simp
    show "sysStep re cf (asSys (w\<lparr>wtCashier := c\<rparr>) (J(i := JMarkConfirmed d # q))) (asSys (w\<lparr>wtCashier := c, wtTxs := t\<rparr>) (J(i := q)))"
      if "t = MarkConfirmed (dKey d) (wtTxs w) \<or> t = wtTxs w" for t
      using MarkConf [of "asSys (w\<lparr>wtCashier := c\<rparr>) (J(i := JMarkConfirmed d # q))" i d q t re cf] that by simp
  qed
qed

lemma cancelRow_run:
  assumes "J i = JCancel d # q"
  shows "sysReach re cf (asSys w J) (asSys (cancelRow e d w) (J(i := q)))"
proof -
  obtain c ok where c: "clCancelDeposit (weRpc e) (wtCashier w) (dUserID d) (dSatoshis d) (dRef d) = (c, ok)" by fastforce
  have row: "cancelRow e d w = (if \<not> ok \<or> weFails e (OpMarkCancelled (dKey d)) then w\<lparr>wtCashier := c\<rparr>
      else w\<lparr>wtCashier := c, wtTxs := MarkCancelled (dKey d) (wtTxs w)\<rparr>)"
    using c by (simp add: cancelRow_def dRef_def dKey_def)
  show ?thesis
    unfolding row
  proof (rule job_run [where mk = "JMarkCancelled d"])
    show "sysStep re cf (asSys w J) (asSys (w\<lparr>wtCashier := c\<rparr>) (J(i := if ok then JMarkCancelled d # q else q)))"
      using Cancel [of "asSys w J" i d q "weRpc e" c ok re cf] assms c by simp
    show "sysStep re cf (asSys (w\<lparr>wtCashier := c\<rparr>) (J(i := JMarkCancelled d # q))) (asSys (w\<lparr>wtCashier := c, wtTxs := t\<rparr>) (J(i := q)))"
      if "t = MarkCancelled (dKey d) (wtTxs w) \<or> t = wtTxs w" for t
      using MarkCanc [of "asSys (w\<lparr>wtCashier := c\<rparr>) (J(i := JMarkCancelled d # q))" i d q t re cf] that by simp
  qed
qed

lemma queue_run:
  assumes "\<And>d q J w. J i = mk d # q \<Longrightarrow> sysReach re cf (asSys w J) (asSys (row d w) (J(i := q)))"
  shows "sysReach re cf (asSys w (J(i := map mk ds))) (asSys (fold row ds w) (J(i := [])))"
proof (induction ds arbitrary: w)
  case (Cons d ds)
  have "sysReach re cf (asSys w (J(i := map mk (d # ds)))) (asSys (row d w) (J(i := map mk ds)))"
    using assms [of "J(i := map mk (d # ds))" d "map mk ds" w] by simp
  from sysReach_trans [OF Cons.IH [of "row d w"] this] show ?case by (simp del: fun_upd_apply)
qed (simp add: reach_refl)

lemma listed_run:
  assumes "\<And>d q J w. J i = mk d # q \<Longrightarrow> sysReach re cf (asSys w J) (asSys (row d w) (J(i := q)))"
    and "sysStep re cf (asSys w J) (asSys w (J(i := map mk ds)))" and "J i = []"
  shows "sysReach re cf (asSys w J) (asSys (fold row ds w) J)"
proof -
  have "J(i := []) = J" using assms(3) by (simp add: fun_upd_idem)
  then show ?thesis
    using sysReach_trans [OF queue_run [where mk = mk and row = row, OF assms(1)] sysStep_reach [OF assms(2)]] by metis
qed

lemma retryEscrows_run:
  assumes "J i = []"
  shows "sysReach re cf (asSys w J) (asSys (retryEscrows e w) J)"
proof -
  have "sysStep re cf (asSys w J) (asSys w (J(i := map JEscrow (ListNotEscrowed (weOrder e) (wtTxs w)))))"
    using ListNew [of "asSys w J" i re cf "weOrder e"] assms by simp
  from listed_run [where mk = JEscrow and row = "escrowRow e", OF escrowRow_run this assms] show ?thesis
    by (simp add: retryEscrows_def reach_refl)
qed

lemma checkConfirmations_run:
  assumes "J i = []"
  shows "sysReach re cf (asSys w J) (asSys (checkConfirmations cf e h w) J)"
proof -
  have "sysStep re cf (asSys w J) (asSys w (J(i := map JConfirm (ListReadyToConfirm (weOrder e) (wcConfirmations cf) h (wtTxs w)))))"
    using ListReady [of "asSys w J" i re cf "weOrder e" h] assms by simp
  from listed_run [where mk = JConfirm and row = "confirmRow e", OF confirmRow_run this assms] show ?thesis
    by (simp add: checkConfirmations_def reach_refl)
qed

lemma cancelReorgedEscrows_run:
  assumes "J i = []"
  shows "sysReach re cf (asSys w J) (asSys (cancelReorgedEscrows cf e w) J)"
proof -
  have "sysStep re cf (asSys w J) (asSys w (J(i := map JCancel (ListReorgedEscrowed (weOrder e) (weNow e) age (wtTxs w)))))" for age
    using ListGone [of "asSys w J" i re cf "weOrder e" "weNow e" age] assms by simp
  from listed_run [where mk = JCancel and row = "cancelRow e", OF cancelRow_run this assms] show ?thesis
    by (simp add: cancelReorgedEscrows_def Let_def reach_refl)
qed

lemma insertOuts_run:
  assumes "CHR '':'' \<notin> set txid"
  shows "sysReach re cf (asSys w J) (asSys (w\<lparr>wtTxs := insertOuts lib e idx h txid vout outs (wtTxs w)\<rparr>) J)"
proof (induction outs arbitrary: vout w)
  case Nil
  then show ?case by (simp add: reach_refl)
next
  case (Cons out outs)
  let ?t = "case outputAddress lib (outPkScript out) of None \<Rightarrow> wtTxs w
     | Some a \<Rightarrow> (case idx a of None \<Rightarrow> wtTxs w | Some u \<Rightarrow> if weFails e (OpInsert (txid, vout)) then wtTxs w
         else txInsert \<lparr>dTxid = txid, dVout = vout, dUserID = u, dSatoshis = outValue out, dSeenAtHeight = h, dEscrowed = False\<rparr> (wtTxs w))"
  have "sysReach re cf (asSys w J) (asSys (w\<lparr>wtTxs := txInsert d (wtTxs w)\<rparr>) J)" if "dTxid d = txid" for d
    using Insert [of d re cf "asSys w J"] that assms by (intro sysStep_reach) simp
  then have "sysReach re cf (asSys w J) (asSys (w\<lparr>wtTxs := ?t\<rparr>) J)"
    by (auto simp: reach_refl split: option.split)
  with Cons.IH [of "w\<lparr>wtTxs := ?t\<rparr>" "vout + 1"] show ?case by (auto intro: sysReach_trans)
qed

lemma insertTxs_run:
  assumes "\<forall>tx \<in> set txs. CHR '':'' \<notin> set (txHash tx)"
  shows "sysReach re cf (asSys w J) (asSys (w\<lparr>wtTxs := insertTxs lib e idx h txs (wtTxs w)\<rparr>) J)"
  using assms
proof (induction txs arbitrary: w)
  case Nil
  then show ?case by (simp add: reach_refl)
next
  case (Cons tx txs)
  let ?w = "w\<lparr>wtTxs := insertOuts lib e idx h (txHash tx) 0 (txOuts tx) (wtTxs w)\<rparr>"
  have "sysReach re cf (asSys w J) (asSys ?w J)" using Cons.prems by (intro insertOuts_run) simp
  moreover have "sysReach re cf (asSys ?w J) (asSys (w\<lparr>wtTxs := insertTxs lib e idx h (tx # txs) (wtTxs w)\<rparr>) J)"
    using Cons.IH [of ?w] Cons.prems by simp
  ultimately show ?case by (blast intro: sysReach_trans)
qed

text \<open>Blocks carry hexadecimal transaction hashes.\<close>

definition eventOk :: "wEvent \<Rightarrow> bool" where
  "eventOk ev = (case ev of EvBlock e evt \<Rightarrow> (\<forall>tx \<in> set (beRelevantTxs evt). CHR '':'' \<notin> set (txHash tx)) | _ \<Rightarrow> True)"

definition isReorg :: "wEvent \<Rightarrow> bool" where
  "isReorg ev = (case ev of EvBlock e evt \<Rightarrow> \<not> beConnected evt | _ \<Rightarrow> False)"

lemma asSys_cong: "wtTxs w = wtTxs w' \<Longrightarrow> wtCashier w = wtCashier w' \<Longrightarrow> asSys w J = asSys w' J"
  by (simp add: asSys_def)

lemma watchEvent_run:
  assumes "J i = []" and "eventOk ev" and "isReorg ev \<longrightarrow> re"
  shows "sysReach re cf (asSys w J) (asSys (watchEvent lib cf ev w) J)"
proof (cases ev)
  case (EvPoll b us)
  have "asSys (fst (pollNewUsers lib b us w)) J = asSys w J"
    by (rule asSys_cong) (simp_all add: pollNewUsers_def Let_def split: option.split prod.split)
  with EvPoll show ?thesis by (simp add: watchEvent_def reach_refl)
next
  case (EvTick e)
  have "sysReach re cf (asSys w J) (asSys (cancelReorgedEscrows cf e (retryEscrows e w)) J)"
    using retryEscrows_run [of J i, OF assms(1)] cancelReorgedEscrows_run [of J i, OF assms(1)] by (blast intro: sysReach_trans)
  moreover from this have "sysReach re cf (asSys w J) (asSys (checkConfirmations cf e h (cancelReorgedEscrows cf e (retryEscrows e w))) J)" for h
    using checkConfirmations_run [of J i, OF assms(1)] by (blast intro: sysReach_trans)
  ultimately show ?thesis
    using EvTick by (simp add: watchEvent_def cashierTick_def Let_def reach_refl split: option.split)
next
  case (EvBlock e evt)
  show ?thesis
  proof (cases "beConnected evt")
    case True
    let ?w = "w\<lparr>wtTxs := insertTxs lib e (wtIndex w) (beHeight evt) (beRelevantTxs evt) (wtTxs w)\<rparr>"
    have 1: "sysReach re cf (asSys w J) (asSys ?w J)"
      using assms(2) EvBlock by (intro insertTxs_run) (simp add: eventOk_def)
    moreover from this have "sysReach re cf (asSys w J) (asSys (retryEscrows e ?w) J)"
      using retryEscrows_run [of J i, OF assms(1)] by (blast intro: sysReach_trans)
    moreover from this have "sysReach re cf (asSys w J) (asSys (checkConfirmations cf e (beHeight evt) (retryEscrows e ?w)) J)"
      using checkConfirmations_run [of J i, OF assms(1)] by (blast intro: sysReach_trans)
    ultimately show ?thesis
      using EvBlock True by (simp add: watchEvent_def handleBlockConnected_def Let_def)
  next
    case False
    with EvBlock assms(3) have re: "re" by (simp add: isReorg_def)
    have 1: "sysReach re cf (asSys w J) (asSys (w\<lparr>wtTxs := softDelete n h (wtTxs w)\<rparr>) J)" for n h
      using SoftDelete [OF re, of cf "asSys w J" n h] by (intro sysStep_reach) simp
    have 2: "sysReach re cf (asSys w J) (asSys (w\<lparr>wtTxs := hardDelete h' (softDelete n h (wtTxs w))\<rparr>) J)" for n h h'
      using HardDelete [OF re, of cf "asSys (w\<lparr>wtTxs := softDelete n h (wtTxs w)\<rparr>) J" h']
      by (intro reach_step [OF 1]) simp
    from 1 2 EvBlock False show ?thesis
      by (auto simp: watchEvent_def DeleteFromHeight_def Let_def reach_refl)
  qed
qed (simp_all add: watchEvent_def reach_refl)

end
