(* ===== verification/WatcherInv.thy ===== *)
theory WatcherInv
  imports WatcherSteps
begin

text \<open>
  The accounts a growing chain gives: with no block disconnected, every user's
  balances at the cashier are exactly the sums of the recorded outputs the cashier
  has been told of, whatever fails and however the nodes interleave. The invariant
  relates the rows of the watchers' table, the cashier's idempotency keys and its
  accounts, and says what every job in a queue may rely on.
\<close>

section \<open>References and keys\<close>

lemma depositRef_txid: "CHR '':'' \<notin> set a \<Longrightarrow> takeWhile (\<lambda>c. c \<noteq> CHR '':'') (depositRef a m) = a"
  by (auto simp: depositRef_def takeWhile_tail)

lemma depositRef_inj:
  assumes "CHR '':'' \<notin> set a" and "CHR '':'' \<notin> set b"
  shows "depositRef a m = depositRef b n \<longleftrightarrow> a = b \<and> m = n"
proof
  assume eq: "depositRef a m = depositRef b n"
  then have "a = b" using depositRef_txid [OF assms(1), of m] depositRef_txid [OF assms(2), of n] by simp
  with eq show "a = b \<and> m = n" by (simp add: depositRef_def itoa_inj)
qed simp

lemma confirmKey_neq_ref: "CHR '':'' \<notin> set a \<Longrightarrow> confirmKey (depositRef b n) \<noteq> depositRef a m"
proof
  assume a: "CHR '':'' \<notin> set a" and eq: "confirmKey (depositRef b n) = depositRef a m"
  have "takeWhile (\<lambda>c. c \<noteq> CHR '':'') (confirmKey (depositRef b n)) = ''confirm''" by (simp add: confirmKey_def)
  then have "a = ''confirm''" using eq depositRef_txid [OF a, of m] by simp
  with eq have "depositRef b n = itoa m" by (simp add: confirmKey_def depositRef_def)
  moreover have "CHR '':'' \<in> set (depositRef b n)" by (simp add: depositRef_def)
  ultimately show False using itoa_no_colon by simp
qed

lemma confirmKey_inj [simp]: "confirmKey a = confirmKey b \<longleftrightarrow> a = b"
  by (simp add: confirmKey_def)

section \<open>Sums over the table\<close>

definition total :: "(string \<Rightarrow> bool) \<Rightarrow> btcDeposits \<Rightarrow> string \<Rightarrow> int" where
  "total q t u = sum_list (map rwSatoshis (filter (\<lambda>r. rwUser r = u \<and> q (rowRef r)) t))"

lemma total_snoc: "total q (t @ [r]) u = total q t u + (if rwUser r = u \<and> q (rowRef r) then rwSatoshis r else 0)"
  by (simp add: total_def)

lemma total_cong: "(\<And>r. r \<in> set t \<Longrightarrow> q (rowRef r) = q' (rowRef r)) \<Longrightarrow> total q t u = total q' t u"
  by (auto simp: total_def intro!: arg_cong [where f = "\<lambda>xs. sum_list (map rwSatoshis xs)"] filter_cong)

lemma total_flip:
  assumes "r0 \<in> set t" and "distinct (map rowRef t)" and "q' (rowRef r0) \<noteq> q (rowRef r0)"
    and "\<And>r. r \<in> set t \<Longrightarrow> rowRef r \<noteq> rowRef r0 \<Longrightarrow> q' (rowRef r) = q (rowRef r)"
  shows "total q' t u = total q t u + (if rwUser r0 = u then if q' (rowRef r0) then rwSatoshis r0 else - rwSatoshis r0 else 0)"
  using assms
proof (induction t)
  case (Cons r t)
  show ?case
  proof (cases "r = r0")
    case True
    with Cons.prems have "total q' t u = total q t u"
      by (intro total_cong) (metis distinct.simps(2) imageI list.set_intros(2) list.set_map list.simps(9))
    with True Cons.prems(3) show ?thesis by (auto simp: total_def)
  next
    case False
    with Cons.prems have "rowRef r \<noteq> rowRef r0" by auto
    then have "q' (rowRef r) = q (rowRef r)" using Cons.prems(4) by auto
    with False Cons show ?thesis by (auto simp: total_def)
  qed
qed simp

text \<open>An update of the flags of rows.\<close>

definition flagsOnly :: "(depositRow \<Rightarrow> depositRow) \<Rightarrow> bool" where
  "flagsOnly f \<longleftrightarrow> (\<forall>r. rwTxid (f r) = rwTxid r \<and> rwVout (f r) = rwVout r \<and> rwUser (f r) = rwUser r \<and>
     rwSatoshis (f r) = rwSatoshis r)"

lemma flagsOnly_simps:
  assumes "flagsOnly f"
  shows "rowKey (f r) = rowKey r" and "rowRef (f r) = rowRef r" and "rwUser (f r) = rwUser r"
    and "rwSatoshis (f r) = rwSatoshis r" and "rwTxid (f r) = rwTxid r"
  using assms by (simp_all add: flagsOnly_def rowKey_def rowRef_def)

lemma flagsOnly_if: "flagsOnly f \<Longrightarrow> flagsOnly (\<lambda>r. if p r then f r else r)"
  by (simp add: flagsOnly_def)

lemma total_map: "flagsOnly f \<Longrightarrow> total q (map f t) u = total q t u"
  by (induction t) (simp_all add: total_def flagsOnly_simps)

lemma marks_flagsOnly: "flagsOnly (\<lambda>r. r\<lparr>rwEscrowed := b\<rparr>)" "flagsOnly (\<lambda>r. r\<lparr>rwConfirmed := b\<rparr>)"
  by (simp_all add: flagsOnly_def)

section \<open>The invariant\<close>

definition grossOf :: "db \<Rightarrow> string \<Rightarrow> int" where
  "grossOf d u = (case accounts d u of None \<Rightarrow> 0 | Some a \<Rightarrow> acGross a)"

definition escrowedOf :: "db \<Rightarrow> string \<Rightarrow> int" where
  "escrowedOf d u = (case accounts d u of None \<Rightarrow> 0 | Some a \<Rightarrow> acEscrowed a)"

definition rowsOk :: "btcDeposits \<Rightarrow> bool" where
  "rowsOk t \<longleftrightarrow> distinct (map rowKey t) \<and>
     (\<forall>r \<in> set t. CHR '':'' \<notin> set (rwTxid r) \<and> 0 < rwSatoshis r \<and> rwReorgedAt r = None)"

definition creditedRef :: "db \<Rightarrow> string \<Rightarrow> bool" where
  "creditedRef d ref \<longleftrightarrow> ref \<in> idempotencyKeys d"

definition pendingRef :: "db \<Rightarrow> string \<Rightarrow> bool" where
  "pendingRef d ref \<longleftrightarrow> ref \<in> idempotencyKeys d \<and> confirmKey ref \<notin> idempotencyKeys d"

definition keysOk :: "btcDeposits \<Rightarrow> db \<Rightarrow> bool" where
  "keysOk t d \<longleftrightarrow> (\<forall>k \<in> idempotencyKeys d. \<exists>r \<in> set t. k = rowRef r \<or> (k = confirmKey (rowRef r) \<and> rowRef r \<in> idempotencyKeys d)) \<and>
     (\<forall>r \<in> set t. (rwEscrowed r \<longrightarrow> rowRef r \<in> idempotencyKeys d) \<and> (rwConfirmed r \<longrightarrow> confirmKey (rowRef r) \<in> idempotencyKeys d))"

definition balanced :: "btcDeposits \<Rightarrow> db \<Rightarrow> bool" where
  "balanced t d \<longleftrightarrow> (\<forall>u. grossOf d u = total (creditedRef d) t u \<and> escrowedOf d u = total (pendingRef d) t u)"

definition accounted :: "btcDeposits \<Rightarrow> db \<Rightarrow> bool" where
  "accounted t d \<longleftrightarrow> rowsOk t \<and> dbOk d \<and> keysOk t d \<and> balanced t d"

definition hasRow :: "btcDeposits \<Rightarrow> Deposit \<Rightarrow> bool" where
  "hasRow t d \<longleftrightarrow> (\<exists>r \<in> set t. rowKey r = dKey d \<and> rwUser r = dUserID d \<and> rwSatoshis r = dSatoshis d)"

fun backed :: "btcDeposits \<Rightarrow> db \<Rightarrow> job \<Rightarrow> bool" where
  "backed t c (JEscrow d) = hasRow t d"
| "backed t c (JMarkEscrowed d) = (hasRow t d \<and> dRef d \<in> idempotencyKeys c)"
| "backed t c (JConfirm d) = (hasRow t d \<and> dRef d \<in> idempotencyKeys c)"
| "backed t c (JMarkConfirmed d) = (hasRow t d \<and> confirmKey (dRef d) \<in> idempotencyKeys c)"
| "backed t c (JCancel d) = False"
| "backed t c (JMarkCancelled d) = False"

definition sysInv :: "sys \<Rightarrow> bool" where
  "sysInv s \<longleftrightarrow> accounted (syTxs s) (syCashier s) \<and> (\<forall>i. \<forall>j \<in> set (syJobs s i). backed (syTxs s) (syCashier s) j)"

lemma rowsOk_refs:
  assumes "rowsOk t"
  shows "distinct (map rowRef t)"
    and "r \<in> set t \<Longrightarrow> r' \<in> set t \<Longrightarrow> rowRef r = rowRef r' \<longleftrightarrow> rowKey r = rowKey r'"
    and "r \<in> set t \<Longrightarrow> r' \<in> set t \<Longrightarrow> confirmKey (rowRef r) \<noteq> rowRef r'"
proof -
  show 2: "r \<in> set t \<Longrightarrow> r' \<in> set t \<Longrightarrow> rowRef r = rowRef r' \<longleftrightarrow> rowKey r = rowKey r'" for r r'
    using assms depositRef_inj by (auto simp: rowsOk_def rowRef_def rowKey_def)
  show "r \<in> set t \<Longrightarrow> r' \<in> set t \<Longrightarrow> confirmKey (rowRef r) \<noteq> rowRef r'"
    using assms confirmKey_neq_ref by (auto simp: rowsOk_def rowRef_def)
  have "distinct t" "inj_on rowKey (set t)" using assms by (auto simp: rowsOk_def distinct_map)
  then show "distinct (map rowRef t)" using 2 by (auto simp: distinct_map inj_on_def)
qed

lemma hasRow_ref: "hasRow t d \<Longrightarrow> \<exists>r \<in> set t. rowRef r = dRef d \<and> rwUser r = dUserID d \<and> rwSatoshis r = dSatoshis d"
  unfolding hasRow_def rowKey_def rowRef_def dKey_def dRef_def by (metis prod.inject)

lemma bump_balances:
  assumes "bump d u g e = Some d'"
  shows "grossOf d' v = grossOf d v + (if v = u then g else 0)" and "escrowedOf d' v = escrowedOf d v + (if v = u then e else 0)"
  using assms by (auto simp: bump_def Let_def grossOf_def escrowedOf_def split: if_splits option.splits)

section \<open>Table statements\<close>

lemma rowsOk_map:
  assumes "flagsOnly f" and "\<And>r. rwReorgedAt (f r) = rwReorgedAt r" and "rowsOk t"
  shows "rowsOk (map f t)"
proof -
  have "map rowKey (map f t) = map rowKey t" by (simp add: flagsOnly_simps [OF assms(1)])
  with assms(3) show ?thesis
    by (simp add: rowsOk_def flagsOnly_simps [OF assms(1)] assms(2) del: map_map)
qed

lemma hasRow_map: "flagsOnly f \<Longrightarrow> hasRow (map f t) d \<longleftrightarrow> hasRow t d"
  by (simp add: hasRow_def flagsOnly_simps)

lemma backed_map: "flagsOnly f \<Longrightarrow> backed (map f t) c j \<longleftrightarrow> backed t c j"
  by (cases j) (simp_all add: hasRow_map)

lemma accounted_map:
  assumes "flagsOnly f" and "\<And>r. rwReorgedAt (f r) = rwReorgedAt r" and "accounted t c"
    and "\<And>r. r \<in> set t \<Longrightarrow> rwEscrowed (f r) \<Longrightarrow> rowRef r \<in> idempotencyKeys c"
    and "\<And>r. r \<in> set t \<Longrightarrow> rwConfirmed (f r) \<Longrightarrow> confirmKey (rowRef r) \<in> idempotencyKeys c"
  shows "accounted (map f t) c"
proof -
  have "keysOk (map f t) c"
    using assms(3-5) by (simp add: accounted_def keysOk_def flagsOnly_simps [OF assms(1)])
  then show ?thesis
    using assms(3) rowsOk_map [OF assms(1,2), of t] by (simp add: accounted_def balanced_def total_map [OF assms(1)])
qed

lemma dKey_ref: "rowKey r = dKey d \<Longrightarrow> rowRef r = dRef d"
  by (simp add: rowKey_def dKey_def rowRef_def dRef_def)

lemma accounted_flags:
  assumes "accounted t c" and "r \<in> set t"
  shows "rwEscrowed r \<Longrightarrow> rowRef r \<in> idempotencyKeys c" and "rwConfirmed r \<Longrightarrow> confirmKey (rowRef r) \<in> idempotencyKeys c"
  using assms by (simp_all add: accounted_def keysOk_def)

lemma accounted_mark:
  assumes "accounted t c" and "dRef d \<in> idempotencyKeys c"
  shows "accounted (MarkEscrowed (dKey d) t) c"
  unfolding MarkEscrowed_def updateWhere_def
  using assms accounted_flags [OF assms(1)]
  by (intro accounted_map flagsOnly_if marks_flagsOnly) (auto dest: dKey_ref split: if_splits)

lemma accounted_markConfirmed:
  assumes "accounted t c" and "confirmKey (dRef d) \<in> idempotencyKeys c"
  shows "accounted (MarkConfirmed (dKey d) t) c"
  unfolding MarkConfirmed_def updateWhere_def
  using assms accounted_flags [OF assms(1)]
  by (intro accounted_map flagsOnly_if marks_flagsOnly) (auto dest: dKey_ref split: if_splits)

lemma backed_marks: "backed (MarkEscrowed k t) c j \<longleftrightarrow> backed t c j" "backed (MarkConfirmed k t) c j \<longleftrightarrow> backed t c j"
  unfolding MarkEscrowed_def MarkConfirmed_def updateWhere_def
  by (rule backed_map, intro flagsOnly_if marks_flagsOnly)+

lemma txInsert_cases:
  assumes "rowsOk t"
  shows "txInsert d t = t \<or> (dKey d \<notin> rowKey ` set t \<and> 0 < dSatoshis d \<and>
    txInsert d t = t @ [\<lparr>rwTxid = dTxid d, rwVout = dVout d, rwUser = dUserID d, rwSatoshis = dSatoshis d,
      rwSeenAtHeight = dSeenAtHeight d, rwEscrowed = False, rwConfirmed = False, rwReorgedAt = None\<rparr>])"
proof -
  have "updateWhere (\<lambda>r. p r \<and> rwReorgedAt r \<noteq> None) f t = t" for p f
    using assms by (auto simp: updateWhere_def rowsOk_def intro: map_idI)
  then show ?thesis by (simp add: txInsert_def dKey_def)
qed

lemma accounted_insert:
  assumes "accounted t c" and "CHR '':'' \<notin> set (dTxid d)"
  shows "accounted (txInsert d t) c"
proof (cases "txInsert d t = t")
  case False
  from assms(1) have ok: "rowsOk t" and k: "keysOk t c" by (simp_all add: accounted_def)
  let ?r = "\<lparr>rwTxid = dTxid d, rwVout = dVout d, rwUser = dUserID d, rwSatoshis = dSatoshis d,
      rwSeenAtHeight = dSeenAtHeight d, rwEscrowed = False, rwConfirmed = False, rwReorgedAt = None\<rparr>"
  from False txInsert_cases [OF ok, of d] have new: "dKey d \<notin> rowKey ` set t" "0 < dSatoshis d" and t': "txInsert d t = t @ [?r]"
    by auto
  have rk: "rowKey ?r = dKey d" by (simp add: rowKey_def dKey_def)
  have ok': "rowsOk (t @ [?r])" using ok new assms(2) rk by (auto simp: rowsOk_def)
  have "rowRef r \<noteq> rowRef ?r" "confirmKey (rowRef r) \<noteq> rowRef ?r" if "r \<in> set t" for r
    using rowsOk_refs(2,3) [OF ok', of r ?r] that new(1) rk by force+
  then have fresh: "rowRef ?r \<notin> idempotencyKeys c" using k unfolding keysOk_def by metis
  have "keysOk (t @ [?r]) c" using k by (auto simp: keysOk_def)
  with assms(1) ok' fresh t' show ?thesis
    by (simp add: accounted_def balanced_def total_snoc creditedRef_def pendingRef_def)
qed (use assms in simp)

lemma backed_insert: "rowsOk t \<Longrightarrow> backed t c j \<Longrightarrow> backed (txInsert d t) c j"
  using txInsert_cases [of t d] by (cases j) (auto simp: hasRow_def)

section \<open>Calls\<close>

lemma backed_mono: "idempotencyKeys c \<subseteq> idempotencyKeys c' \<Longrightarrow> backed t c j \<Longrightarrow> backed t c' j"
  by (cases j) auto

lemma accounted_escrow:
  assumes "accounted t c" and "hasRow t d" and "effect c (CDepositEscrowed (dUserID d) (dRef d) (dSatoshis d)) = Some c'"
  shows "accounted t c'"
proof -
  from assms(1) have ok: "rowsOk t" and k: "keysOk t c" and b: "balanced t c" by (simp_all add: accounted_def)
  obtain r where r: "r \<in> set t" "rowRef r = dRef d" "rwUser r = dUserID d" "rwSatoshis r = dSatoshis d"
    using hasRow_ref [OF assms(2)] by blast
  from assms(3) have fresh: "dRef d \<notin> idempotencyKeys c" and bump: "bump (addKey c (dRef d)) (dUserID d) (dSatoshis d) (dSatoshis d) = Some c'"
    by (auto split: if_splits)
  have keys: "idempotencyKeys c' = insert (dRef d) (idempotencyKeys c)" using bump_keys [OF bump] by simp
  have noconf: "confirmKey (dRef d) \<notin> idempotencyKeys c"
    using k fresh rowsOk_refs(3) [OF ok r(1)] r(2) unfolding keysOk_def by (metis confirmKey_inj)
  have "keysOk t c'" using k r keys unfolding keysOk_def by (metis insertCI insertE)
  moreover have "balanced t c'"
    unfolding balanced_def
  proof (intro allI conjI)
    fix u
    have g: "grossOf (addKey c k) v = grossOf c v" "escrowedOf (addKey c k) v = escrowedOf c v" for k v
      by (simp_all add: grossOf_def escrowedOf_def)
    have "total (creditedRef c') t u = total (creditedRef c) t u + (if rwUser r = u then rwSatoshis r else 0)"
      using total_flip [OF r(1) rowsOk_refs(1) [OF ok], of "creditedRef c'" "creditedRef c" u] fresh keys r(2)
      by (simp add: creditedRef_def)
    then show "grossOf c' u = total (creditedRef c') t u"
      using bump_balances(1) [OF bump, of u] b r by (auto simp: balanced_def g)
    have "total (pendingRef c') t u = total (pendingRef c) t u + (if rwUser r = u then rwSatoshis r else 0)"
      using total_flip [OF r(1) rowsOk_refs(1) [OF ok], of "pendingRef c'" "pendingRef c" u] fresh noconf keys r(2)
        rowsOk_refs(3) [OF ok _ r(1)] rowsOk_refs(3) [OF ok r(1) r(1)]
      by (simp add: pendingRef_def)
    then show "escrowedOf c' u = total (pendingRef c') t u"
      using bump_balances(2) [OF bump, of u] b r by (auto simp: balanced_def g)
  qed
  moreover have "dbOk c'" using assms(1,3) effect_dbOk by (auto simp: accounted_def simp del: effect.simps)
  ultimately show ?thesis using ok by (simp add: accounted_def)
qed

lemma accounted_confirm:
  assumes "accounted t c" and "hasRow t d" and "dRef d \<in> idempotencyKeys c"
    and "effect c (CConfirmDeposit (dUserID d) (dRef d) (dSatoshis d)) = Some c'"
  shows "accounted t c'"
proof -
  from assms(1) have ok: "rowsOk t" and k: "keysOk t c" and b: "balanced t c" by (simp_all add: accounted_def)
  obtain r where r: "r \<in> set t" "rowRef r = dRef d" "rwUser r = dUserID d" "rwSatoshis r = dSatoshis d"
    using hasRow_ref [OF assms(2)] by blast
  from assms(4) have fresh: "confirmKey (dRef d) \<notin> idempotencyKeys c"
    and bump: "bump (addKey c (confirmKey (dRef d))) (dUserID d) 0 (- dSatoshis d) = Some c'"
    by (auto split: if_splits)
  have keys: "idempotencyKeys c' = insert (confirmKey (dRef d)) (idempotencyKeys c)" using bump_keys [OF bump] by simp
  have "keysOk t c'" using k r keys assms(3) unfolding keysOk_def by (metis insertCI insertE)
  moreover have "balanced t c'"
    unfolding balanced_def
  proof (intro allI conjI)
    fix u
    have g: "grossOf (addKey c k) v = grossOf c v" "escrowedOf (addKey c k) v = escrowedOf c v" for k v
      by (simp_all add: grossOf_def escrowedOf_def)
    have "total (creditedRef c') t u = total (creditedRef c) t u"
      using keys rowsOk_refs(3) [OF ok r(1)] r(2) by (intro total_cong) (metis creditedRef_def insertE insertI2)
    then show "grossOf c' u = total (creditedRef c') t u"
      using bump_balances(1) [OF bump, of u] b by (auto simp: balanced_def g)
    have "total (pendingRef c') t u = total (pendingRef c) t u - (if rwUser r = u then rwSatoshis r else 0)"
      using total_flip [OF r(1) rowsOk_refs(1) [OF ok], of "pendingRef c'" "pendingRef c" u] fresh keys r(2) assms(3)
        rowsOk_refs(3) [OF ok r(1)] rowsOk_refs(3) [OF ok r(1), symmetric]
      by (simp add: pendingRef_def)
    then show "escrowedOf c' u = total (pendingRef c') t u"
      using bump_balances(2) [OF bump, of u] b r by (auto simp: balanced_def g)
  qed
  moreover have "dbOk c'" using assms(1,4) effect_dbOk by (auto simp: accounted_def simp del: effect.simps)
  ultimately show ?thesis using ok by (simp add: accounted_def)
qed

section \<open>Every step keeps the invariant\<close>

lemma set_scanOrder [simp]: "set (scanOrder ks t) = set t"
  by (simp add: scanOrder_def)

lemma scan_hasRow: "d \<in> set (scanDeposits rs) \<Longrightarrow> set rs \<subseteq> set t \<Longrightarrow> \<exists>r \<in> set rs. r \<in> set t \<and> rowKey r = dKey d \<and>
    rwUser r = dUserID d \<and> rwSatoshis r = dSatoshis d"
  by (auto simp: scanDeposits_def rowKey_def dKey_def)

lemma listed_backed:
  assumes "accounted t c"
  shows "d \<in> set (ListNotEscrowed ks t) \<Longrightarrow> backed t c (JEscrow d)"
    and "d \<in> set (ListReadyToConfirm ks n h t) \<Longrightarrow> backed t c (JConfirm d)"
    and "ListReorgedEscrowed ks now age t = []"
proof -
  show "d \<in> set (ListNotEscrowed ks t) \<Longrightarrow> backed t c (JEscrow d)"
    unfolding ListNotEscrowed_def by (drule scan_hasRow [of d _ t]) (auto simp: hasRow_def)
  show "backed t c (JConfirm d)" if listed: "d \<in> set (ListReadyToConfirm ks n h t)"
  proof -
    obtain r where "r \<in> set t" "rwEscrowed r" "rowKey r = dKey d" "rwUser r = dUserID d" "rwSatoshis r = dSatoshis d"
      using scan_hasRow [OF listed [unfolded ListReadyToConfirm_def], of t] by (auto simp: readyRow_def)
    then show ?thesis
      using dKey_ref [of r d] accounted_flags(1) [OF assms, of r] by (auto simp: hasRow_def)
  qed
  have "\<forall>r \<in> set t. rwReorgedAt r = None" using assms by (simp add: accounted_def rowsOk_def)
  then show "ListReorgedEscrowed ks now age t = []"
    by (auto simp: ListReorgedEscrowed_def scanDeposits_def filter_empty_conv split: option.split)
qed

lemma call_escrow:
  assumes "accounted t c" and "hasRow t d" and "clDepositEscrowed r c (dUserID d) (dSatoshis d) (dRef d) = (c', ok)"
  shows "accounted t c'" and "idempotencyKeys c \<subseteq> idempotencyKeys c'" and "ok \<Longrightarrow> dRef d \<in> idempotencyKeys c'"
proof -
  have db: "dbOk c" using assms(1) by (simp add: accounted_def)
  note call = callCashier_cases [OF db assms(3) [unfolded cl_exec]]
  show "accounted t c'" using call assms(1) accounted_escrow [OF assms(1,2)] by blast
  show "idempotencyKeys c \<subseteq> idempotencyKeys c'" by (rule callCashier_keys [OF db assms(3) [unfolded cl_exec]])
  show "ok \<Longrightarrow> dRef d \<in> idempotencyKeys c'" using call by (simp add: keyOf_def)
qed

lemma call_confirm:
  assumes "accounted t c" and "hasRow t d" and "dRef d \<in> idempotencyKeys c"
    and "clConfirmDeposit r c (dUserID d) (dSatoshis d) (dRef d) = (c', ok)"
  shows "accounted t c'" and "idempotencyKeys c \<subseteq> idempotencyKeys c'" and "ok \<Longrightarrow> confirmKey (dRef d) \<in> idempotencyKeys c'"
proof -
  have db: "dbOk c" using assms(1) by (simp add: accounted_def)
  note call = callCashier_cases [OF db assms(4) [unfolded cl_exec]]
  show "accounted t c'" using call assms(1) accounted_confirm [OF assms(1-3)] by blast
  show "idempotencyKeys c \<subseteq> idempotencyKeys c'" by (rule callCashier_keys [OF db assms(4) [unfolded cl_exec]])
  show "ok \<Longrightarrow> confirmKey (dRef d) \<in> idempotencyKeys c'" using call by (simp add: keyOf_def)
qed

lemma sysInv_jobs:
  assumes "accounted t c" and "\<And>j i. j \<in> set (J i) \<Longrightarrow> backed t c j" and "\<And>j. j \<in> set q \<Longrightarrow> backed t c j"
  shows "sysInv \<lparr>syTxs = t, syCashier = c, syJobs = J(i := q)\<rparr>"
  using assms by (auto simp: sysInv_def)

lemma sysInv_step:
  assumes "sysStep False cf s s'" and "sysInv s"
  shows "sysInv s'"
proof -
  obtain t c J where s: "s = \<lparr>syTxs = t, syCashier = c, syJobs = J\<rparr>" by (cases s)
  from assms(2) s have acc: "accounted t c" and ok: "rowsOk t" and jobs: "\<And>i j. j \<in> set (J i) \<Longrightarrow> backed t c j"
    by (auto simp: sysInv_def accounted_def)
  from assms(1) show ?thesis
  proof (cases rule: sysStep.cases)
    case (Insert d)
    then show ?thesis
      using accounted_insert [OF acc] backed_insert [OF ok] jobs by (auto simp: s sysInv_def)
  next
    case (ListNew i ks)
    then show ?thesis using acc jobs listed_backed(1) [OF acc] by (auto simp: s intro!: sysInv_jobs)
  next
    case (ListReady i ks h)
    then show ?thesis using acc jobs listed_backed(2) [OF acc] by (auto simp: s simp del: backed.simps intro!: sysInv_jobs)
  next
    case (ListGone i ks now age)
    then show ?thesis using acc jobs listed_backed(3) [OF acc] by (auto simp: s intro!: sysInv_jobs)
  next
    case (Escrow i d q r c' ok)
    have q: "backed t c (JEscrow d)" "\<And>j. j \<in> set q \<Longrightarrow> backed t c j"
      using jobs [of "JEscrow d" i] jobs [of _ i] Escrow by (simp_all add: s)
    have call: "clDepositEscrowed r c (dUserID d) (dSatoshis d) (dRef d) = (c', ok)" using Escrow by (simp add: s)
    note e = call_escrow [OF acc _ call]
    show ?thesis
      unfolding Escrow(1) using e q backed_mono jobs by (auto simp: s intro!: sysInv_jobs)
  next
    case (MarkEsc i d q t')
    have q: "backed t c (JMarkEscrowed d)" "\<And>j. j \<in> set q \<Longrightarrow> backed t c j"
      using jobs [of "JMarkEscrowed d" i] jobs [of _ i] MarkEsc by (simp_all add: s)
    then show ?thesis
      using MarkEsc acc accounted_mark jobs by (auto simp: s backed_marks intro!: sysInv_jobs)
  next
    case (Confirm i d q r c' ok)
    have q: "backed t c (JConfirm d)" "\<And>j. j \<in> set q \<Longrightarrow> backed t c j"
      using jobs [of "JConfirm d" i] jobs [of _ i] Confirm by (simp_all add: s)
    have call: "clConfirmDeposit r c (dUserID d) (dSatoshis d) (dRef d) = (c', ok)" using Confirm by (simp add: s)
    note e = call_confirm [OF acc _ _ call]
    show ?thesis
      unfolding Confirm(1) using e q backed_mono jobs by (auto simp: s intro!: sysInv_jobs)
  next
    case (MarkConf i d q t')
    have q: "backed t c (JMarkConfirmed d)" "\<And>j. j \<in> set q \<Longrightarrow> backed t c j"
      using jobs [of "JMarkConfirmed d" i] jobs [of _ i] MarkConf by (simp_all add: s)
    then show ?thesis
      using MarkConf acc accounted_markConfirmed jobs by (auto simp: s backed_marks intro!: sysInv_jobs)
  next
    case (Cancel i d q r c' ok)
    then show ?thesis using jobs [of "JCancel d" i] by (simp add: s)
  next
    case (MarkCanc i d q t')
    then show ?thesis using jobs [of "JMarkCancelled d" i] by (simp add: s)
  qed auto
qed

lemma sysInv_reach: "sysReach False cf s t \<Longrightarrow> sysInv s \<Longrightarrow> sysInv t"
proof (induction rule: sysReach.induct)
  case (reach_step t u)
  then show ?case using sysInv_step by blast
next
  case (reach_crash t i)
  then show ?case by (auto simp: sysInv_def)
qed

lemma sysInv_init: "sysInv \<lparr>syTxs = [], syCashier = emptyDb, syJobs = (\<lambda>_. [])\<rparr>"
  by (simp add: sysInv_def accounted_def rowsOk_def keysOk_def balanced_def emptyDb_ok)
    (simp add: emptyDb_def grossOf_def escrowedOf_def total_def)

end
