(* ===== verification/WatcherLive.thy ===== *)
theory WatcherLive
  imports WatcherInv
begin

text \<open>
  What the loops of the watcher do to the table and to the keys of the cashier, first
  under all faults, then when nothing fails: every listed row is escrowed or confirmed.
\<close>

section \<open>Under all faults\<close>

text \<open>The rows are the same up to their flags.\<close>

definition sameRows :: "btcDeposits \<Rightarrow> btcDeposits \<Rightarrow> bool" where
  "sameRows t t' \<longleftrightarrow> (\<exists>f. t' = map f t \<and> flagsOnly f \<and>
     (\<forall>r. rwSeenAtHeight (f r) = rwSeenAtHeight r \<and> rwReorgedAt (f r) = rwReorgedAt r \<and> (rwEscrowed r \<longrightarrow> rwEscrowed (f r))))"

lemma sameRows_refl: "sameRows t t"
  unfolding sameRows_def by (rule exI [of _ id]) (simp add: flagsOnly_def)

lemma sameRows_trans: "sameRows t t' \<Longrightarrow> sameRows t' t'' \<Longrightarrow> sameRows t t''"
proof -
  assume "sameRows t t'" "sameRows t' t''"
  then obtain f g where "t' = map f t" "flagsOnly f" "t'' = map g t'" "flagsOnly g"
    and "\<forall>r. rwSeenAtHeight (f r) = rwSeenAtHeight r \<and> rwReorgedAt (f r) = rwReorgedAt r \<and> (rwEscrowed r \<longrightarrow> rwEscrowed (f r))"
    and "\<forall>r. rwSeenAtHeight (g r) = rwSeenAtHeight r \<and> rwReorgedAt (g r) = rwReorgedAt r \<and> (rwEscrowed r \<longrightarrow> rwEscrowed (g r))"
    unfolding sameRows_def by blast
  then show ?thesis
    unfolding sameRows_def by (intro exI [of _ "g \<circ> f"]) (simp add: flagsOnly_def)
qed

lemma sameRows_map:
  "flagsOnly f \<Longrightarrow> (\<And>r. rwSeenAtHeight (f r) = rwSeenAtHeight r \<and> rwReorgedAt (f r) = rwReorgedAt r \<and> (rwEscrowed r \<longrightarrow> rwEscrowed (f r))) \<Longrightarrow>
    sameRows t (map f t)"
  unfolding sameRows_def by blast

lemma sameRows_marks: "sameRows t (MarkEscrowed k t)" "sameRows t (MarkConfirmed k t)"
  by (simp_all add: MarkEscrowed_def MarkConfirmed_def updateWhere_def sameRows_map flagsOnly_def)

lemma callCashier_keys_eq:
  assumes "dbOk d" and "callCashier r d (\<lambda>cs. svcExec cs d c) = (d', ok)" and "keyOf c = Some k"
  shows "dbOk d' \<and> idempotencyKeys d' \<subseteq> insert k (idempotencyKeys d)"
  using callCashier_cases [OF assms(1,2)] effect_dbOk [OF assms(1)] effect_keys [of d c d'] assms(1,3) by auto

definition frameOk :: "string set \<Rightarrow> Watcher \<Rightarrow> Watcher \<Rightarrow> bool" where
  "frameOk ks w w' \<longleftrightarrow> dbOk (wtCashier w') \<and> idempotencyKeys (wtCashier w') \<subseteq> ks \<union> idempotencyKeys (wtCashier w) \<and>
     sameRows (wtTxs w) (wtTxs w')"

lemma frameOk_refl: "dbOk (wtCashier w) \<Longrightarrow> frameOk ks w w"
  by (simp add: frameOk_def sameRows_refl)

lemma frameOk_mono: "frameOk ks w w' \<Longrightarrow> ks \<subseteq> ks' \<Longrightarrow> frameOk ks' w w'"
  unfolding frameOk_def by blast

lemma frameOk_trans: "frameOk ks w w' \<Longrightarrow> frameOk ks' w' w'' \<Longrightarrow> frameOk (ks \<union> ks') w w''"
  using sameRows_trans unfolding frameOk_def by blast

lemma escrowRow_frame: "dbOk (wtCashier w) \<Longrightarrow> frameOk {dRef d} w (escrowRow e d w)"
  using callCashier_keys_eq [of "wtCashier w" _ "CDepositEscrowed (dUserID d) (dRef d) (dSatoshis d)"]
  by (auto simp: frameOk_def escrowRow_def cl_exec dRef_def keyOf_def sameRows_refl sameRows_marks Let_def split: prod.split)

lemma confirmRow_frame: "dbOk (wtCashier w) \<Longrightarrow> frameOk {confirmKey (dRef d)} w (confirmRow e d w)"
  using callCashier_keys_eq [of "wtCashier w" _ "CConfirmDeposit (dUserID d) (dRef d) (dSatoshis d)"]
  by (auto simp: frameOk_def confirmRow_def cl_exec dRef_def keyOf_def sameRows_refl sameRows_marks Let_def split: prod.split)

lemma fold_frame:
  assumes "\<And>d w. dbOk (wtCashier w) \<Longrightarrow> frameOk {key d} w (row d w)"
  shows "dbOk (wtCashier w) \<Longrightarrow> frameOk (key ` set ds) w (fold row ds w)"
proof (induction ds arbitrary: w)
  case (Cons d ds)
  have 1: "frameOk {key d} w (row d w)" using assms Cons.prems by blast
  then have "frameOk (key ` set ds) (row d w) (fold row ds (row d w))" by (intro Cons.IH) (simp add: frameOk_def)
  from frameOk_trans [OF 1 this] show ?case by simp
qed (simp add: frameOk_refl)

lemma retryEscrows_frame:
  assumes "dbOk (wtCashier w)"
  shows "frameOk (rowRef ` set (wtTxs w)) w (retryEscrows e w)"
proof -
  have "dRef ` set (ListNotEscrowed (weOrder e) (wtTxs w)) \<subseteq> rowRef ` set (wtTxs w)"
    by (auto simp: ListNotEscrowed_def scanDeposits_def dRef_def rowRef_def)
  from frameOk_mono [OF fold_frame [of dRef "escrowRow e", OF escrowRow_frame assms] this]
  show ?thesis by (simp add: retryEscrows_def frameOk_refl assms)
qed

lemma checkConfirmations_frame:
  assumes "dbOk (wtCashier w)"
  shows "frameOk ((\<lambda>r. confirmKey (rowRef r)) ` {r \<in> set (wtTxs w). readyRow (wcConfirmations cf) h r}) w (checkConfirmations cf e h w)"
proof -
  let ?ds = "ListReadyToConfirm (weOrder e) (wcConfirmations cf) h (wtTxs w)"
  have "(\<lambda>d. confirmKey (dRef d)) ` set ?ds \<subseteq> (\<lambda>r. confirmKey (rowRef r)) ` {r \<in> set (wtTxs w). readyRow (wcConfirmations cf) h r}"
    by (auto simp: ListReadyToConfirm_def scanDeposits_def dRef_def rowRef_def)
  from frameOk_mono [OF fold_frame [of "\<lambda>d. confirmKey (dRef d)" "confirmRow e", OF confirmRow_frame assms] this]
  show ?thesis by (simp add: checkConfirmations_def frameOk_refl assms)
qed

lemma sameRows_mem:
  assumes "sameRows t t'" and "r \<in> set t"
  shows "\<exists>r' \<in> set t'. rowRef r' = rowRef r \<and> rwSeenAtHeight r' = rwSeenAtHeight r \<and> rwReorgedAt r' = rwReorgedAt r \<and>
    (rwEscrowed r \<longrightarrow> rwEscrowed r')"
proof -
  obtain f where "t' = map f t" "flagsOnly f"
    "\<forall>r. rwSeenAtHeight (f r) = rwSeenAtHeight r \<and> rwReorgedAt (f r) = rwReorgedAt r \<and> (rwEscrowed r \<longrightarrow> rwEscrowed (f r))"
    using assms(1) unfolding sameRows_def by blast
  then show ?thesis using assms(2) by (intro bexI [of _ "f r"]) (simp_all add: flagsOnly_simps)
qed

section \<open>When nothing fails\<close>

definition allGood :: "wenv \<Rightarrow> bool" where
  "allGood e \<longleftrightarrow> weLeader e \<and> (\<forall>x. \<not> weFails e x) \<and> (\<forall>c. weRpc e c = Answered noFaults)"

text \<open>Room for \<open>n\<close> more changes of an account.\<close>

definition versionRoom :: "nat \<Rightarrow> db \<Rightarrow> bool" where
  "versionRoom n d \<longleftrightarrow> int n \<le> int64_max \<and> (\<forall>u a. accounts d u = Some a \<longrightarrow> 0 \<le> acVersion a \<and> acVersion a + int n \<le> int64_max)"

definition everything :: "btcDeposits \<Rightarrow> string \<Rightarrow> int" where
  "everything t u = total (\<lambda>_. True) t u"

lemma call_good:
  assumes "dbOk d" and "effect d c = Some d'"
  shows "callCashier (Answered noFaults) d (\<lambda>cs. svcExec cs d c) = (d', True)"
  using pgExec_step [OF assms(1), of noFaults c] assms(2)
  by (auto simp: callCashier_def svc_grpc stepOk_def noFaults_def grpcOf_def toResponse_def)

lemma call_again:
  assumes "k \<in> idempotencyKeys d" and "accounts d u \<noteq> None" and "0 < n" and "ref \<noteq> []"
  shows "k = ref \<Longrightarrow> callCashier (Answered noFaults) d (\<lambda>cs. svcExec cs d (CDepositEscrowed u ref n)) = (d, True)"
    and "k = confirmKey ref \<Longrightarrow> callCashier (Answered noFaults) d (\<lambda>cs. svcExec cs d (CConfirmDeposit u ref n)) = (d, True)"
  using assms
  by (auto simp: callCashier_def svc_grpc pgDepositEscrowed_def pgConfirmDeposit_def withIdempotency_def not_failing
      grpcOf_def toResponse_def simp del: svcExec.simps)

lemma bump_room:
  assumes "versionRoom (Suc n) d" and "bump d u g e = Some d'"
  shows "versionRoom n d'"
proof -
  obtain a where "d' = d\<lparr>accounts := (accounts d)(u \<mapsto> a)\<rparr>" and "0 \<le> acVersion a" "acVersion a + int n \<le> int64_max"
    using assms by (fastforce simp: bump_def Let_def versionRoom_def split: if_splits option.splits)
  with assms(1) show ?thesis by (fastforce simp: versionRoom_def split: if_splits)
qed

lemma versionRoom_addKey [simp]: "versionRoom n (addKey d k) \<longleftrightarrow> versionRoom n d"
  by (simp add: versionRoom_def)

lemma versionRoom_less: "versionRoom (Suc n) d \<Longrightarrow> versionRoom n d"
  by (fastforce simp: versionRoom_def)

lemma dRef_nonempty [simp]: "dRef d \<noteq> []"
  by (simp add: dRef_def depositRef_def)

lemma total_mono:
  assumes "rowsOk t" and "\<And>x. q x \<Longrightarrow> q' x"
  shows "total q t u \<le> total q' t u"
proof -
  have "\<forall>r \<in> set t. 0 < rwSatoshis r" using assms(1) by (simp add: rowsOk_def)
  then show ?thesis using assms(2) by (induction t) (auto simp: total_def)
qed

lemma total_ge:
  assumes "rowsOk t" and "r \<in> set t" and "q (rowRef r)"
  shows "rwSatoshis r \<le> total q t (rwUser r)"
proof -
  have "\<forall>r \<in> set t. 0 < rwSatoshis r" using assms(1) by (simp add: rowsOk_def)
  then show ?thesis using assms(2,3)
  proof (induction t)
    case (Cons x t)
    have "0 \<le> total q t u" for u using Cons.prems(1) by (induction t) (auto simp: total_def)
    with Cons show ?case by (fastforce simp: total_def)
  qed simp
qed

lemma accounted_acc:
  assumes "accounted t c" and "hasRow t d" and "dRef d \<in> idempotencyKeys c"
  shows "accounts c (dUserID d) \<noteq> None"
proof -
  obtain r where r: "r \<in> set t" "rowRef r = dRef d" "rwUser r = dUserID d" "rwSatoshis r = dSatoshis d"
    using hasRow_ref [OF assms(2)] by blast
  have ok: "rowsOk t" and g: "grossOf c (dUserID d) = total (creditedRef c) t (dUserID d)"
    using assms(1) by (simp_all add: accounted_def balanced_def)
  have "0 < rwSatoshis r" using ok r(1) by (simp add: rowsOk_def)
  then have "0 < grossOf c (dUserID d)"
    using total_ge [OF ok r(1), of "creditedRef c"] r assms(3) g by (simp add: creditedRef_def)
  then show ?thesis by (auto simp: grossOf_def split: option.splits)
qed

lemma hasRow_pos: "rowsOk t \<Longrightarrow> hasRow t d \<Longrightarrow> 0 < dSatoshis d"
  by (auto simp: rowsOk_def hasRow_def)

lemma escrow_effect:
  assumes "accounted t c" and "hasRow t d" and "dRef d \<notin> idempotencyKeys c"
    and "everything t (dUserID d) \<le> int64_max" and "versionRoom (Suc n) c"
  shows "\<exists>c'. effect c (CDepositEscrowed (dUserID d) (dRef d) (dSatoshis d)) = Some c' \<and> versionRoom n c'"
proof -
  let ?u = "dUserID d"
  obtain r where r: "r \<in> set t" "rowRef r = dRef d" "rwUser r = ?u" "rwSatoshis r = dSatoshis d"
    using hasRow_ref [OF assms(2)] by blast
  have ok: "rowsOk t" and db: "dbOk c" and g: "grossOf c ?u = total (creditedRef c) t ?u"
    using assms(1) by (simp_all add: accounted_def balanced_def)
  let ?q = "\<lambda>x. creditedRef c x \<or> x = dRef d"
  have "total ?q t ?u = total (creditedRef c) t ?u + dSatoshis d"
    using total_flip [OF r(1) rowsOk_refs(1) [OF ok], of ?q "creditedRef c" ?u] r assms(3) by (simp add: creditedRef_def)
  moreover have "total ?q t ?u \<le> everything t ?u" unfolding everything_def by (rule total_mono [OF ok]) simp
  ultimately have le: "grossOf c ?u + dSatoshis d \<le> int64_max" using g assms(4) by linarith
  have pos: "0 < dSatoshis d" by (rule hasRow_pos [OF ok assms(2)])
  have "bump (addKey c (dRef d)) ?u (dSatoshis d) (dSatoshis d) \<noteq> None"
  proof (cases "accounts c ?u")
    case None
    then show ?thesis using le pos
      by (simp add: bump_def grossOf_def accOk_def in_int64_def int64_min_def int64_max_def)
  next
    case (Some a)
    with dbOk_acc [OF db Some] le pos assms(5) have "accOk \<lparr>acGross = acGross a + dSatoshis d,
        acEscrowed = acEscrowed a + dSatoshis d, acVersion = acVersion a + 1\<rparr>"
      by (fastforce simp: grossOf_def accOk_def versionRoom_def in_int64_def int64_min_def)
    with Some show ?thesis by (simp add: bump_def)
  qed
  then obtain c' where "bump (addKey c (dRef d)) ?u (dSatoshis d) (dSatoshis d) = Some c'" by auto
  with bump_room [of n "addKey c (dRef d)"] assms(3,5) pos show ?thesis by auto
qed

lemma escrowRow_good:
  assumes "accounted (wtTxs w) (wtCashier w)" and "hasRow (wtTxs w) d" and "allGood e"
    and "everything (wtTxs w) (dUserID d) \<le> int64_max" and "versionRoom (Suc n) (wtCashier w)"
  shows "\<exists>c'. escrowRow e d w = w\<lparr>wtCashier := c', wtTxs := MarkEscrowed (dKey d) (wtTxs w)\<rparr> \<and>
    accounted (MarkEscrowed (dKey d) (wtTxs w)) c' \<and> versionRoom n c'"
proof -
  have db: "dbOk (wtCashier w)" using assms(1) by (simp add: accounted_def)
  have pos: "0 < dSatoshis d" using assms(1) hasRow_pos [OF _ assms(2)] by (simp add: accounted_def)
  obtain c' where c': "clDepositEscrowed (weRpc e) (wtCashier w) (dUserID d) (dSatoshis d) (dRef d) = (c', True)" "versionRoom n c'"
  proof (cases "dRef d \<in> idempotencyKeys (wtCashier w)")
    case True
    then show ?thesis
      using that [of "wtCashier w"] call_again(1) [OF True accounted_acc [OF assms(1,2) True] pos dRef_nonempty [of d]]
        versionRoom_less [OF assms(5)] assms(3) by (simp add: cl_exec allGood_def del: svcExec.simps)
  next
    case False
    from escrow_effect [OF assms(1,2) False assms(4,5)] obtain c' where
      "effect (wtCashier w) (CDepositEscrowed (dUserID d) (dRef d) (dSatoshis d)) = Some c'" "versionRoom n c'" by blast
    then show ?thesis
      using that [of c'] call_good [OF db] assms(3) by (simp add: cl_exec allGood_def del: svcExec.simps effect.simps)
  qed
  from call_escrow [OF assms(1,2) c'(1)] have "accounted (MarkEscrowed (dKey d) (wtTxs w)) c'"
    by (intro accounted_mark) auto
  moreover have "escrowRow e d w = w\<lparr>wtCashier := c', wtTxs := MarkEscrowed (dKey d) (wtTxs w)\<rparr>"
    using c'(1) assms(3) by (simp add: escrowRow_def dRef_def dKey_def allGood_def)
  ultimately show ?thesis using c'(2) by blast
qed

definition flagAll :: "(depositRow \<Rightarrow> depositRow) \<Rightarrow> outpoint set \<Rightarrow> btcDeposits \<Rightarrow> btcDeposits" where
  "flagAll f ks t = map (\<lambda>r. if rowKey r \<in> ks then f r else r) t"

lemma flagAll_insert:
  "flagsOnly f \<Longrightarrow> (\<And>r. f (f r) = f r) \<Longrightarrow> flagAll f ks (updateWhere (\<lambda>r. rowKey r = k) f t) = flagAll f (insert k ks) t"
  by (auto simp: flagAll_def updateWhere_def flagsOnly_simps)

lemma everything_map: "flagsOnly f \<Longrightarrow> everything (map f t) u = everything t u"
  by (simp add: everything_def total_map)

lemma escrow_all:
  assumes "accounted (wtTxs w) (wtCashier w)" and "\<forall>d \<in> set ds. hasRow (wtTxs w) d" and "allGood e"
    and "\<And>u. everything (wtTxs w) u \<le> int64_max" and "versionRoom (n + length ds) (wtCashier w)"
  shows "\<exists>c'. fold (escrowRow e) ds w = w\<lparr>wtCashier := c', wtTxs := flagAll (\<lambda>r. r\<lparr>rwEscrowed := True\<rparr>) (dKey ` set ds) (wtTxs w)\<rparr> \<and>
    accounted (flagAll (\<lambda>r. r\<lparr>rwEscrowed := True\<rparr>) (dKey ` set ds) (wtTxs w)) c' \<and> versionRoom n c'"
  using assms
proof (induction ds arbitrary: w)
  case Nil
  then show ?case by (intro exI [of _ "wtCashier w"]) (simp add: flagAll_def)
next
  case (Cons d ds)
  let ?t = "MarkEscrowed (dKey d) (wtTxs w)"
  have fl: "flagsOnly (\<lambda>r. if rowKey r = dKey d then r\<lparr>rwEscrowed := True\<rparr> else r)" by (intro flagsOnly_if marks_flagsOnly)
  obtain c1 where c1: "escrowRow e d w = w\<lparr>wtCashier := c1, wtTxs := ?t\<rparr>" "accounted ?t c1" "versionRoom (n + length ds) c1"
    using escrowRow_good [OF Cons.prems(1) _ Cons.prems(3,4), of d "n + length ds"] Cons.prems(2,5) by auto
  let ?w = "w\<lparr>wtCashier := c1, wtTxs := ?t\<rparr>"
  have "\<forall>d \<in> set ds. hasRow ?t d" "everything ?t u \<le> int64_max" for u
    using Cons.prems(2,4) by (simp_all add: MarkEscrowed_def updateWhere_def hasRow_map [OF fl] everything_map [OF fl])
  then obtain c' where "fold (escrowRow e) ds ?w = ?w\<lparr>wtCashier := c', wtTxs := flagAll (\<lambda>r. r\<lparr>rwEscrowed := True\<rparr>) (dKey ` set ds) ?t\<rparr>"
      "accounted (flagAll (\<lambda>r. r\<lparr>rwEscrowed := True\<rparr>) (dKey ` set ds) ?t) c'" "versionRoom n c'"
    using Cons.IH [of ?w] Cons.prems(3) c1 by auto
  with c1(1) show ?case
    by (intro exI [of _ c']) (simp add: MarkEscrowed_def flagAll_insert [OF marks_flagsOnly(1)])
qed

lemma confirm_effect:
  assumes "accounted t c" and "hasRow t d" and "dRef d \<in> idempotencyKeys c" and "confirmKey (dRef d) \<notin> idempotencyKeys c"
    and "versionRoom (Suc n) c"
  shows "\<exists>c'. effect c (CConfirmDeposit (dUserID d) (dRef d) (dSatoshis d)) = Some c' \<and> versionRoom n c'"
proof -
  let ?u = "dUserID d"
  obtain r where r: "r \<in> set t" "rowRef r = dRef d" "rwUser r = ?u" "rwSatoshis r = dSatoshis d"
    using hasRow_ref [OF assms(2)] by blast
  have ok: "rowsOk t" and db: "dbOk c" and e: "escrowedOf c ?u = total (pendingRef c) t ?u"
    using assms(1) by (simp_all add: accounted_def balanced_def)
  obtain a where a: "accounts c ?u = Some a" using accounted_acc [OF assms(1-3)] by auto
  have "dSatoshis d \<le> acEscrowed a"
    using total_ge [OF ok r(1), of "pendingRef c"] r assms(3,4) e a by (simp add: pendingRef_def escrowedOf_def)
  moreover have pos: "0 < dSatoshis d" by (rule hasRow_pos [OF ok assms(2)])
  ultimately have "accOk \<lparr>acGross = acGross a, acEscrowed = acEscrowed a - dSatoshis d, acVersion = acVersion a + 1\<rparr>"
    using dbOk_acc [OF db a] assms(5) a by (fastforce simp: accOk_def versionRoom_def in_int64_def int64_min_def)
  then obtain c' where "bump (addKey c (confirmKey (dRef d))) ?u 0 (- dSatoshis d) = Some c'"
    using a by (simp add: bump_def)
  with bump_room [of n "addKey c (confirmKey (dRef d))"] assms(4,5) pos a show ?thesis by auto
qed

lemma confirmRow_good:
  assumes "accounted (wtTxs w) (wtCashier w)" and "hasRow (wtTxs w) d" and "dRef d \<in> idempotencyKeys (wtCashier w)" and "allGood e"
    and "versionRoom (Suc n) (wtCashier w)"
  shows "\<exists>c'. confirmRow e d w = w\<lparr>wtCashier := c', wtTxs := MarkConfirmed (dKey d) (wtTxs w)\<rparr> \<and>
    accounted (MarkConfirmed (dKey d) (wtTxs w)) c' \<and> versionRoom n c' \<and> idempotencyKeys (wtCashier w) \<subseteq> idempotencyKeys c'"
proof -
  have db: "dbOk (wtCashier w)" using assms(1) by (simp add: accounted_def)
  have pos: "0 < dSatoshis d" using assms(1) hasRow_pos [OF _ assms(2)] by (simp add: accounted_def)
  obtain c' where c': "clConfirmDeposit (weRpc e) (wtCashier w) (dUserID d) (dSatoshis d) (dRef d) = (c', True)" "versionRoom n c'"
  proof (cases "confirmKey (dRef d) \<in> idempotencyKeys (wtCashier w)")
    case True
    then show ?thesis
      using that [of "wtCashier w"] call_again(2) [OF True accounted_acc [OF assms(1-3)] pos dRef_nonempty [of d]]
        versionRoom_less [OF assms(5)] assms(4) by (simp add: cl_exec allGood_def del: svcExec.simps)
  next
    case False
    from confirm_effect [OF assms(1-3) False assms(5)] obtain c' where
      "effect (wtCashier w) (CConfirmDeposit (dUserID d) (dRef d) (dSatoshis d)) = Some c'" "versionRoom n c'" by blast
    then show ?thesis
      using that [of c'] call_good [OF db] assms(4) by (simp add: cl_exec allGood_def del: svcExec.simps effect.simps)
  qed
  note call = call_confirm [OF assms(1-3) c'(1)]
  from call have "accounted (MarkConfirmed (dKey d) (wtTxs w)) c'" by (intro accounted_markConfirmed) auto
  moreover have "confirmRow e d w = w\<lparr>wtCashier := c', wtTxs := MarkConfirmed (dKey d) (wtTxs w)\<rparr>"
    using c'(1) assms(4) by (simp add: confirmRow_def dRef_def dKey_def allGood_def)
  ultimately show ?thesis using c'(2) call(2) by blast
qed

lemma confirm_all:
  assumes "accounted (wtTxs w) (wtCashier w)" and "\<forall>d \<in> set ds. hasRow (wtTxs w) d \<and> dRef d \<in> idempotencyKeys (wtCashier w)" and "allGood e"
    and "versionRoom (n + length ds) (wtCashier w)"
  shows "\<exists>c'. fold (confirmRow e) ds w = w\<lparr>wtCashier := c', wtTxs := flagAll (\<lambda>r. r\<lparr>rwConfirmed := True\<rparr>) (dKey ` set ds) (wtTxs w)\<rparr> \<and>
    accounted (flagAll (\<lambda>r. r\<lparr>rwConfirmed := True\<rparr>) (dKey ` set ds) (wtTxs w)) c' \<and> versionRoom n c'"
  using assms
proof (induction ds arbitrary: w)
  case Nil
  then show ?case by (intro exI [of _ "wtCashier w"]) (simp add: flagAll_def)
next
  case (Cons d ds)
  let ?t = "MarkConfirmed (dKey d) (wtTxs w)"
  have fl: "flagsOnly (\<lambda>r. if rowKey r = dKey d then r\<lparr>rwConfirmed := True\<rparr> else r)" by (intro flagsOnly_if marks_flagsOnly)
  obtain c1 where c1: "confirmRow e d w = w\<lparr>wtCashier := c1, wtTxs := ?t\<rparr>" "accounted ?t c1" "versionRoom (n + length ds) c1"
      "idempotencyKeys (wtCashier w) \<subseteq> idempotencyKeys c1"
    using confirmRow_good [OF Cons.prems(1) _ _ Cons.prems(3), of d "n + length ds"] Cons.prems(2,4) by auto
  let ?w = "w\<lparr>wtCashier := c1, wtTxs := ?t\<rparr>"
  have "\<forall>d \<in> set ds. hasRow ?t d \<and> dRef d \<in> idempotencyKeys c1"
    using Cons.prems(2) c1(4) by (auto simp: MarkConfirmed_def updateWhere_def hasRow_map [OF fl])
  then obtain c' where "fold (confirmRow e) ds ?w = ?w\<lparr>wtCashier := c', wtTxs := flagAll (\<lambda>r. r\<lparr>rwConfirmed := True\<rparr>) (dKey ` set ds) ?t\<rparr>"
      "accounted (flagAll (\<lambda>r. r\<lparr>rwConfirmed := True\<rparr>) (dKey ` set ds) ?t) c'" "versionRoom n c'"
    using Cons.IH [of ?w] Cons.prems(3) c1 by auto
  with c1(1) show ?case
    by (intro exI [of _ c']) (simp add: MarkConfirmed_def flagAll_insert [OF marks_flagsOnly(2)])
qed

section \<open>Whole handlers without faults\<close>

lemma scan_length: "length (scanDeposits (filter q (scanOrder ks t))) \<le> length t"
  using length_filter_le [of q "orderBy rowKey ks t"] by (simp add: scanDeposits_def scanOrder_def)

lemma scan_keys: "dKey ` set (scanDeposits (filter q (scanOrder ks t))) = rowKey ` {r \<in> set t. q r}"
  by (auto simp: scanDeposits_def dKey_def rowKey_def image_image)

lemma versionRoom_mono: "versionRoom m d \<Longrightarrow> n \<le> m \<Longrightarrow> versionRoom n d"
  by (fastforce simp: versionRoom_def)

lemma retryEscrows_good:
  assumes "accounted (wtTxs w) (wtCashier w)" and "allGood e" and "\<And>u. everything (wtTxs w) u \<le> int64_max"
    and "versionRoom (n + length (wtTxs w)) (wtCashier w)"
  shows "\<exists>c'. retryEscrows e w = w\<lparr>wtCashier := c', wtTxs := map (\<lambda>r. r\<lparr>rwEscrowed := True\<rparr>) (wtTxs w)\<rparr> \<and>
    accounted (map (\<lambda>r. r\<lparr>rwEscrowed := True\<rparr>) (wtTxs w)) c' \<and> versionRoom n c'"
proof -
  let ?ds = "ListNotEscrowed (weOrder e) (wtTxs w)" and ?f = "\<lambda>r. r\<lparr>rwEscrowed := True\<rparr>"
  have "rwEscrowed r" if "r \<in> set (wtTxs w)" "rowKey r \<notin> dKey ` set ?ds" for r
    using that assms(1) unfolding ListNotEscrowed_def scan_keys by (auto simp: accounted_def rowsOk_def)
  then have all: "flagAll ?f (dKey ` set ?ds) (wtTxs w) = map ?f (wtTxs w)"
    by (auto simp: flagAll_def)
  have "\<forall>d \<in> set ?ds. hasRow (wtTxs w) d" using listed_backed(1) [OF assms(1)] by simp
  moreover have "versionRoom (n + length ?ds) (wtCashier w)"
    using versionRoom_mono [OF assms(4)] scan_length by (simp add: ListNotEscrowed_def)
  ultimately show ?thesis
    using escrow_all [OF assms(1) _ assms(2,3), of ?ds n] assms(2) unfolding all by (simp add: retryEscrows_def allGood_def)
qed

lemma checkConfirmations_good:
  assumes "accounted (wtTxs w) (wtCashier w)" and "allGood e" and "versionRoom (n + length (wtTxs w)) (wtCashier w)"
  shows "\<exists>c' t'. checkConfirmations cf e h w = w\<lparr>wtCashier := c', wtTxs := t'\<rparr> \<and> accounted t' c' \<and>
    t' = flagAll (\<lambda>r. r\<lparr>rwConfirmed := True\<rparr>) (rowKey ` {r \<in> set (wtTxs w). readyRow (wcConfirmations cf) h r}) (wtTxs w)"
proof -
  let ?ds = "ListReadyToConfirm (weOrder e) (wcConfirmations cf) h (wtTxs w)"
  have "\<forall>d \<in> set ?ds. hasRow (wtTxs w) d \<and> dRef d \<in> idempotencyKeys (wtCashier w)"
    using listed_backed(2) [OF assms(1)] by simp
  moreover have "versionRoom (n + length ?ds) (wtCashier w)"
    using versionRoom_mono [OF assms(3)] scan_length by (simp add: ListReadyToConfirm_def)
  moreover have "dKey ` set ?ds = rowKey ` {r \<in> set (wtTxs w). readyRow (wcConfirmations cf) h r}"
    unfolding ListReadyToConfirm_def scan_keys ..
  ultimately show ?thesis
    using confirm_all [OF assms(1) _ assms(2), of ?ds n] assms(2) by (auto simp: checkConfirmations_def allGood_def)
qed

lemma sum_filter_mono:
  assumes "\<And>r. r \<in> set t \<Longrightarrow> 0 < rwSatoshis r" and "\<And>r. r \<in> set t \<Longrightarrow> p r \<Longrightarrow> q r"
  shows "sum_list (map rwSatoshis (filter p t)) \<le> sum_list (map rwSatoshis (filter q t))"
  using assms by (induction t) (force simp: order.strict_implies_order)+

lemma block_good:
  assumes "accounted t (wtCashier w)" and "allGood e" and "\<And>u. everything t u \<le> int64_max" and "versionRoom (2 * length t) (wtCashier w)"
    and "w' = checkConfirmations cf e h (retryEscrows e (w\<lparr>wtTxs := t\<rparr>))"
  shows "map rowKey (wtTxs w') = map rowKey t"
    and "r \<in> set (wtTxs w') \<Longrightarrow> rwEscrowed r \<and> (wcConfirmations cf \<le> h - rwSeenAtHeight r \<longrightarrow> rwConfirmed r)"
    and "grossOf (wtCashier w') u = everything t u"
    and "escrowedOf (wtCashier w') u \<le>
      sum_list (map rwSatoshis (filter (\<lambda>r. rwUser r = u \<and> h - rwSeenAtHeight r < wcConfirmations cf) (wtTxs w')))"
proof -
  let ?e = "\<lambda>r. r\<lparr>rwEscrowed := True\<rparr>" and ?c = "\<lambda>r. r\<lparr>rwConfirmed := True\<rparr>"
  let ?t1 = "map ?e t"
  let ?ready = "rowKey ` {r \<in> set ?t1. readyRow (wcConfirmations cf) h r}"
  have fc: "flagsOnly (\<lambda>r. if rowKey r \<in> ?ready then ?c r else r)" by (intro flagsOnly_if marks_flagsOnly)
  obtain c1 where 1: "retryEscrows e (w\<lparr>wtTxs := t\<rparr>) = w\<lparr>wtCashier := c1, wtTxs := ?t1\<rparr>" "accounted ?t1 c1" "versionRoom (length t) c1"
    using retryEscrows_good [of "w\<lparr>wtTxs := t\<rparr>" e "length t"] assms(1-4) by (auto simp: mult_2)
  obtain c2 where 2: "wtCashier w' = c2" "wtTxs w' = flagAll ?c ?ready ?t1" "accounted (flagAll ?c ?ready ?t1) c2"
    using checkConfirmations_good [of "w\<lparr>wtCashier := c1, wtTxs := ?t1\<rparr>" e 0 cf h] 1 assms(2,5) by auto
  let ?t2 = "flagAll ?c ?ready ?t1"
  show keys: "map rowKey (wtTxs w') = map rowKey t"
    unfolding 2 flagAll_def by (auto simp: rowKey_def)
  have flags: "rwEscrowed r \<and> (wcConfirmations cf \<le> h - rwSeenAtHeight r \<longrightarrow> rwConfirmed r)" if "r \<in> set ?t2" for r
    using that 1(2) unfolding flagAll_def
    by (auto simp: readyRow_def accounted_def rowsOk_def split: if_splits)
  show "r \<in> set (wtTxs w') \<Longrightarrow> rwEscrowed r \<and> (wcConfirmations cf \<le> h - rwSeenAtHeight r \<longrightarrow> rwConfirmed r)"
    unfolding 2(2) by (rule flags)
  have k: "rowRef r \<in> idempotencyKeys c2 \<and> (rwConfirmed r \<longrightarrow> confirmKey (rowRef r) \<in> idempotencyKeys c2)" if "r \<in> set ?t2" for r
    using accounted_flags [OF 2(3) that] flags [OF that] by blast
  have "grossOf c2 u = total (creditedRef c2) ?t2 u" using 2(3) by (simp add: accounted_def balanced_def)
  also have "\<dots> = everything ?t2 u" unfolding everything_def using k by (intro total_cong) (simp add: creditedRef_def)
  also have "\<dots> = everything t u"
    unfolding flagAll_def everything_map [OF fc] by (rule everything_map [OF marks_flagsOnly(1)])
  finally show "grossOf (wtCashier w') u = everything t u" unfolding 2(1) .
  have "escrowedOf c2 u = total (pendingRef c2) ?t2 u" using 2(3) by (simp add: accounted_def balanced_def)
  also have "\<dots> \<le> sum_list (map rwSatoshis (filter (\<lambda>r. rwUser r = u \<and> h - rwSeenAtHeight r < wcConfirmations cf) ?t2))"
    unfolding total_def
  proof (rule sum_filter_mono)
    show "0 < rwSatoshis r" if "r \<in> set ?t2" for r using 2(3) that by (simp add: accounted_def rowsOk_def)
    show "rwUser r = u \<and> h - rwSeenAtHeight r < wcConfirmations cf" if "r \<in> set ?t2" "rwUser r = u \<and> pendingRef c2 (rowRef r)" for r
      using k [OF that(1)] flags [OF that(1)] that(2) by (auto simp: pendingRef_def)
  qed
  finally show "escrowedOf (wtCashier w') u \<le>
      sum_list (map rwSatoshis (filter (\<lambda>r. rwUser r = u \<and> h - rwSeenAtHeight r < wcConfirmations cf) (wtTxs w')))"
    unfolding 2(1,2) .
qed

end
