(* ===== verification/SpvStream.thy ===== *)
theory SpvStream
  imports Watcher "HOL-Library.Sublist"
begin

text \<open>
  The stream of blocks between the chain library and the watcher (\<open>Blocks\<close> in \<open>btcwatcher/internal/spvnode.go\<close>): the
  notification handlers write to one channel, a goroutine moves what it reads there to a second
  one, and the watcher reads that. Each channel operation is a step; which ready case a
  \<open>select\<close> takes is left open, as in Go.
\<close>

section \<open>The node\<close>

text \<open>What the process holds: the header database and a running chain service.\<close>

record nodeHold =
  nhDb :: bool
  nhService :: bool

datatype nodeErr = OpenErr | NewErr | StartErr

text \<open>Which of the three calls of the library fails is an argument.\<close>

definition NewNeutrinoSPVNode :: "bool \<Rightarrow> bool \<Rightarrow> bool \<Rightarrow> nodeHold \<times> (nodeErr + SPVNode)" where
  "NewNeutrinoSPVNode openFails newFails startFails =
     (if openFails then (\<lparr>nhDb = False, nhService = False\<rparr>, Inl OpenErr)
      else if newFails then (\<lparr>nhDb = False, nhService = False\<rparr>, Inl NewErr)
      else if startFails then (\<lparr>nhDb = True, nhService = False\<rparr>, Inl StartErr)
      else (\<lparr>nhDb = True, nhService = True\<rparr>, Inr \<lparr>nodeAddrs = [], nodeRescan = None\<rparr>))"

section \<open>Notifications\<close>

text \<open>What the chain library reports for the watched addresses.\<close>

datatype notification = FilteredConnected int "MsgTx list" | FilteredDisconnected int

definition notifyEvent :: "notification \<Rightarrow> BlockEvent" where
  "notifyEvent x = (case x of
     FilteredConnected height txs \<Rightarrow> \<lparr>beHeight = height, beConnected = True, beRelevantTxs = txs\<rparr>
   | FilteredDisconnected height \<Rightarrow> \<lparr>beHeight = height, beConnected = False, beRelevantTxs = []\<rparr>)"

text \<open>The height a rescan is told to start from, if any.\<close>

definition startBlock :: "int \<Rightarrow> int option" where
  "startBlock startHeight = (if 0 < startHeight then Some startHeight else None)"

section \<open>Channels\<close>

text \<open>\<open>stPending\<close> is the event a handler waits to write, \<open>stHeld\<close> the one the goroutine waits to write. Both channels have
  16 places. \<open>stErr\<close> says that the rescan has reported its end, \<open>stClosed\<close> that the goroutine has returned and closed its
  channel, \<open>stQuit\<close> that the context is done.\<close>

record blockStream =
  stProduced :: "BlockEvent list"
  stPending :: "BlockEvent option"
  stBlockCh :: "BlockEvent list"
  stHeld :: "BlockEvent option"
  stCh :: "BlockEvent list"
  stTaken :: "BlockEvent list"
  stErr :: bool
  stQuit :: bool
  stClosed :: bool

definition stNew :: blockStream where
  "stNew = \<lparr>stProduced = [], stPending = None, stBlockCh = [], stHeld = None, stCh = [], stTaken = [],
     stErr = False, stQuit = False, stClosed = False\<rparr>"

inductive streamStep :: "blockStream \<Rightarrow> blockStream \<Rightarrow> bool" where
  st_notify: "stPending s = None \<Longrightarrow>
     streamStep s (s\<lparr>stProduced := stProduced s @ [notifyEvent x], stPending := Some (notifyEvent x)\<rparr>)"
| st_push: "\<lbrakk>stPending s = Some e; length (stBlockCh s) < 16\<rbrakk> \<Longrightarrow>
     streamStep s (s\<lparr>stPending := None, stBlockCh := stBlockCh s @ [e]\<rparr>)"
| st_drop: "\<lbrakk>stPending s = Some e; stQuit s\<rbrakk> \<Longrightarrow> streamStep s (s\<lparr>stPending := None\<rparr>)"
| st_read: "\<lbrakk>\<not> stClosed s; stHeld s = None; stBlockCh s = e # es\<rbrakk> \<Longrightarrow>
     streamStep s (s\<lparr>stBlockCh := es, stHeld := Some e\<rparr>)"
| st_forward: "\<lbrakk>\<not> stClosed s; stHeld s = Some e; length (stCh s) < 16\<rbrakk> \<Longrightarrow>
     streamStep s (s\<lparr>stHeld := None, stCh := stCh s @ [e]\<rparr>)"
| st_quit: "\<lbrakk>\<not> stClosed s; stQuit s\<rbrakk> \<Longrightarrow> streamStep s (s\<lparr>stHeld := None, stClosed := True\<rparr>)"
| st_ended: "\<lbrakk>\<not> stClosed s; stHeld s = None; stErr s\<rbrakk> \<Longrightarrow> streamStep s (s\<lparr>stClosed := True\<rparr>)"
| st_take: "stCh s = e # es \<Longrightarrow> streamStep s (s\<lparr>stCh := es, stTaken := stTaken s @ [e]\<rparr>)"
| st_fail: "streamStep s (s\<lparr>stErr := True\<rparr>)"
| st_cancel: "streamStep s (s\<lparr>stQuit := True\<rparr>)"

section \<open>Order and loss\<close>

definition later :: "blockStream \<Rightarrow> BlockEvent list" where
  "later s = stCh s @ (case stHeld s of None \<Rightarrow> [] | Some e \<Rightarrow> [e]) @ stBlockCh s @ (case stPending s of None \<Rightarrow> [] | Some e \<Rightarrow> [e])"

definition streamInv :: "blockStream \<Rightarrow> bool" where
  "streamInv s \<longleftrightarrow> subseq (stTaken s @ later s) (stProduced s) \<and> (\<not> stQuit s \<longrightarrow> stTaken s @ later s = stProduced s) \<and>
     length (stBlockCh s) \<le> 16 \<and> length (stCh s) \<le> 16 \<and> (stClosed s \<longrightarrow> stHeld s = None)"

lemma streamStep_later:
  assumes "streamStep s s'"
  shows "(stTaken s' @ later s' = stTaken s @ later s \<and> stProduced s' = stProduced s) \<or>
    (\<exists>e. stTaken s' @ later s' = stTaken s @ later s @ [e] \<and> stProduced s' = stProduced s @ [e]) \<or>
    (stQuit s \<and> subseq (stTaken s' @ later s') (stTaken s @ later s) \<and> stProduced s' = stProduced s)"
  using assms
proof cases
  case (st_drop e)
  then show ?thesis by (simp add: later_def subseq_append' prefix_imp_subseq)
next
  case st_quit
  then show ?thesis by (cases "stHeld s") (simp_all add: later_def subseq_append' list_emb_Cons)
qed (simp_all add: later_def)

lemma streamInv_step: "streamStep s s' \<Longrightarrow> streamInv s \<Longrightarrow> streamInv s'"
proof -
  assume step: "streamStep s s'" and inv: "streamInv s"
  have caps: "length (stBlockCh s') \<le> 16 \<and> length (stCh s') \<le> 16 \<and> (stClosed s' \<longrightarrow> stHeld s' = None)"
    using step inv by cases (auto simp: streamInv_def)
  have quit: "\<not> stQuit s' \<longrightarrow> \<not> stQuit s" using step by cases auto
  from streamStep_later [OF step] show ?thesis
  proof (elim disjE exE conjE)
    fix e assume "stTaken s' @ later s' = stTaken s @ later s @ [e]" "stProduced s' = stProduced s @ [e]"
    then show ?thesis using inv caps quit by (simp add: streamInv_def flip: append_assoc)
  next
    assume "stQuit s" "subseq (stTaken s' @ later s') (stTaken s @ later s)" "stProduced s' = stProduced s"
    then show ?thesis using inv caps quit by (auto simp: streamInv_def intro: subseq_order.trans)
  qed (use inv caps quit in \<open>simp add: streamInv_def\<close>)
qed

lemma streamInv_new: "streamInv stNew"
  by (simp add: streamInv_def stNew_def later_def)

lemma streamInv_reach: "streamStep\<^sup>*\<^sup>* stNew s \<Longrightarrow> streamInv s"
  by (induction rule: rtranclp_induct) (auto intro: streamInv_new streamInv_step)

section \<open>Delivery\<close>

definition toDeliver :: "blockStream \<Rightarrow> nat" where
  "toDeliver s = length (stCh s) + (if stHeld s = None then 0 else 2) + 3 * length (stBlockCh s) + (if stPending s = None then 0 else 4)"

lemma deliver_step:
  assumes "\<not> stClosed s" and "later s \<noteq> []"
  shows "\<exists>s'. streamStep s s' \<and> toDeliver s' < toDeliver s \<and> \<not> stClosed s' \<and> stQuit s' = stQuit s \<and> stProduced s' = stProduced s"
proof (cases "stCh s")
  case (Cons e es)
  from st_take [OF this] Cons assms(1) show ?thesis by (intro exI conjI) (assumption, simp_all add: toDeliver_def)
next
  case ch: Nil
  show ?thesis
  proof (cases "stHeld s")
    case (Some e)
    from st_forward [OF assms(1) this] Some ch assms(1) show ?thesis by (intro exI conjI) (simp, simp_all add: toDeliver_def)
  next
    case held: None
    show ?thesis
    proof (cases "stBlockCh s")
      case (Cons e es)
      from st_read [OF assms(1) held this] Cons held assms(1) show ?thesis by (intro exI conjI) (assumption, simp_all add: toDeliver_def)
    next
      case Nil
      with ch held assms(2) obtain e where "stPending s = Some e" by (cases "stPending s") (simp_all add: later_def)
      from st_push [OF this] this Nil assms(1) show ?thesis by (intro exI conjI) (simp, simp_all add: toDeliver_def)
    qed
  qed
qed

lemma deliver_all:
  assumes "\<not> stClosed s" and "streamInv s" and "\<not> stQuit s"
  shows "\<exists>s'. streamStep\<^sup>*\<^sup>* s s' \<and> stTaken s' = stProduced s \<and> stProduced s' = stProduced s"
  using assms
proof (induction "toDeliver s" arbitrary: s rule: less_induct)
  case less
  show ?case
  proof (cases "later s = []")
    case True
    then show ?thesis using less.prems by (intro exI [of _ s]) (simp add: streamInv_def)
  next
    case False
    from deliver_step [OF less.prems(1) this] obtain s1 where
      1: "streamStep s s1" "toDeliver s1 < toDeliver s" "\<not> stClosed s1" "stQuit s1 = stQuit s" "stProduced s1 = stProduced s" by blast
    from less.hyps [OF 1(2,3) streamInv_step [OF 1(1) less.prems(2)]] 1 less.prems(3) obtain s' where
      "streamStep\<^sup>*\<^sup>* s1 s'" "stTaken s' = stProduced s" "stProduced s' = stProduced s" by auto
    with 1(1) show ?thesis by (meson converse_rtranclp_into_rtranclp)
  qed
qed

lemma new_node:
  "(\<exists>n. snd (NewNeutrinoSPVNode a b c) = Inr n) \<longleftrightarrow> nhService (fst (NewNeutrinoSPVNode a b c))"
  "snd (NewNeutrinoSPVNode a b c) = Inl e \<and> nhDb (fst (NewNeutrinoSPVNode a b c)) \<longleftrightarrow> \<not> a \<and> \<not> b \<and> c \<and> e = StartErr"
  by (auto simp: NewNeutrinoSPVNode_def)

section \<open>Property\<close>

lemma stream_one: "streamStep\<^sup>*\<^sup>* s t \<Longrightarrow> streamStep t u \<Longrightarrow> streamStep\<^sup>*\<^sup>* s u"
  by (rule rtranclp.rtrancl_into_rtrancl)

text \<open>An event that the goroutine leaves behind when the rescan has ended.\<close>

lemma stranded:
  "\<exists>s. streamStep\<^sup>*\<^sup>* stNew s \<and> \<not> stQuit s \<and> stClosed s \<and> stCh s = [] \<and> stTaken s = [] \<and> stProduced s = [notifyEvent x]"
proof -
  let ?e = "notifyEvent x"
  let ?s1 = "stNew\<lparr>stProduced := [?e], stPending := Some ?e\<rparr>"
  let ?s2 = "?s1\<lparr>stPending := None, stBlockCh := [?e]\<rparr>"
  let ?s3 = "?s2\<lparr>stErr := True\<rparr>"
  let ?s4 = "?s3\<lparr>stClosed := True\<rparr>"
  have 1: "streamStep stNew ?s1" using st_notify [of stNew x] by (simp add: stNew_def)
  have 2: "streamStep ?s1 ?s2" using st_push [of ?s1 ?e] by (simp add: stNew_def)
  have 3: "streamStep ?s2 ?s3" by (rule st_fail)
  have 4: "streamStep ?s3 ?s4" by (rule st_ended) (simp_all add: stNew_def)
  have "streamStep\<^sup>*\<^sup>* stNew ?s4" by (rule stream_one [OF stream_one [OF stream_one [OF stream_one [OF rtranclp.rtrancl_refl 1] 2] 3] 4])
  then show ?thesis by (intro exI [of _ ?s4]) (simp add: stNew_def)
qed

text \<open>C26: The stream of blocks is faithful: the watcher gets the events of the chain library in order, none twice, and until the
  context is done none is missing; no channel holds more than 16. While the goroutine runs and the context is not done, every
  event reported so far can still be delivered. When the rescan ends, though, the goroutine may return first and close the stream
  over an event it never delivers.\<close>

theorem stream_faithful:
  assumes "streamStep\<^sup>*\<^sup>* stNew s"
  shows "subseq (stTaken s) (stProduced s) \<and> (\<not> stQuit s \<longrightarrow> prefix (stTaken s) (stProduced s)) \<and>
    length (stBlockCh s) \<le> 16 \<and> length (stCh s) \<le> 16 \<and>
    (\<not> stClosed s \<and> \<not> stQuit s \<longrightarrow> (\<exists>s'. streamStep\<^sup>*\<^sup>* s s' \<and> stTaken s' = stProduced s \<and> stProduced s' = stProduced s)) \<and>
    (\<exists>s'. streamStep\<^sup>*\<^sup>* stNew s' \<and> \<not> stQuit s' \<and> stClosed s' \<and> stCh s' = [] \<and> stTaken s' = [] \<and> stProduced s' = [notifyEvent x])"
proof -
  have inv: "streamInv s" by (rule streamInv_reach [OF assms])
  then have "subseq (stTaken s @ later s) (stProduced s)" and p: "\<not> stQuit s \<longrightarrow> stTaken s @ later s = stProduced s" by (simp_all add: streamInv_def)
  then have "subseq (stTaken s) (stProduced s)" by (meson prefixI prefix_imp_subseq subseq_order.trans)
  moreover have "\<not> stQuit s \<longrightarrow> prefix (stTaken s) (stProduced s)" using p by (metis prefixI)
  moreover have "length (stBlockCh s) \<le> 16" "length (stCh s) \<le> 16" using inv by (simp_all add: streamInv_def)
  ultimately show ?thesis using deliver_all [OF _ inv] stranded by blast
qed

theorem stream_faithful_witness:
  "\<exists>s. streamStep\<^sup>*\<^sup>* stNew s \<and> stProduced s = [notifyEvent (FilteredDisconnected 7)] \<and>
     (\<exists>s'. streamStep\<^sup>*\<^sup>* s s' \<and> map beHeight (stTaken s') = [7])"
proof -
  let ?x = "FilteredDisconnected 7"
  let ?s = "stNew\<lparr>stProduced := stProduced stNew @ [notifyEvent ?x], stPending := Some (notifyEvent ?x)\<rparr>"
  have "streamStep\<^sup>*\<^sup>* stNew ?s" by (rule stream_one [OF rtranclp.rtrancl_refl st_notify]) (simp add: stNew_def)
  note f = stream_faithful [OF this] and r = this
  have "\<exists>s'. streamStep\<^sup>*\<^sup>* ?s s' \<and> stTaken s' = stProduced ?s" using f by (simp add: stNew_def) blast
  moreover have "stProduced ?s = [notifyEvent ?x]" by (simp add: stNew_def)
  ultimately show ?thesis using r by (intro exI [of _ ?s]) (auto simp: notifyEvent_def)
qed

end
