(* ===== verification/UserRegistration.thy ===== *)
theory UserRegistration
  imports Prelude
begin

text \<open>
  User registration (\<open>userregistration/internal\<close>): the steps of \<open>RegisterUser\<close> across AWS
  Cognito, a key pair, AWS KMS and PostgreSQL, with the compensating delete when a later
  step fails, and \<open>GetUser\<close> (\<open>service.go\<close>), the Cognito user manager (\<open>cognito.go\<close>) and the KMS
  encryptor (\<open>kms.go\<close>). Cognito, KMS and the address derivation of btcutil are
  parameters; Cognito has a state of its own type. The private key only exists between
  its generation and its encryption; the buffer that is zeroed afterwards is local to
  the call.
\<close>

section \<open>Cognito\<close>

text \<open>The attributes of the created user, that the name is taken, or another error.\<close>

datatype createOutput = CognitoUser "(string \<times> string) list" | UsernameExistsException | CognitoError

record 'c cognito =
  adminCreateUser :: "string \<Rightarrow> string \<Rightarrow> string \<Rightarrow> 'c \<Rightarrow> 'c \<times> createOutput"
  adminDeleteUser :: "string \<Rightarrow> string \<Rightarrow> 'c \<Rightarrow> 'c \<times> bool"

datatype umErr = AlreadyExistsError | NotFoundError | OtherUmError

fun subAttribute :: "(string \<times> string) list \<Rightarrow> string option" where
  "subAttribute [] = None"
| "subAttribute (attr # attrs) = (if fst attr = ''sub'' then Some (snd attr) else subAttribute attrs)"

definition CreateUser :: "'c cognito \<Rightarrow> string \<Rightarrow> string \<Rightarrow> string \<Rightarrow> 'c \<Rightarrow> 'c \<times> (umErr + string)" where
  "CreateUser client poolID username email c = (case adminCreateUser client poolID username email c of
     (c', UsernameExistsException) \<Rightarrow> (c', Inl AlreadyExistsError)
   | (c', CognitoError) \<Rightarrow> (c', Inl OtherUmError)
   | (c', CognitoUser attrs) \<Rightarrow> (case subAttribute attrs of
       Some sub \<Rightarrow> (c', Inr sub)
     | None \<Rightarrow> (c', Inl OtherUmError)))"

definition DeleteUser :: "'c cognito \<Rightarrow> string \<Rightarrow> string \<Rightarrow> 'c \<Rightarrow> 'c \<times> bool" where
  "DeleteUser client poolID username c = adminDeleteUser client poolID username c"

section \<open>KMS\<close>

type_synonym kms = "string \<Rightarrow> string \<Rightarrow> string option"

definition kmsEncrypt :: "kms \<Rightarrow> string \<Rightarrow> string \<Rightarrow> string option" where
  "kmsEncrypt client keyARN plaintext = client keyARN plaintext"

section \<open>The service\<close>

record userRow =
  urUserId :: string
  urUsername :: string
  urPubkey :: string
  urBtcAddr :: string
  urEncPrivkey :: string
  urKmsKeyId :: string

record regConfig =
  rgPoolID :: string
  rgKeyARN :: string
  rgKmsKeyID :: string

text \<open>What happens around one call: whether the queries fail, the key pair, if one is generated, and whether
  the insert runs, does not run, or runs and still reports an error.\<close>

datatype insertRun = InsertRuns | InsertNotRun | InsertUnknown

record regEnv =
  reCheckFails :: bool
  reKey :: "(string \<times> string) option"
  reInsert :: insertRun
  reGetFails :: bool

datatype urErr = UrInvalidArgument | UrAlreadyExists | UrNotFound | UrInternal

definition urGRPCError :: "umErr \<Rightarrow> urErr" where
  "urGRPCError e = (case e of AlreadyExistsError \<Rightarrow> UrAlreadyExists | NotFoundError \<Rightarrow> UrNotFound | OtherUmError \<Rightarrow> UrInternal)"

record RegisterUserResponse =
  rurUserId :: string
  rurUsername :: string
  rurBtcPubkey :: string
  rurBtcAddr :: string

definition registerCheck :: "regEnv \<Rightarrow> userRow list \<Rightarrow> string \<Rightarrow> string \<Rightarrow> urErr option" where
  "registerCheck env users username email =
     (if username = [] then Some UrInvalidArgument
      else if email = [] then Some UrInvalidArgument
      else if reCheckFails env then Some UrInternal
      else if list_ex (\<lambda>r. urUsername r = username) users then Some UrAlreadyExists
      else None)"

text \<open>Both the primary key and the unique user name raise error 23505.\<close>

definition insertUser :: "regEnv \<Rightarrow> userRow \<Rightarrow> userRow list \<Rightarrow> userRow list \<times> urErr option" where
  "insertUser env row users =
     (if reInsert env = InsertNotRun then (users, Some UrInternal)
      else if list_ex (\<lambda>r. urUserId r = urUserId row \<or> urUsername r = urUsername row) users then (users, Some UrAlreadyExists)
      else (users @ [row], if reInsert env = InsertUnknown then Some UrInternal else None))"

definition registerPersist :: "regConfig \<Rightarrow> kms \<Rightarrow> (string \<Rightarrow> string option) \<Rightarrow> regEnv \<Rightarrow> string \<Rightarrow> string \<Rightarrow> userRow list \<Rightarrow>
    userRow list \<times> (urErr + RegisterUserResponse)" where
  "registerPersist cfg client addrOf env cognitoSub username users = (case reKey env of
     None \<Rightarrow> (users, Inl UrInternal)
   | Some (privKeyBytes, pubKeyBytes) \<Rightarrow> (case addrOf pubKeyBytes of
     None \<Rightarrow> (users, Inl UrInternal)
   | Some btcAddr \<Rightarrow> (case kmsEncrypt client (rgKeyARN cfg) privKeyBytes of
     None \<Rightarrow> (users, Inl UrInternal)
   | Some encPrivKey \<Rightarrow> (case insertUser env \<lparr>urUserId = cognitoSub, urUsername = username, urPubkey = pubKeyBytes,
         urBtcAddr = btcAddr, urEncPrivkey = encPrivKey, urKmsKeyId = rgKmsKeyID cfg\<rparr> users of
     (users', Some e) \<Rightarrow> (users', Inl e)
   | (users', None) \<Rightarrow> (users', Inr \<lparr>rurUserId = cognitoSub, rurUsername = username, rurBtcPubkey = pubKeyBytes, rurBtcAddr = btcAddr\<rparr>)))))"

definition RegisterUser :: "regConfig \<Rightarrow> 'c cognito \<Rightarrow> kms \<Rightarrow> (string \<Rightarrow> string option) \<Rightarrow> regEnv \<Rightarrow> string \<Rightarrow> string \<Rightarrow>
    'c \<times> userRow list \<Rightarrow> ('c \<times> userRow list) \<times> (urErr + RegisterUserResponse)" where
  "RegisterUser cfg cg client addrOf env username email s = (let (c, users) = s in
     case registerCheck env users username email of
       Some e \<Rightarrow> (s, Inl e)
     | None \<Rightarrow> (case CreateUser cg (rgPoolID cfg) username email c of
         (c', Inl e) \<Rightarrow> ((c', users), Inl (urGRPCError e))
       | (c', Inr cognitoSub) \<Rightarrow> (case registerPersist cfg client addrOf env cognitoSub username users of
           (users', Inl e) \<Rightarrow> ((fst (DeleteUser cg (rgPoolID cfg) username c'), users'), Inl e)
         | (users', Inr resp) \<Rightarrow> ((c', users'), Inr resp))))"

definition GetUser :: "regEnv \<Rightarrow> userRow list \<Rightarrow> string \<Rightarrow> urErr + RegisterUserResponse" where
  "GetUser env users username =
     (if username = [] then Inl UrInvalidArgument
      else if reGetFails env then Inl UrInternal
      else case find (\<lambda>r. urUsername r = username) users of
        None \<Rightarrow> Inl UrNotFound
      | Some r \<Rightarrow> Inr \<lparr>rurUserId = urUserId r, rurUsername = urUsername r, rurBtcPubkey = urPubkey r, rurBtcAddr = urBtcAddr r\<rparr>)"

section \<open>Registrations in flight\<close>

text \<open>What Cognito documents: user names are unique, a created user has a fresh \<open>sub\<close>, a call that reports
  an error has changed nothing. \<open>view\<close> is the directory of a state.\<close>

definition cognitoOk :: "('c \<Rightarrow> string \<Rightarrow> string option) \<Rightarrow> 'c cognito \<Rightarrow> bool" where
  "cognitoOk view cg \<longleftrightarrow>
     (\<forall>pool u e c c' attrs. adminCreateUser cg pool u e c = (c', CognitoUser attrs) \<longrightarrow>
        view c u = None \<and> (\<exists>sub. subAttribute attrs = Some sub \<and> sub \<notin> ran (view c) \<and> view c' = (view c)(u \<mapsto> sub))) \<and>
     (\<forall>pool u e c c'. adminCreateUser cg pool u e c = (c', UsernameExistsException) \<longrightarrow> view c' = view c) \<and>
     (\<forall>pool u e c c'. adminCreateUser cg pool u e c = (c', CognitoError) \<longrightarrow> view c' = view c) \<and>
     (\<forall>pool u c c'. adminDeleteUser cg pool u c = (c', True) \<longrightarrow> view c' = (view c)(u := None)) \<and>
     (\<forall>pool u c c'. adminDeleteUser cg pool u c = (c', False) \<longrightarrow> view c' = view c)"

text \<open>A call is past its check, past the creation in Cognito, or has to undo it; \<open>ssLost\<close> are the users whose
  compensating delete failed, \<open>ssTorn\<close> those whose insert took effect and was reported as failed.\<close>

datatype flight = Checked string string | Created string string | Undo string string

record 'c sagaState =
  ssCognito :: 'c
  ssUsers :: "userRow list"
  ssFlight :: "flight list"
  ssLost :: "string set"
  ssTorn :: "string set"

inductive sagaStep :: "regConfig \<Rightarrow> 'c cognito \<Rightarrow> kms \<Rightarrow> (string \<Rightarrow> string option) \<Rightarrow> 'c sagaState \<Rightarrow> 'c sagaState \<Rightarrow> bool"
  for cfg cg client addrOf where
  saga_check: "registerCheck env (ssUsers s) u e = None \<Longrightarrow>
     sagaStep cfg cg client addrOf s (s\<lparr>ssFlight := Checked u e # ssFlight s\<rparr>)"
| saga_create: "Checked u e \<in> set (ssFlight s) \<Longrightarrow> CreateUser cg (rgPoolID cfg) u e (ssCognito s) = (c', Inr sub) \<Longrightarrow>
     sagaStep cfg cg client addrOf s (s\<lparr>ssCognito := c', ssFlight := Created u sub # remove1 (Checked u e) (ssFlight s)\<rparr>)"
| saga_refused: "Checked u e \<in> set (ssFlight s) \<Longrightarrow> CreateUser cg (rgPoolID cfg) u e (ssCognito s) = (c', Inl err) \<Longrightarrow>
     sagaStep cfg cg client addrOf s (s\<lparr>ssCognito := c', ssFlight := remove1 (Checked u e) (ssFlight s)\<rparr>)"
| saga_persist: "Created u sub \<in> set (ssFlight s) \<Longrightarrow>
     registerPersist cfg client addrOf env sub u (ssUsers s) = (users', Inr resp) \<Longrightarrow>
     sagaStep cfg cg client addrOf s (s\<lparr>ssUsers := users', ssFlight := remove1 (Created u sub) (ssFlight s)\<rparr>)"
| saga_fail: "Created u sub \<in> set (ssFlight s) \<Longrightarrow>
     registerPersist cfg client addrOf env sub u (ssUsers s) = (users', Inl err) \<Longrightarrow>
     sagaStep cfg cg client addrOf s (s\<lparr>ssUsers := users', ssFlight := Undo u sub # remove1 (Created u sub) (ssFlight s),
       ssTorn := (if users' = ssUsers s then ssTorn s else insert u (ssTorn s))\<rparr>)"
| saga_undo: "Undo u sub \<in> set (ssFlight s) \<Longrightarrow> DeleteUser cg (rgPoolID cfg) u (ssCognito s) = (c', ok) \<Longrightarrow>
     sagaStep cfg cg client addrOf s (s\<lparr>ssCognito := c', ssFlight := remove1 (Undo u sub) (ssFlight s),
       ssLost := (if ok then ssLost s else insert u (ssLost s))\<rparr>)"

inductive sagaReach :: "regConfig \<Rightarrow> 'c cognito \<Rightarrow> kms \<Rightarrow> (string \<Rightarrow> string option) \<Rightarrow> 'c sagaState \<Rightarrow> 'c sagaState \<Rightarrow> bool"
  for cfg cg client addrOf where
  saga_refl: "sagaReach cfg cg client addrOf s s"
| saga_step: "sagaReach cfg cg client addrOf s t \<Longrightarrow> sagaStep cfg cg client addrOf t u \<Longrightarrow> sagaReach cfg cg client addrOf s u"

section \<open>Invariant\<close>

fun heldOf :: "flight \<Rightarrow> (string \<times> string) option" where
  "heldOf (Checked u e) = None"
| "heldOf (Created u sub) = Some (u, sub)"
| "heldOf (Undo u sub) = Some (u, sub)"

definition held :: "flight list \<Rightarrow> (string \<times> string) list" where
  "held fs = List.map_filter heldOf fs"

lemma held_simps [simp]:
  "held [] = []" "held (Checked u e # fs) = held fs" "held (Created u sub # fs) = (u, sub) # held fs" "held (Undo u sub # fs) = (u, sub) # held fs"
  by (simp_all add: held_def map_filter_simps)

lemma held_remove1: "f \<in> set fs \<Longrightarrow> mset (held fs) = mset (case heldOf f of None \<Rightarrow> held (remove1 f fs) | Some us \<Rightarrow> us # held (remove1 f fs))"
proof (induction fs)
  case (Cons g fs)
  then show ?case by (cases "g = f"; cases f; cases g) auto
qed simp

lemma held_checked: "Checked u e \<in> set fs \<Longrightarrow> mset (held (remove1 (Checked u e) fs)) = mset (held fs)"
  using held_remove1 [of "Checked u e" fs] by simp

definition sagaInv :: "('c \<Rightarrow> string \<Rightarrow> string option) \<Rightarrow> 'c sagaState \<Rightarrow> bool" where
  "sagaInv view s \<longleftrightarrow> distinct (map urUsername (ssUsers s)) \<and>
     (\<forall>r \<in> set (ssUsers s). urUsername r \<in> ssTorn s \<or>
        (view (ssCognito s) (urUsername r) = Some (urUserId r) \<and> urUsername r \<notin> fst ` set (held (ssFlight s)))) \<and>
     (\<forall>(u, sub) \<in> set (held (ssFlight s)). view (ssCognito s) u = Some sub) \<and>
     distinct (map fst (held (ssFlight s))) \<and>
     dom (view (ssCognito s)) \<subseteq> urUsername ` set (ssUsers s) \<union> fst ` set (held (ssFlight s)) \<union> ssLost s"

text \<open>Only the multiset of held names matters.\<close>

lemma sagaInv_held:
  assumes "mset (held fs) = mset (held (ssFlight s))"
  shows "sagaInv view (s\<lparr>ssFlight := fs\<rparr>) \<longleftrightarrow> sagaInv view s"
proof -
  have "set (held fs) = set (held (ssFlight s))" using assms by (rule mset_eq_setD)
  moreover have "distinct (map fst (held fs)) \<longleftrightarrow> distinct (map fst (held (ssFlight s)))"
    by (rule mset_eq_imp_distinct_iff) (simp only: mset_map assms)
  ultimately show ?thesis by (simp add: sagaInv_def)
qed

text \<open>The three ways the persisting step ends.\<close>

lemma insertUser_cases:
  assumes "insertUser env row users = (users', r)"
  obtains "users' = users" "r \<noteq> None" | "users' = users @ [row]" "urUsername row \<notin> urUsername ` set users"
proof (cases "reInsert env = InsertNotRun \<or> list_ex (\<lambda>x. urUserId x = urUserId row \<or> urUsername x = urUsername row) users")
  case True
  with assms that(1) show ?thesis by (auto simp: insertUser_def split: if_splits)
next
  case False
  then have "urUsername row \<notin> urUsername ` set users" by (auto simp: list_ex_iff)
  with False assms that(2) show ?thesis by (auto simp: insertUser_def)
qed

lemma registerPersist_cases:
  assumes "registerPersist cfg client addrOf env sub u users = (users', r)"
  obtains "users' = users" "\<exists>e. r = Inl e"
  | row where "users' = users @ [row]" "urUserId row = sub" "urUsername row = u" "u \<notin> urUsername ` set users"
proof -
  consider (early) "users' = users" "r = Inl UrInternal"
    | (insert) row r' where "insertUser env row users = (users', r')" "urUserId row = sub" "urUsername row = u" "r' \<noteq> None \<longrightarrow> (\<exists>e. r = Inl e)"
  proof -
    let ?row = "\<lambda>pub addr enc. \<lparr>urUserId = sub, urUsername = u, urPubkey = pub, urBtcAddr = addr, urEncPrivkey = enc, urKmsKeyId = rgKmsKeyID cfg\<rparr>"
    assume early: "users' = users \<Longrightarrow> r = Inl UrInternal \<Longrightarrow> thesis"
      and ins: "\<And>row r'. insertUser env row users = (users', r') \<Longrightarrow> urUserId row = sub \<Longrightarrow> urUsername row = u \<Longrightarrow> r' \<noteq> None \<longrightarrow> (\<exists>e. r = Inl e) \<Longrightarrow> thesis"
    show thesis
    proof (cases "\<exists>priv pub addr enc. reKey env = Some (priv, pub) \<and> addrOf pub = Some addr \<and> kmsEncrypt client (rgKeyARN cfg) priv = Some enc")
      case True
      then obtain priv pub addr enc where k: "reKey env = Some (priv, pub)" "addrOf pub = Some addr" "kmsEncrypt client (rgKeyARN cfg) priv = Some enc" by blast
      obtain us r' where i: "insertUser env (?row pub addr enc) users = (us, r')" by fastforce
      from assms k i have "us = users'" "r' \<noteq> None \<longrightarrow> (\<exists>e. r = Inl e)" by (auto simp: registerPersist_def split: option.splits)
      with ins [of "?row pub addr enc" r'] i show thesis by simp
    next
      case False
      with assms early show thesis by (auto simp: registerPersist_def split: option.splits)
    qed
  qed
  then show ?thesis
  proof cases
    case early
    with that(1) show ?thesis by blast
  next
    case (insert row r')
    from insert(1) show ?thesis by (rule insertUser_cases) (use insert that in auto)
  qed
qed

end
