(* ===== verification/UserProps.thy ===== *)
theory UserProps
  imports UserRegistration "HOL-Library.AList"
begin

text \<open>
  Registrations keep Cognito and the users table consistent: the invariant of the steps of
  concurrent registrations, and the property built on it.
\<close>

section \<open>Cognito calls\<close>

lemma CreateUser_created:
  assumes "cognitoOk view cg" and "CreateUser cg pool u e c = (c', Inr sub)"
  shows "view c u = None \<and> view c' = (view c)(u \<mapsto> sub)"
proof -
  from assms(2) obtain attrs where "adminCreateUser cg pool u e c = (c', CognitoUser attrs)" "subAttribute attrs = Some sub"
    by (auto simp: CreateUser_def split: prod.splits createOutput.splits option.splits)
  with assms(1) show ?thesis unfolding cognitoOk_def by fastforce
qed

lemma CreateUser_refused:
  assumes "cognitoOk view cg" and "CreateUser cg pool u e c = (c', Inl err)"
  shows "view c' = view c"
proof (cases "adminCreateUser cg pool u e c")
  case (Pair c1 out)
  show ?thesis
  proof (cases out)
    case (CognitoUser attrs)
    with Pair have "adminCreateUser cg pool u e c = (c1, CognitoUser attrs)" by simp
    with assms(1) obtain sub where "subAttribute attrs = Some sub" unfolding cognitoOk_def by fastforce
    with CognitoUser Pair assms(2) show ?thesis by (simp add: CreateUser_def)
  next
    case UsernameExistsException
    with Pair assms show ?thesis by (simp add: CreateUser_def cognitoOk_def)
  next
    case CognitoError
    with Pair assms show ?thesis by (simp add: CreateUser_def cognitoOk_def)
  qed
qed

lemma DeleteUser_view:
  assumes "cognitoOk view cg" and "DeleteUser cg pool u c = (c', ok)"
  shows "view c' = (if ok then (view c)(u := None) else view c)"
  using assms by (cases ok) (simp_all add: DeleteUser_def cognitoOk_def)

section \<open>The invariant is kept\<close>

lemma held_take:
  assumes "f \<in> set fs" and "heldOf f = Some (u, sub)" and "distinct (map fst (held fs))"
  shows "set (held fs) = insert (u, sub) (set (held (remove1 f fs)))" and "distinct (map fst (held (remove1 f fs)))"
    and "u \<notin> fst ` set (held (remove1 f fs))"
proof -
  have m: "mset (held fs) = mset ((u, sub) # held (remove1 f fs))" using held_remove1 [OF assms(1)] assms(2) by simp
  show "set (held fs) = insert (u, sub) (set (held (remove1 f fs)))" using mset_eq_setD [OF m] by simp
  have "mset (map fst (held fs)) = mset (map fst ((u, sub) # held (remove1 f fs)))" by (simp only: mset_map m)
  with assms(3) have "distinct (map fst ((u, sub) # held (remove1 f fs)))" using mset_eq_imp_distinct_iff by blast
  then show "distinct (map fst (held (remove1 f fs)))" "u \<notin> fst ` set (held (remove1 f fs))" by simp_all
qed

lemma sagaInv_create:
  assumes "sagaInv view s" and "view (ssCognito s) u = None" and "view c' = (view (ssCognito s))(u \<mapsto> sub)"
  shows "sagaInv view (s\<lparr>ssCognito := c', ssFlight := Created u sub # ssFlight s\<rparr>)"
proof -
  have "u \<notin> fst ` set (held (ssFlight s))" using assms(1,2) by (force simp: sagaInv_def)
  then show ?thesis using assms unfolding sagaInv_def by (fastforce simp: image_iff split: if_splits)
qed

lemma sagaInv_persist:
  assumes inv: "sagaInv view s" and f: "Created u sub \<in> set (ssFlight s)"
    and row: "urUserId row = sub" "urUsername row = u" "u \<notin> urUsername ` set (ssUsers s)"
  shows "sagaInv view (s\<lparr>ssUsers := ssUsers s @ [row], ssFlight := remove1 (Created u sub) (ssFlight s)\<rparr>)"
proof -
  have d: "distinct (map fst (held (ssFlight s)))" using inv by (simp add: sagaInv_def)
  note h = held_take [OF f _ d, of u sub, simplified]
  show ?thesis using inv row h unfolding sagaInv_def by (auto simp: h(1))
qed

lemma sagaInv_undo:
  assumes inv: "sagaInv view s" and f: "Undo u sub \<in> set (ssFlight s)"
    and v: "view c' = (if ok then (view (ssCognito s))(u := None) else view (ssCognito s))"
  shows "sagaInv view (s\<lparr>ssCognito := c', ssFlight := remove1 (Undo u sub) (ssFlight s), ssLost := (if ok then ssLost s else insert u (ssLost s))\<rparr>)"
proof -
  have d: "distinct (map fst (held (ssFlight s)))" using inv by (simp add: sagaInv_def)
  note h = held_take [OF f _ d, of u sub, simplified]
  have t: "urUsername r \<in> ssTorn s" if "r \<in> set (ssUsers s)" "urUsername r = u" for r
    using inv that h(1) unfolding sagaInv_def by fastforce
  have n: "\<forall>(u', sub') \<in> set (held (remove1 (Undo u sub) (ssFlight s))). u' \<noteq> u" using h(3) by force
  show ?thesis
  proof (cases ok)
    case True
    then show ?thesis using inv h(2) v t n unfolding sagaInv_def h(1) by (auto simp: image_iff)
  next
    case False
    then show ?thesis using inv h(2) v t n unfolding sagaInv_def h(1) by (auto simp: image_iff)
  qed
qed

lemma sagaInv_torn: "sagaInv view s \<Longrightarrow> sagaInv view (s\<lparr>ssTorn := insert u (ssTorn s)\<rparr>)"
  by (simp add: sagaInv_def)

lemma sagaInv_tornRow:
  assumes "sagaInv view s" and "urUsername row \<notin> urUsername ` set (ssUsers s)"
  shows "sagaInv view (s\<lparr>ssUsers := ssUsers s @ [row], ssTorn := insert (urUsername row) (ssTorn s)\<rparr>)"
  using assms unfolding sagaInv_def by auto

lemma sagaInv_view:
  assumes "sagaInv view s" and "view c' = view (ssCognito s)"
  shows "sagaInv view (s\<lparr>ssCognito := c'\<rparr>)"
  using assms by (simp add: sagaInv_def)

lemma sagaStep_inv:
  assumes "cognitoOk view cg" and "sagaStep cfg cg client addrOf s t" and "sagaInv view s"
  shows "sagaInv view t"
  using assms(2,3)
proof (induction rule: sagaStep.induct)
  case (saga_check env s u e)
  with sagaInv_held [of "Checked u e # ssFlight s" s view] show ?case by simp
next
  case (saga_create u e s c' sub)
  let ?s = "s\<lparr>ssFlight := remove1 (Checked u e) (ssFlight s)\<rparr>"
  have "sagaInv view ?s" using saga_create(3) held_checked [OF saga_create(1)] by (simp add: sagaInv_held)
  with sagaInv_create [of view ?s u c' sub] CreateUser_created [OF assms(1) saga_create(2)] show ?case by simp
next
  case (saga_refused u e s c' err)
  have "sagaInv view (s\<lparr>ssCognito := c'\<rparr>)"
    by (rule sagaInv_view [OF saga_refused(3) CreateUser_refused [OF assms(1) saga_refused(2)]])
  then show ?case using sagaInv_held [of "remove1 (Checked u e) (ssFlight s)" "s\<lparr>ssCognito := c'\<rparr>" view] held_checked [OF saga_refused(1)]
    by simp
next
  case (saga_persist u sub s env users' resp)
  from saga_persist(2) show ?case
    by (rule registerPersist_cases) (use sagaInv_persist [OF saga_persist(3,1)] in auto)
next
  case (saga_fail u sub s env users' err)
  let ?fs = "Undo u sub # remove1 (Created u sub) (ssFlight s)"
  have m: "mset (held ?fs) = mset (held (ssFlight s))" using held_remove1 [OF saga_fail(1)] by simp
  from saga_fail(2) show ?case
  proof (rule registerPersist_cases)
    assume "users' = ssUsers s"
    then show ?thesis using saga_fail(3) sagaInv_held [OF m, of view] by simp
  next
    fix row assume row: "users' = ssUsers s @ [row]" "urUsername row = u" "u \<notin> urUsername ` set (ssUsers s)"
    with sagaInv_tornRow [OF saga_fail(3), of row]
    have "sagaInv view (s\<lparr>ssUsers := users', ssTorn := insert u (ssTorn s)\<rparr>)" by simp
    moreover have "mset (held ?fs) = mset (held (ssFlight (s\<lparr>ssUsers := users', ssTorn := insert u (ssTorn s)\<rparr>)))" using m by simp
    ultimately have "sagaInv view (s\<lparr>ssUsers := users', ssTorn := insert u (ssTorn s)\<rparr>\<lparr>ssFlight := ?fs\<rparr>)" by (simp only: sagaInv_held)
    then show ?thesis using row by (cases s) simp
  qed
next
  case (saga_undo u sub s c' ok)
  from sagaInv_undo [OF saga_undo(3,1) DeleteUser_view [OF assms(1) saga_undo(2)]] show ?case .
qed

lemma sagaReach_inv:
  assumes "cognitoOk view cg" and "sagaReach cfg cg client addrOf s t" and "sagaInv view s"
  shows "sagaInv view t"
  using assms(2,3) by (induction rule: sagaReach.induct) (auto intro: sagaStep_inv [OF assms(1)])

section \<open>A call is a run\<close>

lemma sagaReach_trans:
  assumes "sagaReach cfg cg client addrOf t u" and "sagaReach cfg cg client addrOf s t"
  shows "sagaReach cfg cg client addrOf s u"
  using assms by (induction rule: sagaReach.induct) (auto intro: saga_step)

lemma sagaReach_one: "sagaStep cfg cg client addrOf s t \<Longrightarrow> sagaReach cfg cg client addrOf s t"
  by (rule saga_step [OF saga_refl])

text \<open>The end of a call that has created its user: undone after an error, kept otherwise.\<close>

lemma undone_run:
  assumes "registerPersist cfg client addrOf env sub u (ssUsers s) = (users', Inl err)"
  shows "\<exists>lost torn. sagaReach cfg cg client addrOf (s\<lparr>ssFlight := Created u sub # ssFlight s\<rparr>)
    (s\<lparr>ssCognito := fst (DeleteUser cg (rgPoolID cfg) u (ssCognito s)), ssUsers := users', ssLost := lost, ssTorn := torn\<rparr>)"
proof -
  let ?s2 = "s\<lparr>ssFlight := Created u sub # ssFlight s\<rparr>"
  let ?torn = "if users' = ssUsers s then ssTorn s else insert u (ssTorn s)"
  let ?s3 = "s\<lparr>ssUsers := users', ssFlight := Undo u sub # ssFlight s, ssTorn := ?torn\<rparr>"
  obtain c ok where c: "DeleteUser cg (rgPoolID cfg) u (ssCognito s) = (c, ok)" by fastforce
  let ?lost = "if ok then ssLost s else insert u (ssLost s)"
  have "sagaStep cfg cg client addrOf ?s2 ?s3"
    using saga_fail [of u sub ?s2 cfg client addrOf env users' err cg] assms by (cases s; cases "users' = ssUsers s") simp_all
  moreover have "sagaStep cfg cg client addrOf ?s3 (?s3\<lparr>ssCognito := c, ssFlight := ssFlight s, ssLost := ?lost\<rparr>)"
    using saga_undo [of u sub ?s3 cg cfg c ok] c by (cases s; cases ok; cases "users' = ssUsers s") simp_all
  ultimately have "sagaReach cfg cg client addrOf ?s2 (?s3\<lparr>ssCognito := c, ssFlight := ssFlight s, ssLost := ?lost\<rparr>)"
    using saga_refl saga_step by meson
  then have "sagaReach cfg cg client addrOf ?s2 (s\<lparr>ssCognito := c, ssUsers := users', ssLost := ?lost, ssTorn := ?torn\<rparr>)"
    by (cases s) simp
  with c show ?thesis by auto
qed

lemma kept_run:
  assumes "registerPersist cfg client addrOf env sub u (ssUsers s) = (users', Inr resp)"
  shows "sagaReach cfg cg client addrOf (s\<lparr>ssFlight := Created u sub # ssFlight s\<rparr>) (s\<lparr>ssUsers := users'\<rparr>)"
  using sagaReach_one [OF saga_persist [of u sub "s\<lparr>ssFlight := Created u sub # ssFlight s\<rparr>" cfg client addrOf env users' resp cg]] assms
  by (cases s) simp

lemma RegisterUser_run:
  assumes "RegisterUser cfg cg client addrOf env u e (ssCognito s, ssUsers s) = ((c', users'), r)"
  shows "\<exists>lost torn. sagaReach cfg cg client addrOf s (s\<lparr>ssCognito := c', ssUsers := users', ssLost := lost, ssTorn := torn\<rparr>)"
proof (cases "registerCheck env (ssUsers s) u e")
  case (Some err)
  with assms have "s\<lparr>ssCognito := c', ssUsers := users', ssLost := ssLost s, ssTorn := ssTorn s\<rparr> = s" by (auto simp: RegisterUser_def)
  then show ?thesis using saga_refl by metis
next
  case None
  let ?s1 = "s\<lparr>ssFlight := Checked u e # ssFlight s\<rparr>"
  have 1: "sagaReach cfg cg client addrOf s ?s1" by (rule sagaReach_one [OF saga_check [OF None]])
  obtain c1 out where c1: "CreateUser cg (rgPoolID cfg) u e (ssCognito s) = (c1, out)" by fastforce
  let ?s = "s\<lparr>ssCognito := c1\<rparr>"
  show ?thesis
  proof (cases out)
    case (Inl err)
    with saga_refused [of u e ?s1 cg cfg c1 err] c1 have "sagaStep cfg cg client addrOf ?s1 ?s" by (cases s) simp
    moreover have "s\<lparr>ssCognito := c', ssUsers := users', ssLost := ssLost s, ssTorn := ssTorn s\<rparr> = ?s"
      using Inl c1 assms None by (auto simp: RegisterUser_def)
    ultimately show ?thesis using saga_step [OF 1] by metis
  next
    case (Inr sub)
    with saga_create [of u e ?s1 cg cfg c1 sub] c1 have "sagaStep cfg cg client addrOf ?s1 (?s\<lparr>ssFlight := Created u sub # ssFlight ?s\<rparr>)"
      by (cases s) simp
    from saga_step [OF 1 this] have 2: "sagaReach cfg cg client addrOf s (?s\<lparr>ssFlight := Created u sub # ssFlight ?s\<rparr>)" .
    obtain us res where p: "registerPersist cfg client addrOf env sub u (ssUsers ?s) = (us, res)" by fastforce
    show ?thesis
    proof (cases res)
      case Err: (Inl err)
      with p c1 Inr assms None have "c' = fst (DeleteUser cg (rgPoolID cfg) u (ssCognito ?s))" "users' = us" by (simp_all add: RegisterUser_def)
      with undone_run [of cfg client addrOf env sub u ?s us err cg] p Err sagaReach_trans [OF _ 2] show ?thesis by (cases s) fastforce
    next
      case Resp: (Inr resp)
      with p c1 Inr assms None have "s\<lparr>ssCognito := c', ssUsers := users', ssLost := ssLost s, ssTorn := ssTorn s\<rparr> = ?s\<lparr>ssUsers := us\<rparr>"
        by (auto simp: RegisterUser_def)
      with kept_run [of cfg client addrOf env sub u ?s us resp cg] p Resp sagaReach_trans [OF _ 2] show ?thesis by metis
    qed
  qed
qed

section \<open>Reading back\<close>

lemma find_new: "u \<notin> urUsername ` set users \<Longrightarrow> urUsername row = u \<Longrightarrow> find (\<lambda>r. urUsername r = u) (users @ [row]) = Some row"
  by (induction users) auto

lemma RegisterUser_success:
  assumes "cognitoOk view cg" and "RegisterUser cfg cg client addrOf env u e (c, users) = ((c', users'), Inr resp)"
  shows "view c u = None \<and> view c' = (view c)(u \<mapsto> rurUserId resp) \<and> (\<exists>row. users' = users @ [row] \<and> u \<notin> urUsername ` set users) \<and>
    (reGetFails env' \<or> GetUser env' users' u = Inr resp)"
proof -
  from assms(2) obtain sub where chk: "registerCheck env users u e = None" and cr: "CreateUser cg (rgPoolID cfg) u e c = (c', Inr sub)"
    and p: "registerPersist cfg client addrOf env sub u users = (users', Inr resp)"
    by (auto simp: RegisterUser_def split: option.splits prod.splits sum.splits)
  from p obtain priv pub addr enc where k: "reKey env = Some (priv, pub)" "addrOf pub = Some addr" "kmsEncrypt client (rgKeyARN cfg) priv = Some enc"
    by (auto simp: registerPersist_def split: option.splits prod.splits)
  let ?row = "\<lparr>urUserId = sub, urUsername = u, urPubkey = pub, urBtcAddr = addr, urEncPrivkey = enc, urKmsKeyId = rgKmsKeyID cfg\<rparr>"
  from p k have i: "insertUser env ?row users = (users', None)"
    and resp: "resp = \<lparr>rurUserId = sub, rurUsername = u, rurBtcPubkey = pub, rurBtcAddr = addr\<rparr>"
    by (auto simp: registerPersist_def split: option.splits prod.splits)
  from i have row: "users' = users @ [?row]" "u \<notin> urUsername ` set users" by (auto elim!: insertUser_cases)
  have "u \<noteq> []" using chk by (auto simp: registerCheck_def split: if_splits)
  with row find_new [of u users ?row] CreateUser_created [OF assms(1) cr] resp show ?thesis by (simp add: GetUser_def)
qed

section \<open>A concrete directory\<close>

text \<open>A Cognito whose state is the list of its users; a new \<open>sub\<close> is longer than all the others.\<close>

definition demoSub :: "(string \<times> string) list \<Rightarrow> string" where
  "demoSub us = replicate (Suc (sum_list (map (length \<circ> snd) us))) CHR ''x''"

definition demoCognito :: "(string \<times> string) list cognito" where
  "demoCognito = \<lparr>
     adminCreateUser = (\<lambda>pool u e us. if u \<in> fst ` set us then (us, UsernameExistsException)
       else ((u, demoSub us) # us, CognitoUser [(''email'', e), (''sub'', demoSub us)])),
     adminDeleteUser = (\<lambda>pool u us. (AList.delete u us, True))\<rparr>"

definition demoConfig :: regConfig where
  "demoConfig = \<lparr>rgPoolID = ''pool'', rgKeyARN = ''arn'', rgKmsKeyID = ''key''\<rparr>"

definition demoEnv :: regEnv where
  "demoEnv = \<lparr>reCheckFails = False, reKey = Some (''priv'', ''pub''), reInsert = InsertRuns, reGetFails = False\<rparr>"

definition noUsers :: "'c \<Rightarrow> 'c sagaState" where
  "noUsers c = \<lparr>ssCognito = c, ssUsers = [], ssFlight = [], ssLost = {}, ssTorn = {}\<rparr>"

lemma demoSub_fresh: "demoSub us \<notin> ran (map_of us)"
proof
  assume "demoSub us \<in> ran (map_of us)"
  then obtain u where "(u, demoSub us) \<in> set us" by (auto simp: ran_def dest: map_of_SomeD)
  then have "length (demoSub us) \<le> sum_list (map (length \<circ> snd) us)" by (intro member_le_sum_list) (force, simp)
  then show False by (simp add: demoSub_def)
qed

lemma demo_cognitoOk: "cognitoOk map_of demoCognito"
  using demoSub_fresh by (auto simp: cognitoOk_def demoCognito_def delete_conv' map_of_eq_None_iff split: if_splits)

lemma sagaInv_noUsers: "view c = Map.empty \<Longrightarrow> sagaInv view (noUsers c)"
  by (simp add: sagaInv_def noUsers_def)

section \<open>Property\<close>



end
