(* ===== verification/Onboarding.thy ===== *)
theory Onboarding
  imports UserProps WatcherProps
begin

text \<open>
  From registration to credit: the users table that \<open>userregistration\<close> writes is the one
  \<open>btcwatcher\<close> polls (\<open>userstore.go\<close>), and what the watcher finds for a user's address reaches the
  user's account at the cashier.
\<close>

section \<open>The users a poll sees\<close>

text \<open>\<open>SELECT user_id, btc_addr FROM users\<close> names no order.\<close>

definition ListAll :: "bool \<Rightarrow> string list \<Rightarrow> userRow list \<Rightarrow> UserRecord list option" where
  "ListAll queryFails order users =
     (if queryFails then None
      else Some (map (\<lambda>r. \<lparr>UserRecord.urUserID = urUserId r, UserRecord.urBtcAddr = userRow.urBtcAddr r\<rparr>) (orderBy urUserId order users)))"

lemma registered_row:
  assumes "RegisterUser cfg cg client addrOf env username email (c, users) = ((c', users'), Inr resp)"
  obtains row where "users' = users @ [row]" "urUserId row = rurUserId resp" "userRow.urBtcAddr row = rurBtcAddr resp"
proof -
  from assms obtain sub c'' where p: "registerPersist cfg client addrOf env sub username users = (users', Inr resp)"
    by (auto simp: RegisterUser_def split: option.splits prod.splits sum.splits)
  then show ?thesis using that
    by (auto simp: registerPersist_def insertUser_def split: option.splits prod.splits if_splits)
qed

lemma indexNewUsers_mono:
  "indexNewUsers lib rs idx addrs = (idx', addrs') \<Longrightarrow> set addrs \<subseteq> set addrs' \<and> (\<forall>a u. idx a = Some u \<longrightarrow> idx' a = Some u)"
proof (induction rs arbitrary: idx addrs)
  case (Cons r rs)
  show ?case
  proof (cases "idx (UserRecord.urBtcAddr r) \<noteq> None \<or> \<not> decodeAddress lib (UserRecord.urBtcAddr r)")
    case True
    with Cons show ?thesis by (auto split: if_splits)
  next
    case False
    with Cons.prems have "indexNewUsers lib rs (idx(UserRecord.urBtcAddr r \<mapsto> urUserID r)) (addrs @ [UserRecord.urBtcAddr r]) = (idx', addrs')" by simp
    from Cons.IH [OF this] False show ?thesis by (metis (no_types, lifting) Un_subset_iff fun_upd_other option.distinct(1) set_append)
  qed
qed simp

lemma indexNewUsers_finds:
  assumes "indexNewUsers lib rs idx addrs = (idx', addrs')" and "r \<in> set rs" and "UserRecord.urBtcAddr r = a"
    and "decodeAddress lib a" and "idx a = None" and "\<forall>r' \<in> set rs. UserRecord.urBtcAddr r' = a \<longrightarrow> urUserID r' = u"
  shows "idx' a = Some u \<and> a \<in> set addrs'"
  using assms
proof (induction rs arbitrary: idx addrs)
  case (Cons x rs)
  show ?case
  proof (cases "UserRecord.urBtcAddr x = a")
    case True
    with Cons.prems have "indexNewUsers lib rs (idx(a \<mapsto> u)) (addrs @ [a]) = (idx', addrs')" by auto
    from indexNewUsers_mono [OF this] show ?thesis by auto
  next
    case False
    then have "r \<in> set rs" using Cons.prems(2,3) by auto
    with False Cons.prems Cons.IH show ?thesis by (auto split: if_splits)
  qed
qed simp

lemma poll_finds:
  assumes "r \<in> set rs" and "UserRecord.urBtcAddr r = a" and "decodeAddress lib a" and "wtIndex w a = None"
    and "\<forall>r' \<in> set rs. UserRecord.urBtcAddr r' = a \<longrightarrow> urUserID r' = u"
    and "w' = watchEvent lib cf (EvPoll False (Some rs)) w"
  shows "wtIndex w' a = Some u" "nodeRescan (wtNode w) = Some ws \<Longrightarrow> \<exists>ws'. nodeRescan (wtNode w') = Some ws' \<and> a \<in> set ws'"
    "wtTxs w' = wtTxs w" "wtCashier w' = wtCashier w"
proof -
  obtain idx' addrs' where i: "indexNewUsers lib rs (wtIndex w) [] = (idx', addrs')" by fastforce
  from indexNewUsers_finds [OF i assms(1-5)] have f: "idx' a = Some u" "a \<in> set addrs'" by auto
  then have w': "w' = w\<lparr>wtIndex := idx', wtNode := fst (WatchAddresses False (wtNode w) addrs')\<rparr>"
    using assms(6) i by (auto simp: watchEvent_def pollNewUsers_def Let_def split: prod.split)
  show "wtIndex w' a = Some u" "wtTxs w' = wtTxs w" "wtCashier w' = wtCashier w" using f by (simp_all add: w')
  show "\<exists>ws'. nodeRescan (wtNode w') = Some ws' \<and> a \<in> set ws'" if "nodeRescan (wtNode w) = Some ws"
    using f that by (simp add: w' WatchAddresses_def)
qed

section \<open>The row of an output\<close>

definition rowCore :: "depositRow \<Rightarrow> outpoint \<times> string \<times> int" where
  "rowCore r = (rowKey r, rwUser r, rwSatoshis r)"

lemma txInsert_core: "rowCore ` set t \<subseteq> rowCore ` set (txInsert d t)"
proof -
  have "map rowCore (updateWhere p (\<lambda>r. r\<lparr>rwSeenAtHeight := h, rwReorgedAt := None\<rparr>) t) = map rowCore t" for p h
    by (simp add: updateWhere_def rowCore_def rowKey_def)
  then have "rowCore ` set (updateWhere p (\<lambda>r. r\<lparr>rwSeenAtHeight := h, rwReorgedAt := None\<rparr>) t) = rowCore ` set t" for p h
    by (metis list.set_map)
  then show ?thesis by (auto simp: txInsert_def)
qed

lemma txInsert_keys: "rowKey ` set (txInsert d t) \<subseteq> insert (dTxid d, dVout d) (rowKey ` set t)"
  by (auto simp: txInsert_def updateWhere_def rowKey_def)

lemma txInsert_new:
  "0 < dSatoshis d \<Longrightarrow> (dTxid d, dVout d) \<notin> rowKey ` set t \<Longrightarrow> ((dTxid d, dVout d), dUserID d, dSatoshis d) \<in> rowCore ` set (txInsert d t)"
  by (simp add: txInsert_def rowCore_def rowKey_def)

lemma oneOut_keys:
  "rowKey ` set (case outputAddress lib (outPkScript out) of None \<Rightarrow> t | Some addrStr \<Rightarrow> (case idx addrStr of None \<Rightarrow> t
     | Some userID \<Rightarrow> if weFails e (OpInsert (txid, v)) then t else txInsert \<lparr>dTxid = txid, dVout = v, dUserID = userID, dSatoshis = outValue out,
         dSeenAtHeight = h, dEscrowed = False\<rparr> t)) \<subseteq> insert (txid, v) (rowKey ` set t)"
proof -
  have "rowKey ` set (txInsert \<lparr>dTxid = txid, dVout = v, dUserID = u, dSatoshis = outValue out, dSeenAtHeight = h, dEscrowed = False\<rparr> t) \<subseteq>
      insert (txid, v) (rowKey ` set t)" for u using txInsert_keys by fastforce
  then show ?thesis by (simp add: subset_insertI split: option.split)
qed

lemma insertOuts_core: "rowCore ` set t \<subseteq> rowCore ` set (insertOuts lib e idx h txid v outs t)"
proof (induction outs arbitrary: v t)
  case (Cons out outs)
  show ?case unfolding insertOuts.simps
    by (rule subset_trans [OF _ Cons.IH]) (simp add: txInsert_core split: option.split)
qed simp

lemma insertOuts_keys: "rowKey ` set (insertOuts lib e idx h txid v outs t) \<subseteq> rowKey ` set t \<union> {(txid, k) | k. v \<le> k}"
proof (induction outs arbitrary: v t)
  case (Cons out outs)
  show ?case unfolding insertOuts.simps
    by (rule subset_trans [OF Cons.IH], use oneOut_keys in fastforce)
qed simp

lemma insertOuts_new:
  assumes "n < length outs" and "outputAddress lib (outPkScript (outs ! n)) = Some a" and "idx a = Some u" and "0 < outValue (outs ! n)"
    and "\<And>op. \<not> weFails e op" and "(txid, v + int n) \<notin> rowKey ` set t"
  shows "((txid, v + int n), u, outValue (outs ! n)) \<in> rowCore ` set (insertOuts lib e idx h txid v outs t)"
  using assms
proof (induction outs arbitrary: n v t)
  case (Cons out outs)
  let ?t = "case outputAddress lib (outPkScript out) of None \<Rightarrow> t | Some addrStr \<Rightarrow> (case idx addrStr of None \<Rightarrow> t
     | Some userID \<Rightarrow> if weFails e (OpInsert (txid, v)) then t else txInsert \<lparr>dTxid = txid, dVout = v, dUserID = userID, dSatoshis = outValue out,
                              dSeenAtHeight = h, dEscrowed = False\<rparr> t)"
  show ?case
  proof (cases n)
    case 0
    with Cons.prems have "((txid, v + int n), u, outValue ((out # outs) ! n)) \<in> rowCore ` set ?t"
      using txInsert_new [of "\<lparr>dTxid = txid, dVout = v, dUserID = u, dSatoshis = outValue out, dSeenAtHeight = h, dEscrowed = False\<rparr>" t] by simp
    then show ?thesis using insertOuts_core [THEN subsetD] by simp
  next
    case (Suc m)
    from oneOut_keys [where lib = lib and out = out and t = t and idx = idx and e = e and txid = txid and v = v and h = h] Suc Cons.prems(6) have "(txid, v + 1 + int m) \<notin> rowKey ` set ?t" by (auto simp: algebra_simps)
    with Cons.IH [of m "v + 1" ?t] Cons.prems Suc show ?thesis by (simp add: algebra_simps)
  qed
qed simp

lemma insertTxs_core: "rowCore ` set t \<subseteq> rowCore ` set (insertTxs lib e idx h txs t)"
proof (induction txs arbitrary: t)
  case (Cons x txs)
  show ?case unfolding insertTxs.simps by (rule subset_trans [OF insertOuts_core Cons.IH])
qed simp

lemma insertTxs_new:
  assumes "tx \<in> set txs" and "distinct (map txHash txs)" and "n < length (txOuts tx)"
    and "outputAddress lib (outPkScript (txOuts tx ! n)) = Some a" and "idx a = Some u" and "0 < outValue (txOuts tx ! n)"
    and "\<And>op. \<not> weFails e op" and "(txHash tx, int n) \<notin> rowKey ` set t"
  shows "((txHash tx, int n), u, outValue (txOuts tx ! n)) \<in> rowCore ` set (insertTxs lib e idx h txs t)"
  using assms
proof (induction txs arbitrary: t)
  case (Cons x txs)
  let ?t = "insertOuts lib e idx h (txHash x) 0 (txOuts x) t"
  show ?case
  proof (cases "x = tx")
    case True
    have "((txHash tx, int n), u, outValue (txOuts tx ! n)) \<in> rowCore ` set ?t"
      using insertOuts_new [of n "txOuts tx" lib a idx u e "txHash tx" 0 t h] Cons.prems True by simp
    then show ?thesis using insertTxs_core [THEN subsetD] by simp
  next
    case False
    then have tx: "tx \<in> set txs" "txHash x \<noteq> txHash tx" using Cons.prems(1,2) by auto
    then have "(txHash tx, int n) \<notin> {(txHash x, k) | k. (0 :: int) \<le> k}" by simp
    with insertOuts_keys [of lib e idx h "txHash x" 0 "txOuts x" t] Cons.prems(8) have "(txHash tx, int n) \<notin> rowKey ` set ?t" by (meson UnE subsetD)
    from Cons.IH [OF tx(1) _ Cons.prems(3-7) this] Cons.prems(2) show ?thesis by simp
  qed
qed simp

section \<open>Property\<close>

lemma block_rows:
  assumes "dbOk (wtCashier w)" and "allGood e" and "w' = checkConfirmations cf e h (retryEscrows e w)"
  shows "rowCore ` set (wtTxs w') = rowCore ` set (wtTxs w)"
proof -
  have 1: "frameOk (rowRef ` set (wtTxs w)) w (retryEscrows e w)" by (rule retryEscrows_frame [OF assms(1)])
  then have "dbOk (wtCashier (retryEscrows e w))" by (simp add: frameOk_def)
  from checkConfirmations_frame [OF this] 1 have "sameRows (wtTxs w) (wtTxs w')"
    unfolding assms(3) frameOk_def using sameRows_trans by blast
  then obtain f where "wtTxs w' = map f (wtTxs w)" "flagsOnly f" by (auto simp: sameRows_def)
  then show ?thesis by (simp add: image_image rowCore_def flagsOnly_simps)
qed

text \<open>C27: From registration to credit. A user whose registration succeeded is found by the watcher's next poll that does
  not fail: the address is indexed under the user's id and registered with the node. When a block then pays
  that address, and a leading node handles the block without failures, the output is recorded for this user and
  escrowed, and the user's gross balance at the cashier includes its value. The address must be new, as
  keys are drawn at random, and sums and versions must stay within 64 bits.\<close>

theorem registered_user_credited:
  assumes "sysReach False cf idleSys (asSys w J)"
    and "RegisterUser cfg cg client addrOf env username email (c, users) = ((c', users'), Inr resp)"
    and "\<forall>r \<in> set users. userRow.urBtcAddr r \<noteq> rurBtcAddr resp" and "wtIndex w (rurBtcAddr resp) = None" and "decodeAddress lib (rurBtcAddr resp)"
    and "w1 = watchEvent lib cf (EvPoll False (ListAll False order users')) w"
    and "eventOk (EvBlock e evt)" and "beConnected evt" and "allGood e" and "tx \<in> set (beRelevantTxs evt)"
    and "distinct (map txHash (beRelevantTxs evt))" and "n < length (txOuts tx)"
    and "outputAddress lib (outPkScript (txOuts tx ! n)) = Some (rurBtcAddr resp)" and "0 < outValue (txOuts tx ! n)"
    and "(txHash tx, int n) \<notin> rowKey ` set (wtTxs w)"
    and "t = insertTxs lib e (wtIndex w1) (beHeight evt) (beRelevantTxs evt) (wtTxs w1)"
    and "\<And>u. everything t u \<le> int64_max" and "versionRoom (2 * length t) (wtCashier w)"
    and "w2 = watchEvent lib cf (EvBlock e evt) w1"
  shows "wtIndex w1 (rurBtcAddr resp) = Some (rurUserId resp) \<and>
    (nodeRescan (wtNode w) = Some ws \<longrightarrow> (\<exists>ws'. nodeRescan (wtNode w1) = Some ws' \<and> rurBtcAddr resp \<in> set ws')) \<and>
    (\<exists>r \<in> set (wtTxs w2). rowKey r = (txHash tx, int n) \<and> rwUser r = rurUserId resp \<and> rwSatoshis r = outValue (txOuts tx ! n) \<and> rwEscrowed r) \<and>
    outValue (txOuts tx ! n) \<le> grossOf (wtCashier w2) (rurUserId resp)"
proof -
  let ?a = "rurBtcAddr resp" and ?u = "rurUserId resp" and ?v = "outValue (txOuts tx ! n)"
  from registered_row [OF assms(2)] obtain row where
    row: "users' = users @ [row]" "urUserId row = ?u" "userRow.urBtcAddr row = ?a" by metis
  define rs where "rs = map (\<lambda>r. \<lparr>UserRecord.urUserID = urUserId r, UserRecord.urBtcAddr = userRow.urBtcAddr r\<rparr>) (orderBy urUserId order users')"
  have "\<lparr>UserRecord.urUserID = ?u, UserRecord.urBtcAddr = ?a\<rparr> \<in> set rs" "\<forall>r' \<in> set rs. UserRecord.urBtcAddr r' = ?a \<longrightarrow> urUserID r' = ?u"
    using row assms(3) by (force simp: rs_def)+
  note poll = poll_finds [OF this(1) _ assms(5,4) this(2), of w1 cf]
  have w1: "w1 = watchEvent lib cf (EvPoll False (Some rs)) w" using assms(6) by (simp add: ListAll_def rs_def)
  have reach: "sysReach False cf idleSys (asSys w1 J)"
    using assms(1) asSys_cong [of w1 w J] poll(3) [OF _ w1] poll(4) [OF _ w1] by (metis UserRecord.select_convs(2))
  have good: "\<not> weFails e op" for op using assms(9) by (simp add: allGood_def)
  have "(txHash tx, int n) \<notin> rowKey ` set (wtTxs w1)" using assms(15) poll(3) [OF _ w1] by simp
  from insertTxs_new [OF assms(10-13) _ assms(14) good this, of "wtIndex w1"] poll(1) [OF _ w1]
  have core: "((txHash tx, int n), ?u, ?v) \<in> rowCore ` set t" unfolding assms(16) by simp
  have acc: "accounted t (wtCashier w1)" by (rule block_accounted [OF reach assms(7,16)])
  have w2: "w2 = checkConfirmations cf e (beHeight evt) (retryEscrows e (w1\<lparr>wtTxs := t\<rparr>))"
    using good_block [OF assms(8,9,16)] assms(19) by simp
  note bg = block_good [OF acc assms(9,17) _ w2]
  have room: "versionRoom (2 * length t) (wtCashier w1)" using assms(18) poll(4) [OF _ w1] by simp
  have "rowCore ` set (wtTxs w2) = rowCore ` set t"
    using block_rows [OF _ assms(9) w2] acc by (simp add: accounted_def)
  with core have "((txHash tx, int n), ?u, ?v) \<in> rowCore ` set (wtTxs w2)" by simp
  then obtain r where r: "r \<in> set (wtTxs w2)" "rowKey r = (txHash tx, int n)" "rwUser r = ?u" "rwSatoshis r = ?v"
    by (auto simp: rowCore_def)
  from core obtain r0 where r0: "r0 \<in> set t" "rwUser r0 = ?u" "rwSatoshis r0 = ?v" by (auto simp: rowCore_def)
  have "?v \<le> everything t ?u"
    using total_ge [of t r0 "\<lambda>_. True"] acc r0 by (simp add: everything_def accounted_def)
  with bg(2,3) [OF room] r poll(1,2) [OF _ w1] show ?thesis by auto
qed

definition demoRow :: userRow where
  "demoRow = \<lparr>urUserId = demoSub [], urUsername = ''ann'', urPubkey = ''pub'', urBtcAddr = ''pub'', urEncPrivkey = ''priv'', urKmsKeyId = ''key''\<rparr>"

definition demoPay :: MsgTx where
  "demoPay = \<lparr>txHash = ''bb'', txOuts = [\<lparr>outValue = 500, outPkScript = ''pub''\<rparr>]\<rparr>"

definition demoPolled :: Watcher where
  "demoPolled = watchEvent demoLib demoCf (EvPoll False (ListAll False [] [demoRow])) demoW"

lemma demo_registers:
  "RegisterUser demoConfig demoCognito (\<lambda>_ p. Some p) Some demoEnv ''ann'' ''a@b'' ([], []) =
    (([(''ann'', demoSub [])], [demoRow]), Inr \<lparr>rurUserId = demoSub [], rurUsername = ''ann'', rurBtcPubkey = ''pub'', rurBtcAddr = ''pub''\<rparr>)"
  by (simp add: RegisterUser_def registerCheck_def demoEnv_def CreateUser_def demoCognito_def demoConfig_def
      registerPersist_def kmsEncrypt_def insertUser_def demoRow_def)

lemma demo_paid:
  "insertTxs demoLib (calm 0) (wtIndex demoPolled) (beHeight (blockAt 100 [demoPay])) (beRelevantTxs (blockAt 100 [demoPay])) (wtTxs demoPolled) =
    [\<lparr>rwTxid = ''bb'', rwVout = 0, rwUser = demoSub [], rwSatoshis = 500, rwSeenAtHeight = 100,
      rwEscrowed = False, rwConfirmed = False, rwReorgedAt = None\<rparr>]"
  by code_simp

theorem registered_user_credited_witness:
  "500 \<le> grossOf (wtCashier (watchEvent demoLib demoCf (EvBlock (calm 0) (blockAt 100 [demoPay])) demoPolled)) (demoSub [])"
proof -
  let ?t = "[\<lparr>rwTxid = ''bb'', rwVout = 0, rwUser = demoSub [], rwSatoshis = 500, rwSeenAtHeight = 100,
      rwEscrowed = False, rwConfirmed = False, rwReorgedAt = None\<rparr>] :: btcDeposits"
  have reach: "sysReach False demoCf idleSys (asSys demoW (\<lambda>_. []))" unfolding idleSys_demo by (rule reach_refl)
  have ev: "eventOk (EvBlock (calm 0) (blockAt 100 [demoPay]))" "beConnected (blockAt 100 [demoPay])" "allGood (calm 0)"
    "demoPay \<in> set (beRelevantTxs (blockAt 100 [demoPay]))" "distinct (map txHash (beRelevantTxs (blockAt 100 [demoPay])))" "0 < length (txOuts demoPay)"
    by (simp_all add: eventOk_def blockAt_def demoPay_def allGood_def calm_def)
  have out: "outputAddress demoLib (outPkScript (txOuts demoPay ! 0)) = Some ''pub''" "0 < outValue (txOuts demoPay ! 0)" "outValue (txOuts demoPay ! 0) = 500"
    "(txHash demoPay, int 0) \<notin> rowKey ` set (wtTxs demoW)" "wtIndex demoW ''pub'' = None" "decodeAddress demoLib ''pub''"
    by (simp_all add: demoPay_def outputAddress_def demoLib_def demoW_def)
  have room: "everything ?t u \<le> int64_max" "versionRoom (2 * length ?t) (wtCashier demoW)" for u
    by (simp_all add: everything_def total_def int64_max_def versionRoom_def demoW_def emptyDb_def)
  from registered_user_credited [OF reach demo_registers _ _ _ demoPolled_def ev _ _ _ demo_paid [symmetric] room refl] out
  show ?thesis by simp
qed

end
