(* ===== verification/RefStore.thy ===== *)
theory RefStore
  imports Prelude "HOL-Library.AList"
begin

text \<open>
  Reference data of the registry (\<open>registry/internal\<close>): teams, players, games and
  rosters in memory (\<open>refstore.go\<close>), their load from PostgreSQL (\<open>pgrefstore.go\<close>) and
  from a fixture file, the product rules (\<open>proprules.go\<close>) and the cache that is
  refreshed in the background (\<open>refcache.go\<close>).

  The protobuf enums are open, so their values are integers. A Go map is an
  association list whose order is the order the map happens to be ranged over in;
  what is proved of the results does not depend on it.
\<close>

section \<open>Enums\<close>

type_synonym League = int
type_synonym Position = int
type_synonym PropType = int

abbreviation (input) "League_LEAGUE_UNSPECIFIED \<equiv> (0 :: League)"
abbreviation (input) "League_MLB \<equiv> (1 :: League)"
abbreviation (input) "League_NFL \<equiv> (2 :: League)"
abbreviation (input) "League_EPL \<equiv> (3 :: League)"
abbreviation (input) "League_LA_LIGA \<equiv> (4 :: League)"
abbreviation (input) "League_MLS \<equiv> (5 :: League)"

abbreviation (input) "Position_MLB_PITCHER \<equiv> (1 :: Position)"
abbreviation (input) "Position_MLB_BATTER \<equiv> (2 :: Position)"
abbreviation (input) "Position_SOCCER_GOALKEEPER \<equiv> (10 :: Position)"
abbreviation (input) "Position_SOCCER_DEFENDER \<equiv> (11 :: Position)"
abbreviation (input) "Position_SOCCER_MIDFIELDER \<equiv> (12 :: Position)"
abbreviation (input) "Position_SOCCER_FORWARD \<equiv> (13 :: Position)"
abbreviation (input) "Position_NFL_QB \<equiv> (20 :: Position)"
abbreviation (input) "Position_NFL_RB \<equiv> (21 :: Position)"
abbreviation (input) "Position_NFL_WR \<equiv> (22 :: Position)"
abbreviation (input) "Position_NFL_TE \<equiv> (23 :: Position)"

abbreviation (input) "PropType_PROP_UNSPECIFIED \<equiv> (0 :: PropType)"
abbreviation (input) "PropType_HOMERUNS \<equiv> (1 :: PropType)"
abbreviation (input) "PropType_STRIKEOUTS \<equiv> (2 :: PropType)"
abbreviation (input) "PropType_HITS \<equiv> (3 :: PropType)"
abbreviation (input) "PropType_RBIS \<equiv> (4 :: PropType)"
abbreviation (input) "PropType_WALKS \<equiv> (5 :: PropType)"
abbreviation (input) "PropType_EARNED_RUNS \<equiv> (6 :: PropType)"
abbreviation (input) "PropType_GOALS \<equiv> (20 :: PropType)"
abbreviation (input) "PropType_ASSISTS \<equiv> (21 :: PropType)"
abbreviation (input) "PropType_SAVES \<equiv> (22 :: PropType)"
abbreviation (input) "PropType_YELLOW_CARDS \<equiv> (23 :: PropType)"
abbreviation (input) "PropType_PASSING_YARDS \<equiv> (40 :: PropType)"
abbreviation (input) "PropType_RUSHING_YARDS \<equiv> (41 :: PropType)"
abbreviation (input) "PropType_RECEIVING_YARDS \<equiv> (42 :: PropType)"
abbreviation (input) "PropType_TOUCHDOWNS \<equiv> (43 :: PropType)"
abbreviation (input) "PropType_INTERCEPTIONS \<equiv> (44 :: PropType)"

definition League_value :: "(string \<times> int) list" where
  "League_value = [(''LEAGUE_UNSPECIFIED'', 0), (''MLB'', 1), (''NFL'', 2), (''EPL'', 3), (''LA_LIGA'', 4), (''MLS'', 5)]"

definition Position_value :: "(string \<times> int) list" where
  "Position_value = [(''POSITION_UNSPECIFIED'', 0), (''MLB_PITCHER'', 1), (''MLB_BATTER'', 2), (''SOCCER_GOALKEEPER'', 10),
     (''SOCCER_DEFENDER'', 11), (''SOCCER_MIDFIELDER'', 12), (''SOCCER_FORWARD'', 13), (''NFL_QB'', 20), (''NFL_RB'', 21),
     (''NFL_WR'', 22), (''NFL_TE'', 23), (''NFL_DEF'', 24)]"

definition PropType_value :: "(string \<times> int) list" where
  "PropType_value = [(''PROP_UNSPECIFIED'', 0), (''HOMERUNS'', 1), (''STRIKEOUTS'', 2), (''HITS'', 3), (''RBIS'', 4),
     (''WALKS'', 5), (''EARNED_RUNS'', 6), (''GOALS'', 20), (''ASSISTS'', 21), (''SAVES'', 22), (''YELLOW_CARDS'', 23),
     (''PASSING_YARDS'', 40), (''RUSHING_YARDS'', 41), (''RECEIVING_YARDS'', 42), (''TOUCHDOWNS'', 43), (''INTERCEPTIONS'', 44)]"

section \<open>Messages and the store\<close>

record Team =
  tmId :: string
  tmName :: string
  tmShortName :: string
  tmLeague :: League

record Player =
  plId :: string
  plName :: string
  plTeamId :: string
  plPositions :: "Position list"

record Game =
  gmId :: string
  gmLeague :: League
  gmHomeTeamId :: string
  gmAwayTeamId :: string
  gmScheduledUnix :: int
  gmExpiryUnix :: int

type_synonym ruleKey = "League \<times> Position"

record refStore =
  rsTeams :: "(string \<times> Team) list"
  rsPlayers :: "(string \<times> Player) list"
  rsGames :: "(string \<times> Game) list"
  rsGameRoster :: "(string \<times> string list) list"
  rsPropRules :: "(ruleKey \<times> PropType list) list"

definition emptyRefStore :: refStore where
  "emptyRefStore = \<lparr>rsTeams = [], rsPlayers = [], rsGames = [], rsGameRoster = [], rsPropRules = []\<rparr>"

text \<open>Reading a missing key of a map of slices gives the nil slice.\<close>

definition slice :: "('k \<times> 'v list) list \<Rightarrow> 'k \<Rightarrow> 'v list" where
  "slice m k = (case map_of m k of None \<Rightarrow> [] | Some xs \<Rightarrow> xs)"

definition addToRoster :: "Player \<Rightarrow> (string \<times> string list) list \<Rightarrow> Game \<Rightarrow> (string \<times> string list) list" where
  "addToRoster p roster g =
     (if plTeamId p = gmHomeTeamId g \<or> plTeamId p = gmAwayTeamId g
      then AList.update (gmId g) (slice roster (gmId g) @ [plId p]) roster else roster)"

definition buildRoster :: "(string \<times> Player) list \<Rightarrow> (string \<times> Game) list \<Rightarrow> (string \<times> string list) list" where
  "buildRoster players games =
     foldl (\<lambda>roster p. foldl (addToRoster p) roster (map snd games)) [] (map snd players)"

section \<open>loadRefFromDB\<close>

record refTables =
  rtTeams :: "Team list"
  rtPlayers :: "Player list"
  rtGames :: "Game list"

text \<open>Each of the three queries may fail.\<close>

datatype refQuery = QTeams | QPlayers | QGames

definition loadRefFromDB :: "(refQuery \<Rightarrow> bool) \<Rightarrow> refTables \<Rightarrow> refStore option" where
  "loadRefFromDB failed t =
     (if failed QTeams \<or> failed QPlayers \<or> failed QGames then None
      else let teams = foldl (\<lambda>m r. AList.update (tmId r) r m) [] (rtTeams t);
               players = foldl (\<lambda>m r. AList.update (plId r) r m) [] (rtPlayers t);
               games = foldl (\<lambda>m r. AList.update (gmId r) r m) [] (rtGames t)
           in Some \<lparr>rsTeams = teams, rsPlayers = players, rsGames = games,
                    rsGameRoster = buildRoster players games, rsPropRules = []\<rparr>)"

section \<open>Lookups\<close>

definition getTeam :: "refStore \<Rightarrow> string \<Rightarrow> Team option" where
  "getTeam rs i = map_of (rsTeams rs) i"

definition getGame :: "refStore \<Rightarrow> string \<Rightarrow> Game option" where
  "getGame rs i = map_of (rsGames rs) i"

definition getPlayer :: "refStore \<Rightarrow> string \<Rightarrow> Player option" where
  "getPlayer rs i = map_of (rsPlayers rs) i"

definition listTeams :: "refStore \<Rightarrow> League \<Rightarrow> Team list" where
  "listTeams rs league = filter (\<lambda>t. league = League_LEAGUE_UNSPECIFIED \<or> tmLeague t = league) (map snd (rsTeams rs))"

fun listGamesLoop :: "League \<Rightarrow> int \<Rightarrow> int \<Rightarrow> Game list \<Rightarrow> Game list" where
  "listGamesLoop league fromUnix toUnix [] = []"
| "listGamesLoop league fromUnix toUnix (g # gs) =
     (if league \<noteq> League_LEAGUE_UNSPECIFIED \<and> gmLeague g \<noteq> league then listGamesLoop league fromUnix toUnix gs
      else if 0 < fromUnix \<and> gmScheduledUnix g < fromUnix then listGamesLoop league fromUnix toUnix gs
      else if 0 < toUnix \<and> toUnix < gmScheduledUnix g then listGamesLoop league fromUnix toUnix gs
      else g # listGamesLoop league fromUnix toUnix gs)"

definition listGames :: "refStore \<Rightarrow> League \<Rightarrow> int \<Rightarrow> int \<Rightarrow> Game list" where
  "listGames rs league fromUnix toUnix = listGamesLoop league fromUnix toUnix (map snd (rsGames rs))"

definition listPlayersByGame :: "refStore \<Rightarrow> string \<Rightarrow> Player list" where
  "listPlayersByGame rs gameID = List.map_filter (getPlayer rs) (slice (rsGameRoster rs) gameID)"

definition playerInGame :: "refStore \<Rightarrow> string \<Rightarrow> string \<Rightarrow> bool" where
  "playerInGame rs playerID gameID = (playerID \<in> set (slice (rsGameRoster rs) gameID))"

definition allowedPropTypes :: "refStore \<Rightarrow> League \<Rightarrow> Position \<Rightarrow> PropType list" where
  "allowedPropTypes rs league position = slice (rsPropRules rs) (league, position)"

section \<open>Product rules\<close>

definition soccerOutfield :: "PropType list" where
  "soccerOutfield = [PropType_GOALS, PropType_ASSISTS, PropType_YELLOW_CARDS]"

definition soccerGK :: "PropType list" where
  "soccerGK = [PropType_GOALS, PropType_ASSISTS, PropType_SAVES, PropType_YELLOW_CARDS]"

definition soccerRules :: "League \<Rightarrow> (ruleKey \<times> PropType list) list" where
  "soccerRules league = [((league, Position_SOCCER_FORWARD), soccerOutfield), ((league, Position_SOCCER_MIDFIELDER), soccerOutfield),
     ((league, Position_SOCCER_DEFENDER), soccerOutfield), ((league, Position_SOCCER_GOALKEEPER), soccerGK)]"

definition defaultPropRules :: "(ruleKey \<times> PropType list) list" where
  "defaultPropRules =
     [((League_MLB, Position_MLB_BATTER), [PropType_HOMERUNS, PropType_HITS, PropType_RBIS, PropType_WALKS]),
      ((League_MLB, Position_MLB_PITCHER), [PropType_STRIKEOUTS, PropType_EARNED_RUNS, PropType_WALKS])] @
     concat (map soccerRules [League_EPL, League_LA_LIGA, League_MLS]) @
     [((League_NFL, Position_NFL_QB), [PropType_PASSING_YARDS, PropType_TOUCHDOWNS, PropType_INTERCEPTIONS]),
      ((League_NFL, Position_NFL_RB), [PropType_RUSHING_YARDS, PropType_TOUCHDOWNS, PropType_RECEIVING_YARDS]),
      ((League_NFL, Position_NFL_WR), [PropType_RECEIVING_YARDS, PropType_TOUCHDOWNS]),
      ((League_NFL, Position_NFL_TE), [PropType_RECEIVING_YARDS, PropType_TOUCHDOWNS])]"

section \<open>RefCache\<close>

record RefCache =
  rcSnapshot :: "refStore option"

definition newRefCache :: RefCache where
  "newRefCache = \<lparr>rcSnapshot = None\<rparr>"

definition refresh :: "(refQuery \<Rightarrow> bool) \<Rightarrow> refTables \<Rightarrow> RefCache \<Rightarrow> RefCache" where
  "refresh failed t c = (case loadRefFromDB failed t of
     None \<Rightarrow> c
   | Some rs \<Rightarrow> c\<lparr>rcSnapshot := Some (rs\<lparr>rsPropRules := defaultPropRules\<rparr>)\<rparr>)"

text \<open>\<open>Start\<close> refreshes once and then on every tick until it is stopped; each load sees the tables and the
  failures of its time.\<close>

definition refStart :: "((refQuery \<Rightarrow> bool) \<times> refTables) list \<Rightarrow> RefCache \<Rightarrow> RefCache" where
  "refStart loads c = foldl (\<lambda>c (failed, t). refresh failed t c) c loads"

definition refGet :: "RefCache \<Rightarrow> refStore" where
  "refGet c = (case rcSnapshot c of
     None \<Rightarrow> emptyRefStore\<lparr>rsPropRules := defaultPropRules\<rparr>
   | Some rs \<Rightarrow> rs)"

section \<open>Fixtures\<close>

text \<open>The JSON file after decoding.\<close>

record fixTeam =
  ftID :: string
  ftName :: string
  ftShortName :: string
  ftLeague :: string

record fixPlayer =
  fpID :: string
  fpName :: string
  fpTeamID :: string
  fpPositions :: "string list"

record fixGame =
  fgID :: string
  fgLeague :: string
  fgHomeTeamID :: string
  fgAwayTeamID :: string
  fgScheduledUnix :: int
  fgExpiryUnix :: int

record fixRule =
  frLeague :: string
  frPosition :: string
  frAllowed :: "string list"

record fixtureFile =
  ffTeams :: "fixTeam list"
  ffPlayers :: "fixPlayer list"
  ffGames :: "fixGame list"
  ffRules :: "fixRule list"

definition parseEnum :: "(string \<times> int) list \<Rightarrow> string \<Rightarrow> int option" where
  "parseEnum values s = (case map_of values s of None \<Rightarrow> None | Some v \<Rightarrow> if v = 0 then None else Some v)"

definition parseLeague :: "string \<Rightarrow> League option" where
  "parseLeague = parseEnum League_value"

definition parsePosition :: "string \<Rightarrow> Position option" where
  "parsePosition = parseEnum Position_value"

definition parsePropType :: "string \<Rightarrow> PropType option" where
  "parsePropType = parseEnum PropType_value"

fun fixTeams :: "fixTeam list \<Rightarrow> (string \<times> Team) list \<Rightarrow> (string \<times> Team) list option" where
  "fixTeams [] m = Some m"
| "fixTeams (t # ts) m = do {
     league \<leftarrow> parseLeague (ftLeague t);
     fixTeams ts (AList.update (ftID t) \<lparr>tmId = ftID t, tmName = ftName t, tmShortName = ftShortName t, tmLeague = league\<rparr> m)
   }"

fun parseAll :: "(string \<Rightarrow> int option) \<Rightarrow> string list \<Rightarrow> int list option" where
  "parseAll parse [] = Some []"
| "parseAll parse (x # xs) = do { y \<leftarrow> parse x; ys \<leftarrow> parseAll parse xs; Some (y # ys) }"

fun fixPlayers :: "fixPlayer list \<Rightarrow> (string \<times> Player) list \<Rightarrow> (string \<times> Player) list option" where
  "fixPlayers [] m = Some m"
| "fixPlayers (p # ps) m = do {
     positions \<leftarrow> parseAll parsePosition (fpPositions p);
     fixPlayers ps (AList.update (fpID p) \<lparr>plId = fpID p, plName = fpName p, plTeamId = fpTeamID p, plPositions = positions\<rparr> m)
   }"

fun fixGames :: "fixGame list \<Rightarrow> (string \<times> Game) list \<Rightarrow> (string \<times> Game) list option" where
  "fixGames [] m = Some m"
| "fixGames (g # gs) m = do {
     league \<leftarrow> parseLeague (fgLeague g);
     fixGames gs (AList.update (fgID g) \<lparr>gmId = fgID g, gmLeague = league, gmHomeTeamId = fgHomeTeamID g,
       gmAwayTeamId = fgAwayTeamID g, gmScheduledUnix = fgScheduledUnix g, gmExpiryUnix = fgExpiryUnix g\<rparr> m)
   }"

fun fixRules :: "fixRule list \<Rightarrow> (ruleKey \<times> PropType list) list \<Rightarrow> (ruleKey \<times> PropType list) list option" where
  "fixRules [] m = Some m"
| "fixRules (r # rs) m = do {
     league \<leftarrow> parseLeague (frLeague r);
     position \<leftarrow> parsePosition (frPosition r);
     props \<leftarrow> parseAll parsePropType (frAllowed r);
     fixRules rs (AList.update (league, position) props m)
   }"

definition loadFixture :: "fixtureFile option \<Rightarrow> refStore option" where
  "loadFixture parsed = do {
     f \<leftarrow> parsed;
     teams \<leftarrow> fixTeams (ffTeams f) [];
     players \<leftarrow> fixPlayers (ffPlayers f) [];
     games \<leftarrow> fixGames (ffGames f) [];
     rules \<leftarrow> fixRules (ffRules f) [];
     Some \<lparr>rsTeams = teams, rsPlayers = players, rsGames = games, rsGameRoster = buildRoster players games, rsPropRules = rules\<rparr>
   }"

end
