(* ===== verification/Sha256.thy ===== *)
theory Sha256
  imports Prelude
begin

text \<open>
  SHA-256 (FIPS 180-4), as the Go package \<open>crypto/sha256\<close> computes it, and
  \<open>hex.EncodeToString\<close> of its digest. What the users of the hash rely on is proved
  here: the text has 64 characters. No collision resistance is assumed anywhere;
  theorems that need it name the colliding inputs.
\<close>

text \<open>The round constants: the first 32 bits of the fractional parts of the cube roots of the first 64 primes, in decimal.\<close>

definition sha256K :: "uint32 list" where
  "sha256K = [
    1116352408, 1899447441, 3049323471, 3921009573, 961987163, 1508970993,
    2453635748, 2870763221, 3624381080, 310598401, 607225278, 1426881987,
    1925078388, 2162078206, 2614888103, 3248222580, 3835390401, 4022224774,
    264347078, 604807628, 770255983, 1249150122, 1555081692, 1996064986,
    2554220882, 2821834349, 2952996808, 3210313671, 3336571891, 3584528711,
    113926993, 338241895, 666307205, 773529912, 1294757372, 1396182291,
    1695183700, 1986661051, 2177026350, 2456956037, 2730485921, 2820302411,
    3259730800, 3345764771, 3516065817, 3600352804, 4094571909, 275423344,
    430227734, 506948616, 659060556, 883997877, 958139571, 1322822218,
    1537002063, 1747873779, 1955562222, 2024104815, 2227730452, 2361852424,
    2428436474, 2756734187, 3204031479, 3329325298]"

record shaState =
  shA :: uint32
  shB :: uint32
  shC :: uint32
  shD :: uint32
  shE :: uint32
  shF :: uint32
  shG :: uint32
  shH :: uint32

definition shaInit :: shaState where
  "shaInit = \<lparr>shA = 0x6a09e667, shB = 0xbb67ae85, shC = 0x3c6ef372, shD = 0xa54ff53a,
     shE = 0x510e527f, shF = 0x9b05688c, shG = 0x1f83d9ab, shH = 0x5be0cd19\<rparr>"

unbundle bit_operations_syntax

definition shaCh :: "uint32 \<Rightarrow> uint32 \<Rightarrow> uint32 \<Rightarrow> uint32" where
  "shaCh x y z = (x AND y) XOR (NOT x AND z)"

definition shaMaj :: "uint32 \<Rightarrow> uint32 \<Rightarrow> uint32 \<Rightarrow> uint32" where
  "shaMaj x y z = (x AND y) XOR (x AND z) XOR (y AND z)"

definition shaBig0 :: "uint32 \<Rightarrow> uint32" where
  "shaBig0 x = word_rotr 2 x XOR word_rotr 13 x XOR word_rotr 22 x"

definition shaBig1 :: "uint32 \<Rightarrow> uint32" where
  "shaBig1 x = word_rotr 6 x XOR word_rotr 11 x XOR word_rotr 25 x"

definition shaSmall0 :: "uint32 \<Rightarrow> uint32" where
  "shaSmall0 x = word_rotr 7 x XOR word_rotr 18 x XOR drop_bit 3 x"

definition shaSmall1 :: "uint32 \<Rightarrow> uint32" where
  "shaSmall1 x = word_rotr 17 x XOR word_rotr 19 x XOR drop_bit 10 x"

text \<open>Bytes are characters; numbers are big-endian.\<close>

definition beBytes :: "nat \<Rightarrow> nat \<Rightarrow> string" where
  "beBytes n x = map (\<lambda>i. char_of (x div 256 ^ (n - 1 - i) mod 256)) [0..<n]"

definition beValue :: "string \<Rightarrow> nat" where
  "beValue s = foldl (\<lambda>x c. 256 * x + of_char c) 0 s"

definition shaPad :: "string \<Rightarrow> string" where
  "shaPad msg = msg @ [char_of (128 :: nat)] @
     replicate ((119 - length msg mod 64) mod 64) (char_of (0 :: nat)) @ beBytes 8 (8 * length msg mod 2 ^ 64)"

fun chunks :: "nat \<Rightarrow> string \<Rightarrow> string list" where
  "chunks n s = (if s = [] \<or> n = 0 then [] else take n s # chunks n (drop n s))"

declare chunks.simps [simp del]

fun shaExtend :: "nat \<Rightarrow> uint32 list \<Rightarrow> uint32 list" where
  "shaExtend 0 w = w"
| "shaExtend (Suc k) w = (let t = length w in
     shaExtend k (w @ [shaSmall1 (w ! (t - 2)) + w ! (t - 7) + shaSmall0 (w ! (t - 15)) + w ! (t - 16)]))"

definition shaRound :: "uint32 \<times> uint32 \<Rightarrow> shaState \<Rightarrow> shaState" where
  "shaRound kw s = (let (k, w) = kw;
       t1 = shH s + shaBig1 (shE s) + shaCh (shE s) (shF s) (shG s) + k + w;
       t2 = shaBig0 (shA s) + shaMaj (shA s) (shB s) (shC s)
     in \<lparr>shA = t1 + t2, shB = shA s, shC = shB s, shD = shC s,
         shE = shD s + t1, shF = shE s, shG = shF s, shH = shG s\<rparr>)"

definition shaBlock :: "string \<Rightarrow> shaState \<Rightarrow> shaState" where
  "shaBlock block s =
     (let w = shaExtend 48 (map (\<lambda>c. of_nat (beValue c)) (chunks 4 block));
          r = fold shaRound (zip sha256K w) s
      in \<lparr>shA = shA s + shA r, shB = shB s + shB r, shC = shC s + shC r, shD = shD s + shD r,
          shE = shE s + shE r, shF = shF s + shF r, shG = shG s + shG r, shH = shH s + shH r\<rparr>)"

definition shaWords :: "shaState \<Rightarrow> uint32 list" where
  "shaWords s = [shA s, shB s, shC s, shD s, shE s, shF s, shG s, shH s]"

definition sha256 :: "string \<Rightarrow> string" where
  "sha256 msg = concat (map (\<lambda>w. beBytes 4 (unat w)) (shaWords (fold shaBlock (chunks 64 (shaPad msg)) shaInit)))"

definition hexDigit :: "nat \<Rightarrow> char" where
  "hexDigit d = ''0123456789abcdef'' ! d"

definition hexEncode :: "string \<Rightarrow> string" where
  "hexEncode s = concat (map (\<lambda>c. [hexDigit (of_char c div 16), hexDigit (of_char c mod 16)]) s)"

definition sha256hex :: "string \<Rightarrow> string" where
  "sha256hex msg = hexEncode (sha256 msg)"

lemma length_beBytes [simp]: "length (beBytes n x) = n"
  by (simp add: beBytes_def)

lemma length_sha256 [simp]: "length (sha256 msg) = 32"
  by (simp add: sha256_def shaWords_def)

lemma length_hexEncode [simp]: "length (hexEncode s) = 2 * length s"
  by (induction s) (simp_all add: hexEncode_def)

lemma length_sha256hex [simp]: "length (sha256hex msg) = 64"
  by (simp add: sha256hex_def)

end
