(* ===== verification/Registry.thy ===== *)
theory Registry
  imports RefStore Sha256 "HOL-Library.List_Lexorder" "HOL-Library.Char_ord"
begin

text \<open>
  Instruments of the registry: the identity hash (\<open>registry/internal/hash.go\<close>), the three
  validation phases (\<open>validate.go\<close>) and the rows a leg is stored as (\<open>collectLegs\<close> of
  \<open>instrstore.go\<close>). The protobuf encoding of a leg is a parameter: \<open>marshal\<close> gives the
  deterministic encoding, \<^const>\<open>None\<close> its error. The texts of error messages are not
  modelled, their reasons and leg numbers are.
\<close>

section \<open>Legs\<close>

abbreviation (input) "Comparator_CMP_UNSPECIFIED \<equiv> (0 :: int)"
abbreviation (input) "Comparator_GT \<equiv> (1 :: int)"
abbreviation (input) "Comparator_GTE \<equiv> (2 :: int)"
abbreviation (input) "Comparator_LT \<equiv> (3 :: int)"
abbreviation (input) "Comparator_LTE \<equiv> (4 :: int)"
abbreviation (input) "Comparator_EQ \<equiv> (5 :: int)"

abbreviation (input) "Outcome_OUTCOME_UNSPECIFIED \<equiv> (0 :: int)"
abbreviation (input) "Outcome_DRAW \<equiv> (3 :: int)"

record PlayerProp =
  ppPlayerId :: string
  ppPropType :: PropType
  ppComparator :: int
  ppThreshold :: int

datatype Predicate = GameOutcome int | LegPlayerProp PlayerProp | PredicateNil

record Leg =
  lgGameId :: string
  lgPredicate :: Predicate

type_synonym marshaller = "Leg \<Rightarrow> string option"

section \<open>Hashes\<close>

definition LegHash :: "marshaller \<Rightarrow> Leg \<Rightarrow> string option" where
  "LegHash marshal leg = map_option sha256hex (marshal leg)"

fun legHashes :: "marshaller \<Rightarrow> Leg list \<Rightarrow> string list option" where
  "legHashes marshal [] = Some []"
| "legHashes marshal (leg # legs) = do {
     h \<leftarrow> map_option sha256hex (marshal leg);
     hs \<leftarrow> legHashes marshal legs;
     Some (h # hs)
   }"

definition HashLegs :: "marshaller \<Rightarrow> Leg list \<Rightarrow> string option" where
  "HashLegs marshal legs = do {
     hashes \<leftarrow> legHashes marshal legs;
     Some (sha256hex (concat (sort hashes)))
   }"

definition MaxExpiry :: "Leg list \<Rightarrow> (string \<times> int) list \<Rightarrow> int" where
  "MaxExpiry legs gameExpiries =
     foldl (\<lambda>m leg. let e = (case map_of gameExpiries (lgGameId leg) of None \<Rightarrow> 0 | Some e \<Rightarrow> e) in if m < e then e else m) 0 legs"

section \<open>Phase 1\<close>

datatype legReason =
    GameIdRequired | OutcomeUnspecified | PlayerIdRequired | PropTypeUnspecified | ComparatorUnspecified
  | ThresholdNegative | GteZero | LtZero | PredicateRequired
  | DuplicateLeg | ContradictingOutcome | GameNotFound | DrawNotAllowed | PlayerNotFound | PlayerNotInGame | PropNotAllowed

datatype valErr = NoLegs | BadLeg nat legReason | ContradictingProps | HashLegError

definition structuralLeg :: "Leg \<Rightarrow> legReason option" where
  "structuralLeg leg =
     (if lgGameId leg = [] then Some GameIdRequired
      else case lgPredicate leg of
        GameOutcome outcome \<Rightarrow> if outcome = Outcome_OUTCOME_UNSPECIFIED then Some OutcomeUnspecified else None
      | LegPlayerProp pp \<Rightarrow>
          if ppPlayerId pp = [] then Some PlayerIdRequired
          else if ppPropType pp = PropType_PROP_UNSPECIFIED then Some PropTypeUnspecified
          else if ppComparator pp = Comparator_CMP_UNSPECIFIED then Some ComparatorUnspecified
          else if ppThreshold pp < 0 then Some ThresholdNegative
          else if ppComparator pp = Comparator_GTE \<and> ppThreshold pp = 0 then Some GteZero
          else if ppComparator pp = Comparator_LT \<and> ppThreshold pp = 0 then Some LtZero
          else None
      | PredicateNil \<Rightarrow> Some PredicateRequired)"

fun structuralLegs :: "nat \<Rightarrow> Leg list \<Rightarrow> valErr option" where
  "structuralLegs i [] = None"
| "structuralLegs i (leg # legs) = (case structuralLeg leg of
     Some r \<Rightarrow> Some (BadLeg i r)
   | None \<Rightarrow> structuralLegs (i + 1) legs)"

definition validateStructural :: "Leg list \<Rightarrow> valErr option" where
  "validateStructural legs = (if legs = [] then Some NoLegs else structuralLegs 0 legs)"

section \<open>Phase 2\<close>

definition contradicts :: "PlayerProp \<Rightarrow> PlayerProp \<Rightarrow> bool" where
  "contradicts a b \<longleftrightarrow>
     (ppComparator a = Comparator_GT \<and> ppComparator b = Comparator_LTE \<and> ppThreshold a = ppThreshold b) \<or>
     (ppComparator a = Comparator_LTE \<and> ppComparator b = Comparator_GT \<and> ppThreshold a = ppThreshold b) \<or>
     (ppComparator a = Comparator_GTE \<and> ppComparator b = Comparator_LT \<and> ppThreshold a = ppThreshold b) \<or>
     (ppComparator a = Comparator_LT \<and> ppComparator b = Comparator_GTE \<and> ppThreshold a = ppThreshold b) \<or>
     (ppComparator a = Comparator_EQ \<and> ppComparator b = Comparator_EQ \<and> ppThreshold a \<noteq> ppThreshold b)"

fun checkPropContradiction :: "PlayerProp list \<Rightarrow> bool" where
  "checkPropContradiction [] = False"
| "checkPropContradiction (a # bs) = (list_ex (contradicts a) bs \<or> checkPropContradiction bs)"

type_synonym propKey = "string \<times> string \<times> PropType"

fun crossLegs :: "marshaller \<Rightarrow> nat \<Rightarrow> Leg list \<Rightarrow> string list \<Rightarrow> string list \<Rightarrow> (propKey \<times> PlayerProp list) list \<Rightarrow>
    valErr + (propKey \<times> PlayerProp list) list" where
  "crossLegs marshal i [] seen games props = Inr props"
| "crossLegs marshal i (leg # legs) seen games props = (case LegHash marshal leg of
     None \<Rightarrow> Inl HashLegError
   | Some h \<Rightarrow>
       if h \<in> set seen then Inl (BadLeg i DuplicateLeg)
       else (case lgPredicate leg of
           GameOutcome outcome \<Rightarrow>
             if lgGameId leg \<in> set games then Inl (BadLeg i ContradictingOutcome)
             else crossLegs marshal (i + 1) legs (h # seen) (lgGameId leg # games) props
         | LegPlayerProp pp \<Rightarrow>
             let key = (lgGameId leg, ppPlayerId pp, ppPropType pp)
             in crossLegs marshal (i + 1) legs (h # seen) games (AList.update key (slice props key @ [pp]) props)
         | PredicateNil \<Rightarrow> crossLegs marshal (i + 1) legs (h # seen) games props))"

definition validateCrossLeg :: "marshaller \<Rightarrow> Leg list \<Rightarrow> valErr option" where
  "validateCrossLeg marshal legs = (case crossLegs marshal 0 legs [] [] [] of
     Inl e \<Rightarrow> Some e
   | Inr props \<Rightarrow>
       if list_ex (\<lambda>(key, pps). 2 \<le> length pps \<and> checkPropContradiction pps) props then Some ContradictingProps else None)"

section \<open>Phase 3\<close>

definition soccerLeagues :: "League list" where
  "soccerLeagues = [League_EPL, League_LA_LIGA, League_MLS]"

definition propAllowedForPlayer :: "PropType \<Rightarrow> Player \<Rightarrow> League \<Rightarrow> refStore \<Rightarrow> bool" where
  "propAllowedForPlayer pt player league rs =
     list_ex (\<lambda>pos. list_ex (\<lambda>allowed. allowed = pt) (allowedPropTypes rs league pos)) (plPositions player)"

definition entityLeg :: "refStore \<Rightarrow> Leg \<Rightarrow> Game \<Rightarrow> legReason option" where
  "entityLeg rs leg game = (case lgPredicate leg of
     GameOutcome outcome \<Rightarrow>
       if outcome = Outcome_DRAW \<and> gmLeague game \<notin> set soccerLeagues then Some DrawNotAllowed else None
   | LegPlayerProp pp \<Rightarrow> (case getPlayer rs (ppPlayerId pp) of
       None \<Rightarrow> Some PlayerNotFound
     | Some player \<Rightarrow>
         if \<not> playerInGame rs (ppPlayerId pp) (lgGameId leg) then Some PlayerNotInGame
         else if \<not> propAllowedForPlayer (ppPropType pp) player (gmLeague game) rs then Some PropNotAllowed
         else None)
   | PredicateNil \<Rightarrow> None)"

fun entityLegs :: "refStore \<Rightarrow> nat \<Rightarrow> Leg list \<Rightarrow> (string \<times> int) list \<Rightarrow> valErr + (string \<times> int) list" where
  "entityLegs rs i [] expiries = Inr expiries"
| "entityLegs rs i (leg # legs) expiries = (case getGame rs (lgGameId leg) of
     None \<Rightarrow> Inl (BadLeg i GameNotFound)
   | Some game \<Rightarrow> (case entityLeg rs leg game of
       Some r \<Rightarrow> Inl (BadLeg i r)
     | None \<Rightarrow> entityLegs rs (i + 1) legs (AList.update (lgGameId leg) (gmExpiryUnix game) expiries)))"

definition validateEntities :: "Leg list \<Rightarrow> refStore \<Rightarrow> valErr + (string \<times> int) list" where
  "validateEntities legs rs = entityLegs rs 0 legs []"

section \<open>Rows\<close>

record LegRow =
  lwLegHash :: string
  lwGameID :: string
  lwLeague :: int
  lwEntities :: "string list"
  lwOutcome :: "int option"
  lwPlayerID :: "string option"
  lwPropType :: "int option"
  lwComparator :: "int option"
  lwThreshold :: "int option"
  lwExpiryUnix :: int

datatype collectResult = CollectPanic | CollectError | Collected "LegRow list"

text \<open>A game or player missing from the reference data is a nil pointer: using it panics.\<close>

fun collectLegs :: "marshaller \<Rightarrow> Leg list \<Rightarrow> refStore \<Rightarrow> LegRow list \<Rightarrow> collectResult" where
  "collectLegs marshal [] rs rows = Collected rows"
| "collectLegs marshal (leg # legs) rs rows = (case LegHash marshal leg of
     None \<Rightarrow> CollectError
   | Some h \<Rightarrow> (case getGame rs (lgGameId leg) of
       None \<Rightarrow> CollectPanic
     | Some game \<Rightarrow>
         let row = \<lparr>lwLegHash = h, lwGameID = lgGameId leg, lwLeague = gmLeague game,
               lwEntities = [lgGameId leg, gmHomeTeamId game, gmAwayTeamId game],
               lwOutcome = None, lwPlayerID = None, lwPropType = None, lwComparator = None, lwThreshold = None,
               lwExpiryUnix = gmExpiryUnix game\<rparr>
         in (case lgPredicate leg of
             GameOutcome outcome \<Rightarrow> collectLegs marshal legs rs (rows @ [row\<lparr>lwOutcome := Some outcome\<rparr>])
           | LegPlayerProp pp \<Rightarrow> (case getPlayer rs (ppPlayerId pp) of
               None \<Rightarrow> CollectPanic
             | Some player \<Rightarrow> collectLegs marshal legs rs (rows @ [row\<lparr>lwPlayerID := Some (ppPlayerId pp),
                 lwPropType := Some (ppPropType pp), lwComparator := Some (ppComparator pp),
                 lwThreshold := Some (ppThreshold pp),
                 lwEntities := lwEntities row @ [ppPlayerId pp, plTeamId player]\<rparr>]))
           | PredicateNil \<Rightarrow> collectLegs marshal legs rs (rows @ [row]))))"

end
