(* ===== verification/RegistryStore.thy ===== *)
theory RegistryStore
  imports Registry
begin

text \<open>
  The instrument store on PostgreSQL (\<open>registry/internal/postgres.go\<close>: \<open>Create\<close> and \<open>Get\<close>) over
  the tables \<open>instruments\<close>, \<open>instrument_legs\<close> and \<open>instrument_leg_entities\<close>, and the registry
  service (\<open>service.go\<close>). Every statement can fail and a commit can be lost or
  ambiguous. \<open>Create\<close> is split at the point where another transaction can commit
  between its existence check and its inserts. Expiries are seconds, creation times
  microseconds.
\<close>

section \<open>Tables\<close>

record instrumentRow =
  inId :: string
  inExpiry :: int
  inCreatedAt :: int

record legDbRow =
  ldId :: nat
  ldInstrument :: string
  ldLeg :: LegRow

record entityRow =
  enLeg :: nat
  enInstrument :: string
  enEntity :: string

text \<open>The games and players are the targets of foreign keys; \<open>rdNextLeg\<close> is the sequence of leg numbers.\<close>

record regDb =
  rdInstruments :: "instrumentRow list"
  rdLegs :: "legDbRow list"
  rdLegEntities :: "entityRow list"
  rdNextLeg :: nat
  rdGames :: "string set"
  rdPlayers :: "string set"

datatype regStmt = RsBegin | RsSelect | RsInsert | RsLeg nat | RsEntity nat string | RsQuery | RsList

datatype regCommit = RegCommitted | RegNotCommitted | RegCommitUnknown

record regFaults =
  rfFails :: "regStmt \<Rightarrow> bool"
  rfCommit :: regCommit

definition regCalm :: regFaults where
  "regCalm = \<lparr>rfFails = (\<lambda>_. False), rfCommit = RegCommitted\<rparr>"

datatype storeErr = StoreFailure | StoreNotFound

section \<open>Create\<close>

definition createCheck :: "regFaults \<Rightarrow> regDb \<Rightarrow> string \<Rightarrow> storeErr + bool" where
  "createCheck f d i =
     (if rfFails f RsBegin \<or> rfFails f RsSelect then Inl StoreFailure
      else Inr (list_ex (\<lambda>r. inId r = i) (rdInstruments d)))"

fun insertEntities :: "regFaults \<Rightarrow> nat \<Rightarrow> string \<Rightarrow> string list \<Rightarrow> regDb \<Rightarrow> regDb option" where
  "insertEntities f legID i [] d = Some d"
| "insertEntities f legID i (x # xs) d =
     (if rfFails f (RsEntity legID x) then None
      else insertEntities f legID i xs
        (if list_ex (\<lambda>r. enLeg r = legID \<and> enEntity r = x) (rdLegEntities d) then d
         else d\<lparr>rdLegEntities := rdLegEntities d @ [\<lparr>enLeg = legID, enInstrument = i, enEntity = x\<rparr>]\<rparr>))"

definition insertLeg :: "regFaults \<Rightarrow> string \<Rightarrow> LegRow \<Rightarrow> regDb \<Rightarrow> (regDb \<times> nat) option" where
  "insertLeg f i leg d =
     (if rfFails f (RsLeg (rdNextLeg d)) then None
      else if lwGameID leg \<notin> rdGames d then None
      else if (case lwPlayerID leg of None \<Rightarrow> False | Some p \<Rightarrow> p \<notin> rdPlayers d) then None
      else if list_ex (\<lambda>r. ldInstrument r = i \<and> lwLegHash (ldLeg r) = lwLegHash leg) (rdLegs d) then None
      else Some (d\<lparr>rdLegs := rdLegs d @ [\<lparr>ldId = rdNextLeg d, ldInstrument = i, ldLeg = leg\<rparr>], rdNextLeg := rdNextLeg d + 1\<rparr>,
                 rdNextLeg d))"

fun insertLegs :: "regFaults \<Rightarrow> string \<Rightarrow> LegRow list \<Rightarrow> regDb \<Rightarrow> regDb option" where
  "insertLegs f i [] d = Some d"
| "insertLegs f i (leg # legs) d = do {
     (d1, legID) \<leftarrow> insertLeg f i leg d;
     d2 \<leftarrow> insertEntities f legID i (lwEntities leg) d1;
     insertLegs f i legs d2
   }"

definition createInsert :: "regFaults \<Rightarrow> int \<Rightarrow> regDb \<Rightarrow> string \<Rightarrow> int \<Rightarrow> LegRow list \<Rightarrow> regDb \<times> (storeErr + bool)" where
  "createInsert f now d i expiry legs =
     (if rfFails f RsInsert \<or> list_ex (\<lambda>r. inId r = i) (rdInstruments d) then (d, Inl StoreFailure)
      else case insertLegs f i legs
          (d\<lparr>rdInstruments := rdInstruments d @ [\<lparr>inId = i, inExpiry = expiry, inCreatedAt = now\<rparr>]\<rparr>) of
        None \<Rightarrow> (d, Inl StoreFailure)
      | Some d' \<Rightarrow> (case rfCommit f of
          RegCommitted \<Rightarrow> (d', Inr False)
        | RegNotCommitted \<Rightarrow> (d, Inl StoreFailure)
        | RegCommitUnknown \<Rightarrow> (d', Inl StoreFailure)))"

definition pgCreate :: "regFaults \<Rightarrow> int \<Rightarrow> regDb \<Rightarrow> string \<Rightarrow> int \<Rightarrow> LegRow list \<Rightarrow> regDb \<times> (storeErr + bool)" where
  "pgCreate f now d i expiry legs = (case createCheck f d i of
     Inl e \<Rightarrow> (d, Inl e)
   | Inr True \<Rightarrow> (d, Inr True)
   | Inr False \<Rightarrow> createInsert f now d i expiry legs)"

section \<open>Get\<close>

record InstrumentRecord =
  irID :: string
  irLegs :: "Leg list"
  irExpiryUnix :: int

definition legOfRow :: "LegRow \<Rightarrow> Leg" where
  "legOfRow row = \<lparr>lgGameId = lwGameID row, lgPredicate = (case lwOutcome row of
     Some outcome \<Rightarrow> GameOutcome outcome
   | None \<Rightarrow> (case (lwPlayerID row, lwPropType row, lwComparator row, lwThreshold row) of
       (Some p, Some pt, Some c, Some t) \<Rightarrow>
         LegPlayerProp \<lparr>ppPlayerId = p, ppPropType = pt, ppComparator = c, ppThreshold = t\<rparr>
     | _ \<Rightarrow> PredicateNil))\<rparr>"

text \<open>The join has one row per leg of the instrument, in an order the database chooses.\<close>

definition joinLegs :: "nat list \<Rightarrow> regDb \<Rightarrow> string \<Rightarrow> (LegRow \<times> int) list" where
  "joinLegs order d i =
     concat (map (\<lambda>inst. map (\<lambda>r. (ldLeg r, inExpiry inst)) (filter (\<lambda>r. ldInstrument r = inId inst) (orderBy ldId order (rdLegs d))))
       (filter (\<lambda>inst. inId inst = i) (rdInstruments d)))"

definition pgGet :: "regFaults \<Rightarrow> nat list \<Rightarrow> regDb \<Rightarrow> string \<Rightarrow> storeErr + InstrumentRecord" where
  "pgGet f order d i =
     (if rfFails f RsQuery then Inl StoreFailure
      else let rows = joinLegs order d i in
        if rows = [] then Inl StoreNotFound
        else Inr \<lparr>irID = i, irLegs = map (\<lambda>(leg, expiry). legOfRow leg) rows, irExpiryUnix = snd (last rows)\<rparr>)"

section \<open>RegistryService\<close>

datatype regErr = RgInvalidArgument valErr | RgUnknown | RgInternal | RgNotFound

record CreateInstrumentResponse =
  cirInstrumentId :: string
  cirExpiryUnix :: int
  cirAlreadyExisted :: bool

text \<open>A validation error carries InvalidArgument, except that of a failed encoding, which has no status.\<close>

definition valStatus :: "valErr \<Rightarrow> regErr" where
  "valStatus e = (case e of HashLegError \<Rightarrow> RgUnknown | _ \<Rightarrow> RgInvalidArgument e)"

definition CreateInstrument :: "marshaller \<Rightarrow> regFaults \<Rightarrow> int \<Rightarrow> RefCache \<Rightarrow> regDb \<Rightarrow> Leg list \<Rightarrow>
    (regDb \<times> (regErr + CreateInstrumentResponse)) option" where
  "CreateInstrument marshal f now cache d legs = (case validateStructural legs of
     Some e \<Rightarrow> Some (d, Inl (valStatus e))
   | None \<Rightarrow> (case validateCrossLeg marshal legs of
     Some e \<Rightarrow> Some (d, Inl (valStatus e))
   | None \<Rightarrow> let ref = refGet cache in (case validateEntities legs ref of
     Inl e \<Rightarrow> Some (d, Inl (valStatus e))
   | Inr gameExpiries \<Rightarrow> (case HashLegs marshal legs of
     None \<Rightarrow> Some (d, Inl RgInternal)
   | Some i \<Rightarrow> let expiryUnix = MaxExpiry legs gameExpiries in (case collectLegs marshal legs ref [] of
     CollectPanic \<Rightarrow> None
   | CollectError \<Rightarrow> Some (d, Inl RgInternal)
   | Collected rows \<Rightarrow> (case pgCreate f now d i expiryUnix rows of
       (d', Inl _) \<Rightarrow> Some (d', Inl RgInternal)
     | (d', Inr alreadyExisted) \<Rightarrow>
         Some (d', Inr \<lparr>cirInstrumentId = i, cirExpiryUnix = expiryUnix, cirAlreadyExisted = alreadyExisted\<rparr>)))))))"

definition recordToProto :: "InstrumentRecord \<Rightarrow> InstrumentRecord" where
  "recordToProto rec = \<lparr>irID = irID rec, irLegs = irLegs rec, irExpiryUnix = irExpiryUnix rec\<rparr>"

definition GetInstrument :: "regFaults \<Rightarrow> nat list \<Rightarrow> regDb \<Rightarrow> string \<Rightarrow> regErr + InstrumentRecord" where
  "GetInstrument f order d i = (case pgGet f order d i of
     Inl StoreNotFound \<Rightarrow> Inl RgNotFound
   | Inl StoreFailure \<Rightarrow> Inl RgUnknown
   | Inr rec \<Rightarrow> Inr (recordToProto rec))"

definition GetTeam :: "RefCache \<Rightarrow> string \<Rightarrow> regErr + Team" where
  "GetTeam cache i = (case getTeam (refGet cache) i of None \<Rightarrow> Inl RgNotFound | Some t \<Rightarrow> Inr t)"

definition GetGame :: "RefCache \<Rightarrow> string \<Rightarrow> regErr + Game" where
  "GetGame cache i = (case getGame (refGet cache) i of None \<Rightarrow> Inl RgNotFound | Some g \<Rightarrow> Inr g)"

definition GetPlayer :: "RefCache \<Rightarrow> string \<Rightarrow> regErr + Player" where
  "GetPlayer cache i = (case getPlayer (refGet cache) i of None \<Rightarrow> Inl RgNotFound | Some p \<Rightarrow> Inr p)"

definition ListTeams :: "RefCache \<Rightarrow> League \<Rightarrow> Team list" where
  "ListTeams cache league = listTeams (refGet cache) league"

definition ListGames :: "RefCache \<Rightarrow> League \<Rightarrow> int \<Rightarrow> int \<Rightarrow> Game list" where
  "ListGames cache league fromUnix toUnix = listGames (refGet cache) league fromUnix toUnix"

definition ListPlayersByGame :: "RefCache \<Rightarrow> string \<Rightarrow> Player list" where
  "ListPlayersByGame cache gameId = listPlayersByGame (refGet cache) gameId"

definition GetAllowedPropTypes :: "RefCache \<Rightarrow> League \<Rightarrow> Position \<Rightarrow> PropType list" where
  "GetAllowedPropTypes cache league position = allowedPropTypes (refGet cache) league position"

end
