(* ===== verification/RegistryLaws.thy ===== *)
theory RegistryLaws
  imports RegistryStore
begin

text \<open>
  What the loops of the registry compute, in closed form: the hashes of a list of legs,
  the acceptance conditions of the three validation phases, the rows of a stored
  instrument, and the rosters of the reference data.
\<close>

section \<open>Hashes\<close>

definition legText :: "marshaller \<Rightarrow> Leg \<Rightarrow> string" where
  "legText marshal l = (case marshal l of None \<Rightarrow> [] | Some s \<Rightarrow> s)"

definition hashesOf :: "marshaller \<Rightarrow> Leg list \<Rightarrow> string list" where
  "hashesOf marshal legs = map (\<lambda>l. sha256hex (legText marshal l)) legs"

definition encodable :: "marshaller \<Rightarrow> Leg list \<Rightarrow> bool" where
  "encodable marshal legs \<longleftrightarrow> (\<forall>l \<in> set legs. marshal l \<noteq> None)"

lemma legHashes_eq: "legHashes marshal legs = (if encodable marshal legs then Some (hashesOf marshal legs) else None)"
  by (induction legs) (auto simp: encodable_def hashesOf_def legText_def)

lemma HashLegs_eq:
  "HashLegs marshal legs = (if encodable marshal legs then Some (sha256hex (concat (sort (hashesOf marshal legs)))) else None)"
  by (simp add: HashLegs_def legHashes_eq)

lemma encodable_mset: "mset legs = mset legs' \<Longrightarrow> encodable marshal legs = encodable marshal legs'"
  using mset_eq_setD [of legs legs'] by (simp add: encodable_def)

lemma hashesOf_mset: "mset legs = mset legs' \<Longrightarrow> mset (hashesOf marshal legs) = mset (hashesOf marshal legs')"
  by (simp add: hashesOf_def)

lemma HashLegs_mset:
  assumes "mset legs = mset legs'"
  shows "HashLegs marshal legs = HashLegs marshal legs'"
proof -
  have "sort (hashesOf marshal legs') = sort (hashesOf marshal legs)"
    by (rule properties_for_sort) (simp_all add: hashesOf_mset [OF assms])
  then show ?thesis unfolding HashLegs_eq encodable_mset [OF assms] by simp
qed

lemma concat_hashes_inj:
  assumes "\<forall>x \<in> set xs. length x = 64" and "\<forall>y \<in> set ys. length y = 64" and "concat xs = concat ys"
  shows "xs = (ys :: string list)"
  using assms
proof (induction xs arbitrary: ys)
  case Nil
  then show ?case by (cases ys) auto
next
  case (Cons x xs)
  show ?case
  proof (cases ys)
    case Nil
    with Cons.prems show ?thesis by auto
  next
    case (Cons y ys')
    with Cons.prems have "x = y \<and> concat xs = concat ys'" by auto
    with Cons Cons.IH [of ys'] Cons.prems show ?thesis by auto
  qed
qed

lemma mset_map_inj:
  assumes "inj_on f (set xs \<union> set ys)" and "mset (map f xs) = mset (map f ys)"
  shows "mset xs = mset ys"
proof -
  let ?g = "inv_into (set xs \<union> set ys) f"
  have "map ?g (map f zs) = zs" if "set zs \<subseteq> set xs \<union> set ys" for zs
    using that assms(1) by (induction zs) (auto simp: inv_into_f_f)
  then show ?thesis using assms(2) by (metis mset_map sup_ge1 sup_ge2)
qed

definition hashedTexts :: "marshaller \<Rightarrow> Leg list \<Rightarrow> string set" where
  "hashedTexts marshal legs = legText marshal ` set legs \<union> {concat (sort (hashesOf marshal legs))}"

lemma HashLegs_identifies:
  assumes "HashLegs marshal legs = Some i" and "HashLegs marshal legs' = Some i"
    and "\<And>l l' s. marshal l = Some s \<Longrightarrow> marshal l' = Some s \<Longrightarrow> l = l'"
    and "inj_on sha256hex (hashedTexts marshal legs \<union> hashedTexts marshal legs')"
  shows "mset legs = mset legs'"
proof -
  have enc: "encodable marshal legs" "encodable marshal legs'"
    and eq: "sha256hex (concat (sort (hashesOf marshal legs))) = sha256hex (concat (sort (hashesOf marshal legs')))"
    using assms(1,2) by (auto simp: HashLegs_eq split: if_splits)
  have "concat (sort (hashesOf marshal legs)) = concat (sort (hashesOf marshal legs'))"
    by (rule inj_onD [OF assms(4) eq]) (simp_all add: hashedTexts_def)
  then have "sort (hashesOf marshal legs) = sort (hashesOf marshal legs')"
    by (intro concat_hashes_inj) (auto simp: hashesOf_def)
  then have h: "mset (hashesOf marshal legs) = mset (hashesOf marshal legs')" by (metis mset_sort)
  have "inj_on (\<lambda>l. sha256hex (legText marshal l)) (set legs \<union> set legs')"
  proof (rule inj_onI)
    fix l l' assume l: "l \<in> set legs \<union> set legs'" "l' \<in> set legs \<union> set legs'"
      and h: "sha256hex (legText marshal l) = sha256hex (legText marshal l')"
    have "legText marshal l = legText marshal l'"
      by (rule inj_onD [OF assms(4) h]) (use l in \<open>auto simp: hashedTexts_def\<close>)
    moreover have "marshal l \<noteq> None" "marshal l' \<noteq> None" using l enc by (auto simp: encodable_def)
    ultimately show "l = l'" using assms(3) by (auto simp: legText_def)
  qed
  then show ?thesis using h unfolding hashesOf_def by (rule mset_map_inj)
qed

section \<open>Validation\<close>

lemma structuralLegs_None: "structuralLegs i legs = None \<longleftrightarrow> (\<forall>l \<in> set legs. structuralLeg l = None)"
  by (induction legs arbitrary: i) (auto split: option.split)

lemma entityLegs_Inr:
  "(\<exists>m. entityLegs rs i legs es = Inr m) \<longleftrightarrow> (\<forall>l \<in> set legs. \<exists>g. getGame rs (lgGameId l) = Some g \<and> entityLeg rs l g = None)"
proof (induction legs arbitrary: i es)
  case (Cons l ls)
  show ?case
  proof (cases "getGame rs (lgGameId l)")
    case (Some g)
    then show ?thesis using Cons.IH by (cases "entityLeg rs l g") simp_all
  qed simp
qed simp

lemma contradicts_sym: "contradicts a b \<longleftrightarrow> contradicts b a"
  unfolding contradicts_def by (intro iffI; elim disjE conjE; simp)

lemma contradicts_irrefl: "\<not> contradicts a a"
  by (simp add: contradicts_def)

lemma checkPropContradiction_iff: "checkPropContradiction pps \<longleftrightarrow> (\<exists>a \<in> set pps. \<exists>b \<in> set pps. contradicts a b)"
proof (induction pps)
  case (Cons p pps)
  have "(\<exists>a \<in> set (p # pps). \<exists>b \<in> set (p # pps). contradicts a b) \<longleftrightarrow>
      (\<exists>b \<in> set pps. contradicts p b) \<or> (\<exists>a \<in> set pps. \<exists>b \<in> set pps. contradicts a b)"
    using contradicts_sym contradicts_irrefl by auto
  with Cons show ?case by (simp add: list_ex_iff)
qed simp

definition propOf :: "propKey \<Rightarrow> Leg \<Rightarrow> PlayerProp option" where
  "propOf key l = (case lgPredicate l of
     LegPlayerProp pp \<Rightarrow> if key = (lgGameId l, ppPlayerId pp, ppPropType pp) then Some pp else None | _ \<Rightarrow> None)"

definition isOutcome :: "Leg \<Rightarrow> bool" where
  "isOutcome l = (case lgPredicate l of GameOutcome _ \<Rightarrow> True | _ \<Rightarrow> False)"

definition outcomeGames :: "Leg list \<Rightarrow> string list" where
  "outcomeGames legs = map lgGameId (filter isOutcome legs)"

fun addProps :: "Leg list \<Rightarrow> (propKey \<times> PlayerProp list) list \<Rightarrow> (propKey \<times> PlayerProp list) list" where
  "addProps [] props = props"
| "addProps (l # ls) props = addProps ls (case lgPredicate l of
     LegPlayerProp pp \<Rightarrow> (let key = (lgGameId l, ppPlayerId pp, ppPropType pp) in AList.update key (slice props key @ [pp]) props)
   | _ \<Rightarrow> props)"

lemma slice_update: "slice (AList.update k v m) k' = (if k' = k then v else slice m k')"
  by (simp add: slice_def update_conv')

lemma slice_addProps: "slice (addProps legs props) key = slice props key @ List.map_filter (propOf key) legs"
  by (induction legs arbitrary: props)
    (auto simp: map_filter_simps propOf_def slice_update Let_def split: Predicate.split)

lemma distinct_addProps: "distinct (map fst props) \<Longrightarrow> distinct (map fst (addProps legs props))"
  by (induction legs arbitrary: props) (auto simp: distinct_update Let_def split: Predicate.split)

lemma crossLegs_Inr:
  "crossLegs marshal i legs seen games props = Inr props' \<longleftrightarrow>
     encodable marshal legs \<and> distinct (hashesOf marshal legs) \<and> set (hashesOf marshal legs) \<inter> set seen = {} \<and>
     distinct (outcomeGames legs) \<and> set (outcomeGames legs) \<inter> set games = {} \<and> props' = addProps legs props"
proof (induction legs arbitrary: i seen games props)
  case Nil
  then show ?case by (auto simp: encodable_def hashesOf_def outcomeGames_def)
next
  case (Cons l ls)
  then show ?case
    by (cases "marshal l"; cases "lgPredicate l")
      (auto simp: LegHash_def encodable_def hashesOf_def outcomeGames_def legText_def isOutcome_def Let_def)
qed

lemma contradicting_groups:
  "list_ex (\<lambda>(key, pps). 2 \<le> length pps \<and> checkPropContradiction pps) (addProps legs []) \<longleftrightarrow>
   (\<exists>key. \<exists>l \<in> set legs. \<exists>l' \<in> set legs. \<exists>a b. propOf key l = Some a \<and> propOf key l' = Some b \<and> contradicts a b)"
  (is "?L \<longleftrightarrow> ?R")
proof -
  let ?ps = "addProps legs []"
  have d: "distinct (map fst ?ps)" by (rule distinct_addProps) simp
  have s: "slice ?ps key = List.map_filter (propOf key) legs" for key
    unfolding slice_addProps by (simp add: slice_def)
  have two: "2 \<le> length pps" if "checkPropContradiction pps" for pps
    using that by (cases pps; cases "tl pps") auto
  have "?L \<longleftrightarrow> (\<exists>key pps. map_of ?ps key = Some pps \<and> checkPropContradiction pps)"
    using d two by (fastforce simp: list_ex_iff map_of_eq_Some_iff)
  also have "\<dots> \<longleftrightarrow> (\<exists>key. checkPropContradiction (slice ?ps key))"
  proof (intro iff_exI iffI)
    fix key assume "\<exists>pps. map_of ?ps key = Some pps \<and> checkPropContradiction pps"
    then show "checkPropContradiction (slice ?ps key)" by (auto simp: slice_def)
  next
    fix key assume "checkPropContradiction (slice ?ps key)"
    then show "\<exists>pps. map_of ?ps key = Some pps \<and> checkPropContradiction pps"
      by (cases "map_of ?ps key") (simp_all add: slice_def)
  qed
  also have "\<dots> \<longleftrightarrow> ?R"
    unfolding s checkPropContradiction_iff by (fastforce simp: List.map_filter_def)
  finally show ?thesis .
qed

text \<open>What an instrument must satisfy, said directly.\<close>

definition legOk :: "refStore \<Rightarrow> Leg \<Rightarrow> bool" where
  "legOk rs l \<longleftrightarrow> lgGameId l \<noteq> [] \<and> (\<exists>g. getGame rs (lgGameId l) = Some g \<and>
     (case lgPredicate l of
        GameOutcome outcome \<Rightarrow> outcome \<noteq> Outcome_OUTCOME_UNSPECIFIED \<and> (outcome = Outcome_DRAW \<longrightarrow> gmLeague g \<in> set soccerLeagues)
      | LegPlayerProp pp \<Rightarrow>
          ppPlayerId pp \<noteq> [] \<and> ppPropType pp \<noteq> PropType_PROP_UNSPECIFIED \<and> ppComparator pp \<noteq> Comparator_CMP_UNSPECIFIED \<and>
          0 \<le> ppThreshold pp \<and> (ppThreshold pp = 0 \<longrightarrow> ppComparator pp \<notin> {Comparator_GTE, Comparator_LT}) \<and>
          (\<exists>p. getPlayer rs (ppPlayerId pp) = Some p \<and> playerInGame rs (ppPlayerId pp) (lgGameId l) \<and>
             propAllowedForPlayer (ppPropType pp) p (gmLeague g) rs)
      | PredicateNil \<Rightarrow> False))"

definition wellFormed :: "marshaller \<Rightarrow> refStore \<Rightarrow> Leg list \<Rightarrow> bool" where
  "wellFormed marshal rs legs \<longleftrightarrow> legs \<noteq> [] \<and> (\<forall>l \<in> set legs. legOk rs l) \<and> encodable marshal legs \<and>
     distinct (hashesOf marshal legs) \<and> distinct (outcomeGames legs) \<and>
     (\<forall>key. \<forall>l \<in> set legs. \<forall>l' \<in> set legs. \<forall>a b. propOf key l = Some a \<longrightarrow> propOf key l' = Some b \<longrightarrow> \<not> contradicts a b)"

lemma legOk_iff:
  "legOk rs l \<longleftrightarrow> structuralLeg l = None \<and> (\<exists>g. getGame rs (lgGameId l) = Some g \<and> entityLeg rs l g = None)"
  by (cases "lgPredicate l")
    (auto simp: legOk_def structuralLeg_def entityLeg_def split: option.splits if_splits)

lemma validateCrossLeg_None:
  "validateCrossLeg marshal legs = None \<longleftrightarrow> encodable marshal legs \<and> distinct (hashesOf marshal legs) \<and> distinct (outcomeGames legs) \<and>
     (\<forall>key. \<forall>l \<in> set legs. \<forall>l' \<in> set legs. \<forall>a b. propOf key l = Some a \<longrightarrow> propOf key l' = Some b \<longrightarrow> \<not> contradicts a b)"
proof (cases "crossLegs marshal 0 legs [] [] []")
  case (Inl e)
  then have "\<not> (encodable marshal legs \<and> distinct (hashesOf marshal legs) \<and> distinct (outcomeGames legs))"
    using crossLegs_Inr [of marshal 0 legs "[]" "[]" "[]"] by auto
  with Inl show ?thesis by (auto simp: validateCrossLeg_def)
next
  case (Inr props)
  then have "encodable marshal legs" "distinct (hashesOf marshal legs)" "distinct (outcomeGames legs)" "props = addProps legs []"
    using crossLegs_Inr [of marshal 0 legs "[]" "[]" "[]"] by auto
  with Inr contradicting_groups [of legs] show ?thesis by (auto simp: validateCrossLeg_def)
qed

lemma validated_iff:
  "validateStructural legs = None \<and> validateCrossLeg marshal legs = None \<and> (\<exists>m. validateEntities legs rs = Inr m) \<longleftrightarrow>
   wellFormed marshal rs legs"
  unfolding wellFormed_def validateCrossLeg_None legOk_iff validateEntities_def entityLegs_Inr
  by (auto simp: validateStructural_def structuralLegs_None)

lemma wellFormed_mset: "mset legs = mset legs' \<Longrightarrow> wellFormed marshal rs legs \<Longrightarrow> wellFormed marshal rs legs'"
proof -
  assume eq: "mset legs = mset legs'" and wf: "wellFormed marshal rs legs"
  have "distinct (hashesOf marshal legs')" "distinct (outcomeGames legs')"
    using wf eq mset_eq_imp_distinct_iff [OF hashesOf_mset [OF eq]] mset_eq_imp_distinct_iff [of "outcomeGames legs" "outcomeGames legs'"]
    by (simp_all add: wellFormed_def outcomeGames_def)
  moreover have "set legs' = set legs" using eq mset_eq_setD by metis
  moreover have "legs' \<noteq> []" using wf eq by (auto simp: wellFormed_def)
  ultimately show ?thesis using wf encodable_mset [OF eq] unfolding wellFormed_def by simp
qed

section \<open>Stored instruments\<close>

text \<open>The row a leg is stored as, and its game's expiry.\<close>

definition legExpiry :: "refStore \<Rightarrow> Leg \<Rightarrow> int" where
  "legExpiry rs l = (case getGame rs (lgGameId l) of None \<Rightarrow> 0 | Some g \<Rightarrow> gmExpiryUnix g)"

definition legRowOf :: "marshaller \<Rightarrow> refStore \<Rightarrow> Leg \<Rightarrow> LegRow" where
  "legRowOf marshal rs l = (let g = the (getGame rs (lgGameId l));
     row = \<lparr>lwLegHash = sha256hex (legText marshal l), lwGameID = lgGameId l, lwLeague = gmLeague g,
       lwEntities = [lgGameId l, gmHomeTeamId g, gmAwayTeamId g], lwOutcome = None, lwPlayerID = None,
       lwPropType = None, lwComparator = None, lwThreshold = None, lwExpiryUnix = gmExpiryUnix g\<rparr>
     in case lgPredicate l of
       GameOutcome outcome \<Rightarrow> row\<lparr>lwOutcome := Some outcome\<rparr>
     | LegPlayerProp pp \<Rightarrow> row\<lparr>lwPlayerID := Some (ppPlayerId pp), lwPropType := Some (ppPropType pp),
         lwComparator := Some (ppComparator pp), lwThreshold := Some (ppThreshold pp),
         lwEntities := lwEntities row @ [ppPlayerId pp, plTeamId (the (getPlayer rs (ppPlayerId pp)))]\<rparr>
     | PredicateNil \<Rightarrow> row)"

lemma legOk_cases:
  assumes "legOk rs l"
  obtains (outcome) g outcome where "getGame rs (lgGameId l) = Some g" "lgPredicate l = GameOutcome outcome"
  | (player) g pp p where "getGame rs (lgGameId l) = Some g" "lgPredicate l = LegPlayerProp pp" "getPlayer rs (ppPlayerId pp) = Some p"
  using assms by (cases "lgPredicate l") (auto simp: legOk_def)

lemma legRowOf_simps [simp]:
  "lwLegHash (legRowOf marshal rs l) = sha256hex (legText marshal l)"
  "lwGameID (legRowOf marshal rs l) = lgGameId l"
  by (simp_all add: legRowOf_def Let_def split: Predicate.split)

lemma legRowOf_player: "lwPlayerID (legRowOf marshal rs l) = (case lgPredicate l of LegPlayerProp pp \<Rightarrow> Some (ppPlayerId pp) | _ \<Rightarrow> None)"
  by (simp add: legRowOf_def Let_def split: Predicate.split)

lemma legRowOf_expiry: "legOk rs l \<Longrightarrow> lwExpiryUnix (legRowOf marshal rs l) = legExpiry rs l"
  by (erule legOk_cases) (simp_all add: legRowOf_def legExpiry_def)

lemma legOfRow_legRowOf: "legOk rs l \<Longrightarrow> legOfRow (legRowOf marshal rs l) = l"
  by (erule legOk_cases; cases l) (simp_all add: legRowOf_def legOfRow_def)

lemma collectLegs_rows:
  assumes "encodable marshal legs" and "\<forall>l \<in> set legs. legOk rs l"
  shows "collectLegs marshal legs rs rows = Collected (rows @ map (legRowOf marshal rs) legs)"
  using assms
proof (induction legs arbitrary: rows)
  case (Cons l ls)
  obtain s where s: "LegHash marshal l = Some (sha256hex s)" "legText marshal l = s"
    using Cons.prems(1) by (auto simp: encodable_def legText_def LegHash_def)
  have "legOk rs l" using Cons.prems(2) by simp
  then have "collectLegs marshal (l # ls) rs rows = collectLegs marshal ls rs (rows @ [legRowOf marshal rs l])"
    by (cases rule: legOk_cases) (simp_all add: s legRowOf_def)
  with Cons show ?case by (simp add: encodable_def)
qed simp

lemma entityLegs_expiries:
  assumes "entityLegs rs i legs es = Inr m" and "\<forall>k v. map_of es k = Some v \<longrightarrow> v = (case getGame rs k of None \<Rightarrow> 0 | Some g \<Rightarrow> gmExpiryUnix g)"
  shows "(\<forall>k v. map_of m k = Some v \<longrightarrow> v = (case getGame rs k of None \<Rightarrow> 0 | Some g \<Rightarrow> gmExpiryUnix g)) \<and>
    fst ` set es \<union> lgGameId ` set legs \<subseteq> fst ` set m"
  using assms
proof (induction legs arbitrary: i es)
  case (Cons l ls)
  from Cons.prems(1) obtain g where g: "getGame rs (lgGameId l) = Some g" "entityLeg rs l g = None"
    by (simp split: option.splits)
  let ?es = "AList.update (lgGameId l) (gmExpiryUnix g) es"
  have "\<forall>k v. map_of ?es k = Some v \<longrightarrow> v = (case getGame rs k of None \<Rightarrow> 0 | Some g \<Rightarrow> gmExpiryUnix g)"
    using Cons.prems(2) g by (simp add: update_conv')
  moreover have "fst ` set ?es = insert (lgGameId l) (fst ` set es)" by (simp add: dom_update)
  ultimately show ?case using Cons.IH [of "Suc i" ?es] Cons.prems(1) g by simp
qed simp

lemma foldl_max: "foldl (\<lambda>m l. if m < f l then f l else m) (a :: int) xs = Max (insert a (f ` set xs))"
proof (induction xs arbitrary: a)
  case (Cons x xs)
  have "Max (insert (max a (f x)) (f ` set xs)) = Max (insert a (insert (f x) (f ` set xs)))"
    by (cases "xs = []") (simp_all add: max.assoc)
  moreover have "(if a < f x then f x else a) = max a (f x)" by (simp add: max_def)
  ultimately show ?case using Cons [of "max a (f x)"] by (simp only: foldl_Cons list.set image_insert)
qed simp

lemma MaxExpiry_eq:
  assumes "validateEntities legs rs = Inr m"
  shows "MaxExpiry legs m = Max (insert 0 (legExpiry rs ` set legs))"
proof -
  have m: "\<forall>k v. map_of m k = Some v \<longrightarrow> v = (case getGame rs k of None \<Rightarrow> 0 | Some g \<Rightarrow> gmExpiryUnix g)" "lgGameId ` set legs \<subseteq> fst ` set m"
    using entityLegs_expiries [OF assms [unfolded validateEntities_def]] by simp_all
  have e: "(case map_of m (lgGameId l) of None \<Rightarrow> 0 | Some e \<Rightarrow> e) = legExpiry rs l" if "l \<in> set legs" for l
  proof -
    have "lgGameId l \<in> fst ` set m" using m(2) that by blast
    then obtain v where "map_of m (lgGameId l) = Some v" by (cases "map_of m (lgGameId l)") (simp_all add: map_of_eq_None_iff)
    with m(1) show ?thesis by (simp add: legExpiry_def)
  qed
  show ?thesis unfolding MaxExpiry_def Let_def foldl_max using e by (simp cong: image_cong)
qed

lemma insertEntities_frame:
  "insertEntities f n i xs d = Some d' \<Longrightarrow> rdLegs d' = rdLegs d \<and> rdInstruments d' = rdInstruments d \<and> rdGames d' = rdGames d \<and> rdPlayers d' = rdPlayers d"
proof (induction xs arbitrary: d)
  case (Cons x xs)
  then have s: "insertEntities f n i xs (if list_ex (\<lambda>r. enLeg r = n \<and> enEntity r = x) (rdLegEntities d) then d
         else d\<lparr>rdLegEntities := rdLegEntities d @ [\<lparr>enLeg = n, enInstrument = i, enEntity = x\<rparr>]\<rparr>) = Some d'"
    by (simp split: if_splits)
  from Cons.IH [OF s] show ?case by (simp split: if_splits)
qed simp

lemma insertLegs_rows:
  assumes "insertLegs f i legs d = Some d'"
  shows "\<exists>new. rdLegs d' = rdLegs d @ new \<and> map ldLeg new = legs \<and> (\<forall>r \<in> set new. ldInstrument r = i) \<and>
    rdInstruments d' = rdInstruments d"
  using assms
proof (induction legs arbitrary: d)
  case (Cons leg legs)
  from Cons.prems obtain d1 n d2 where 1: "insertLeg f i leg d = Some (d1, n)" "insertEntities f n i (lwEntities leg) d1 = Some d2"
      "insertLegs f i legs d2 = Some d'"
    by (auto simp: bind_eq_Some_conv)
  from Cons.IH [OF 1(3)] obtain new where new: "rdLegs d' = rdLegs d2 @ new" "map ldLeg new = legs" "\<forall>r \<in> set new. ldInstrument r = i"
      "rdInstruments d' = rdInstruments d2" by blast
  from 1(1) have "rdLegs d1 = rdLegs d @ [\<lparr>ldId = rdNextLeg d, ldInstrument = i, ldLeg = leg\<rparr>]" "rdInstruments d1 = rdInstruments d"
    by (auto simp: insertLeg_def split: if_splits)
  with new insertEntities_frame [OF 1(2)] show ?case
    by (intro exI [of _ "\<lparr>ldId = rdNextLeg d, ldInstrument = i, ldLeg = leg\<rparr> # new"]) simp
qed simp

text \<open>The invariant of the tables: one row per instrument, and every leg belongs to one.\<close>

definition regOk :: "regDb \<Rightarrow> bool" where
  "regOk d \<longleftrightarrow> distinct (map inId (rdInstruments d)) \<and> (\<forall>r \<in> set (rdLegs d). ldInstrument r \<in> inId ` set (rdInstruments d))"

end
