(* ===== verification/RegistryRun.thy ===== *)
theory RegistryRun
  imports RegistryLaws
begin

text \<open>
  The instrument store as its clients see it: what a create adds to the tables, what a
  get reads back, the contract between the two as a locale, and the registry with any
  number of creates in flight as a step relation with its invariant.
\<close>

section \<open>Effect of a create\<close>

definition legsOf :: "regDb \<Rightarrow> string \<Rightarrow> LegRow list" where
  "legsOf d i = map ldLeg (filter (\<lambda>r. ldInstrument r = i) (rdLegs d))"

definition added :: "int \<Rightarrow> string \<Rightarrow> int \<Rightarrow> LegRow list \<Rightarrow> regDb \<Rightarrow> regDb \<Rightarrow> bool" where
  "added now i expiry rows d d' \<longleftrightarrow> i \<notin> inId ` set (rdInstruments d) \<and>
     rdInstruments d' = rdInstruments d @ [\<lparr>inId = i, inExpiry = expiry, inCreatedAt = now\<rparr>] \<and>
     (\<exists>new. rdLegs d' = rdLegs d @ new \<and> map ldLeg new = rows \<and> (\<forall>r \<in> set new. ldInstrument r = i))"

lemma createInsert_cases:
  assumes "createInsert f now d i expiry rows = (d', r)"
  obtains "d' = d" "r = Inl StoreFailure" | "added now i expiry rows d d'" "r = Inr False \<or> r = Inl StoreFailure"
proof (cases "rfFails f RsInsert \<or> i \<in> inId ` set (rdInstruments d)")
  case True
  with assms that(1) show ?thesis by (simp add: createInsert_def list_ex_key)
next
  case False
  let ?d = "d\<lparr>rdInstruments := rdInstruments d @ [\<lparr>inId = i, inExpiry = expiry, inCreatedAt = now\<rparr>]\<rparr>"
  have c: "createInsert f now d i expiry rows = (case insertLegs f i rows ?d of
        None \<Rightarrow> (d, Inl StoreFailure)
      | Some d' \<Rightarrow> (case rfCommit f of RegCommitted \<Rightarrow> (d', Inr False) | RegNotCommitted \<Rightarrow> (d, Inl StoreFailure) | RegCommitUnknown \<Rightarrow> (d', Inl StoreFailure)))"
    using False by (simp add: createInsert_def list_ex_key)
  show ?thesis
  proof (cases "insertLegs f i rows ?d")
    case None
    with c assms that(1) show ?thesis by simp
  next
    case (Some d2)
    from insertLegs_rows [OF Some] False have "added now i expiry rows d d2" by (auto simp: added_def)
    with Some c assms that show ?thesis by (cases "rfCommit f") auto
  qed
qed

lemma added_regOk: "regOk d \<Longrightarrow> added now i expiry rows d d' \<Longrightarrow> regOk d'"
  by (auto simp: regOk_def added_def)

lemma regOk_no_legs:
  assumes "regOk d" and "i \<notin> inId ` set (rdInstruments d)"
  shows "filter (\<lambda>r. ldInstrument r = i) (rdLegs d) = []"
  using assms by (auto simp: regOk_def filter_empty_conv)

lemma added_legsOf:
  assumes "regOk d" and "added now i expiry rows d d'"
  shows "legsOf d' j = (if j = i then rows else legsOf d j)"
proof -
  from assms(2) obtain new where new: "rdLegs d' = rdLegs d @ new" "map ldLeg new = rows" "\<forall>r \<in> set new. ldInstrument r = i"
    and i: "i \<notin> inId ` set (rdInstruments d)" by (auto simp: added_def)
  have "filter (\<lambda>r. ldInstrument r = j) new = (if j = i then new else [])"
    using new(3) by (auto simp: filter_empty_conv intro: filter_True)
  then show ?thesis using new regOk_no_legs [OF assms(1) i] by (simp add: legsOf_def)
qed

section \<open>Reading back\<close>

lemma filter_key: "distinct (map f xs) \<Longrightarrow> x \<in> set xs \<Longrightarrow> filter (\<lambda>y. f y = f x) xs = [x]"
  by (induction xs) (auto simp: filter_empty_conv image_iff)

lemma filter_orderBy: "filter P (orderBy f ks xs) = orderBy f ks (filter P xs)"
  by (simp add: orderBy_def filter_concat comp_def) (simp add: conj_commute)

lemma joinLegs_stored:
  assumes "regOk d" and "inst \<in> set (rdInstruments d)"
  shows "joinLegs order d (inId inst) =
    map (\<lambda>r. (ldLeg r, inExpiry inst)) (orderBy ldId order (filter (\<lambda>r. ldInstrument r = inId inst) (rdLegs d)))"
  using assms filter_key [of inId "rdInstruments d" inst] by (simp add: joinLegs_def regOk_def filter_orderBy)

lemma pgGet_stored:
  assumes "regOk d" and "inst \<in> set (rdInstruments d)" and "legsOf d (inId inst) \<noteq> []" and "\<not> rfFails f RsQuery"
  shows "\<exists>ls. pgGet f order d (inId inst) = Inr \<lparr>irID = inId inst, irLegs = ls, irExpiryUnix = inExpiry inst\<rparr> \<and>
    mset ls = mset (map legOfRow (legsOf d (inId inst)))"
proof -
  let ?rs = "orderBy ldId order (filter (\<lambda>r. ldInstrument r = inId inst) (rdLegs d))"
  have "length ?rs = length (legsOf d (inId inst))" by (simp add: legsOf_def)
  then have ne: "?rs \<noteq> []" using assms(3) by (metis length_0_conv)
  have "mset (map (\<lambda>r. legOfRow (ldLeg r)) ?rs) = mset (map legOfRow (legsOf d (inId inst)))"
    by (simp add: legsOf_def image_mset.compositionality comp_def)
  with ne show ?thesis using assms(4)
    by (simp add: pgGet_def joinLegs_stored [OF assms(1,2)] Let_def last_map comp_def)
qed

lemma pgGet_found:
  assumes "regOk d" and "pgGet f order d i = Inr rec"
  obtains inst where "inst \<in> set (rdInstruments d)" "inId inst = i" "irID rec = i" "irExpiryUnix rec = inExpiry inst"
    "mset (irLegs rec) = mset (map legOfRow (legsOf d i))" "legsOf d i \<noteq> []"
proof -
  from assms(2) have ok: "\<not> rfFails f RsQuery" and rows: "joinLegs order d i \<noteq> []"
    by (auto simp: pgGet_def Let_def split: if_splits)
  from rows obtain inst where inst: "inst \<in> set (rdInstruments d)" "inId inst = i"
    unfolding joinLegs_def by (metis (mono_tags, lifting) concat.simps(1) filter_False list.simps(8))
  from joinLegs_stored [OF assms(1) inst(1)] rows inst(2) have "orderBy ldId order (filter (\<lambda>r. ldInstrument r = i) (rdLegs d)) \<noteq> []" by auto
  then have "legsOf d i \<noteq> []" unfolding legsOf_def by (metis length_0_conv length_map length_orderBy)
  with pgGet_stored [OF assms(1) inst(1) _ ok, of order] inst that assms(2) show ?thesis by auto
qed

lemma pgGet_frame:
  assumes "regOk d" and "added now i expiry rows d d'" and "j \<noteq> i"
  shows "pgGet f order d' j = pgGet f order d j"
proof -
  from assms(2) obtain new where new: "rdLegs d' = rdLegs d @ new" "\<forall>r \<in> set new. ldInstrument r = i"
    and inst: "rdInstruments d' = rdInstruments d @ [\<lparr>inId = i, inExpiry = expiry, inCreatedAt = now\<rparr>]" by (auto simp: added_def)
  have "filter (\<lambda>r. ldInstrument r = j) (rdLegs d') = filter (\<lambda>r. ldInstrument r = j) (rdLegs d)"
    using new assms(3) by (auto simp: filter_empty_conv)
  then have "joinLegs order d' j = joinLegs order d j"
    using assms(3) unfolding joinLegs_def inst filter_orderBy by (auto intro!: arg_cong [where f = concat])
  then show ?thesis by (simp add: pgGet_def)
qed

lemma pgGet_added:
  assumes "regOk d" and "added now i expiry rows d d'" and "pgGet f order d j = Inr rec"
  shows "pgGet f order d' j = Inr rec"
proof -
  have "j \<noteq> i" using pgGet_found [OF assms(1,3)] assms(2) by (auto simp: added_def)
  with pgGet_frame [OF assms(1,2)] assms(3) show ?thesis by simp
qed

section \<open>The contract of the store\<close>

text \<open>What the registry service relies on, for a store whose creates can fail in any way \<open>f\<close>: the
  invariant is kept, a successful create can be read back, and what can be read stays as it is.\<close>

locale instrument_store =
  fixes inv :: "'d \<Rightarrow> bool"
    and create :: "'f \<Rightarrow> 'd \<Rightarrow> string \<Rightarrow> int \<Rightarrow> LegRow list \<Rightarrow> 'd \<times> (storeErr + bool)"
    and get :: "'d \<Rightarrow> string \<Rightarrow> storeErr + InstrumentRecord"
  assumes create_inv: "inv d \<Longrightarrow> create f d i expiry rows = (d', r) \<Longrightarrow> inv d'"
    and create_new: "inv d \<Longrightarrow> create f d i expiry rows = (d', Inr False) \<Longrightarrow> rows \<noteq> [] \<Longrightarrow>
      \<exists>ls. get d' i = Inr \<lparr>irID = i, irLegs = ls, irExpiryUnix = expiry\<rparr> \<and> mset ls = mset (map legOfRow rows)"
    and create_old: "inv d \<Longrightarrow> get d i = Inr rec \<Longrightarrow> create f d i expiry rows = (d', r) \<Longrightarrow> d' = d \<and> (\<forall>b. r = Inr b \<longrightarrow> b)"
    and create_frame: "inv d \<Longrightarrow> j \<noteq> i \<Longrightarrow> create f d i expiry rows = (d', r) \<Longrightarrow> get d j = Inr rec \<Longrightarrow> get d' j = Inr rec"
begin

lemma create_keeps: "inv d \<Longrightarrow> get d j = Inr rec \<Longrightarrow> create f d i expiry rows = (d', r) \<Longrightarrow> get d' j = Inr rec"
  using create_old create_frame by (cases "j = i") blast+

lemma create_again:
  assumes "inv d" and "create f d i expiry rows = (d', Inr False)" and "rows \<noteq> []"
    and "create f' d' i expiry' rows' = (d'', r)"
  shows "d'' = d' \<and> (\<forall>b. r = Inr b \<longrightarrow> b)"
  using create_new [OF assms(1-3)] create_old [OF create_inv [OF assms(1,2)] _ assms(4)] by blast

lemma creates_keep:
  assumes "inv d" and "get d j = Inr rec"
  shows "get (fold (\<lambda>(f, i, expiry, rows) d. fst (create f d i expiry rows)) reqs d) j = Inr rec"
  using assms
proof (induction reqs arbitrary: d)
  case (Cons req reqs)
  obtain f i expiry rows where req: "req = (f, i, expiry, rows)" by (cases req)
  obtain d' r where c: "create f d i expiry rows = (d', r)" by fastforce
  from Cons.IH [OF create_inv [OF Cons.prems(1) c] create_keeps [OF Cons.prems c]] show ?case by (simp add: req c)
qed simp

end

lemma pgCreate_cases:
  assumes "pgCreate f now d i expiry rows = (d', r)"
  obtains "d' = d" "\<forall>b. r = Inr b \<longrightarrow> b \<and> i \<in> inId ` set (rdInstruments d)"
  | "added now i expiry rows d d'" "r = Inr False \<or> r = Inl StoreFailure"
proof (cases "rfFails f RsBegin \<or> rfFails f RsSelect")
  case True
  with assms that(1) show ?thesis by (auto simp: pgCreate_def createCheck_def)
next
  case False
  show ?thesis
  proof (cases "i \<in> inId ` set (rdInstruments d)")
    case True
    with False assms have "d' = d" "r = Inr True" by (simp_all add: pgCreate_def createCheck_def list_ex_key)
    with True that(1) show ?thesis by simp
  next
    case new: False
    with False assms have "createInsert f now d i expiry rows = (d', r)" by (simp add: pgCreate_def createCheck_def list_ex_key)
    then show ?thesis by (rule createInsert_cases) (use that in auto)
  qed
qed

lemma pgCreate_stored: "i \<in> inId ` set (rdInstruments d) \<Longrightarrow> fst (pgCreate f now d i expiry rows) = d"
  by (simp add: pgCreate_def createCheck_def list_ex_key)

interpretation pg: instrument_store regOk "\<lambda>(f, now). pgCreate f now" "pgGet regCalm order" for order
proof (unfold_locales, goal_cases)
  case (1 d f i expiry rows d' r)
  then show ?case by (cases f) (auto elim!: pgCreate_cases intro: added_regOk)
next
  case (2 d f i expiry rows d')
  obtain g now where f: "f = (g, now)" by (cases f)
  with 2(2) have a: "added now i expiry rows d d'" by (auto elim: pgCreate_cases)
  let ?inst = "\<lparr>inId = i, inExpiry = expiry, inCreatedAt = now\<rparr>"
  have "?inst \<in> set (rdInstruments d')" using a by (simp add: added_def)
  with pgGet_stored [OF added_regOk [OF 2(1) a] this, of regCalm order] 2(3) show ?case
    by (simp add: added_legsOf [OF 2(1) a] regCalm_def)
next
  case (3 d i rec f expiry rows d' r)
  obtain g now where f: "f = (g, now)" by (cases f)
  have i: "i \<in> inId ` set (rdInstruments d)" by (rule pgGet_found [OF 3(1,2)]) auto
  from 3(3) f have c: "pgCreate g now d i expiry rows = (d', r)" by simp
  from c show ?case by (rule pgCreate_cases) (use i in \<open>auto simp: added_def\<close>)
next
  case (4 d j i f expiry rows d' r rec)
  obtain g now where f: "f = (g, now)" by (cases f)
  from 4(3) f have c: "pgCreate g now d i expiry rows = (d', r)" by simp
  from c show ?case by (rule pgCreate_cases) (use 4 pgGet_added in \<open>auto\<close>)
qed

section \<open>Creates in flight\<close>

text \<open>Between the existence check of a create and its inserts other creates can run. A state holds the
  tables and the creates that have passed the check; reference rows may be added at any time.\<close>

type_synonym regSys = "regDb \<times> (string \<times> int \<times> LegRow list) list"

inductive regStep :: "marshaller \<Rightarrow> regSys \<Rightarrow> regSys \<Rightarrow> bool" for marshal where
  checked: "\<lbrakk>validateStructural legs = None; validateCrossLeg marshal legs = None;
     validateEntities legs (refGet cache) = Inr expiries; HashLegs marshal legs = Some i;
     collectLegs marshal legs (refGet cache) [] = Collected rows; createCheck f d i = Inr False\<rbrakk>
     \<Longrightarrow> regStep marshal (d, ps) (d, (i, MaxExpiry legs expiries, rows) # ps)"
| inserted: "\<lbrakk>(i, expiry, rows) \<in> set ps; createInsert f now d i expiry rows = (d', r)\<rbrakk>
     \<Longrightarrow> regStep marshal (d, ps) (d', remove1 (i, expiry, rows) ps)"
| refRows: "regStep marshal (d, ps) (d\<lparr>rdGames := rdGames d \<union> gs, rdPlayers := rdPlayers d \<union> pls\<rparr>, ps)"

inductive regReach :: "marshaller \<Rightarrow> regSys \<Rightarrow> regSys \<Rightarrow> bool" for marshal where
  reg_refl: "regReach marshal s s"
| reg_step: "regReach marshal s t \<Longrightarrow> regStep marshal t u \<Longrightarrow> regReach marshal s u"

definition emptyReg :: regDb where
  "emptyReg = \<lparr>rdInstruments = [], rdLegs = [], rdLegEntities = [], rdNextLeg = 1, rdGames = {}, rdPlayers = {}\<rparr>"

text \<open>Everything about an instrument follows from its legs: its id is their hash, its expiry the latest
  of theirs, and they pass the checks that do not depend on the reference data.\<close>

definition genuine :: "marshaller \<Rightarrow> string \<Rightarrow> int \<Rightarrow> LegRow list \<Rightarrow> bool" where
  "genuine marshal i expiry rows \<longleftrightarrow> rows \<noteq> [] \<and> HashLegs marshal (map legOfRow rows) = Some i \<and>
     expiry = Max (insert 0 (lwExpiryUnix ` set rows)) \<and>
     validateStructural (map legOfRow rows) = None \<and> validateCrossLeg marshal (map legOfRow rows) = None"

definition regInv :: "marshaller \<Rightarrow> regSys \<Rightarrow> bool" where
  "regInv marshal s \<longleftrightarrow> regOk (fst s) \<and>
     (\<forall>inst \<in> set (rdInstruments (fst s)). genuine marshal (inId inst) (inExpiry inst) (legsOf (fst s) (inId inst))) \<and>
     (\<forall>(i, expiry, rows) \<in> set (snd s). genuine marshal i expiry rows)"

lemma checked_genuine:
  assumes "validateStructural legs = None" "validateCrossLeg marshal legs = None" "validateEntities legs rs = Inr m"
    "HashLegs marshal legs = Some i" "collectLegs marshal legs rs [] = Collected rows"
  shows "genuine marshal i (MaxExpiry legs m) rows"
proof -
  have wf: "wellFormed marshal rs legs" using assms validated_iff by blast
  then have ok: "\<forall>l \<in> set legs. legOk rs l" and ne: "legs \<noteq> []" and "encodable marshal legs" by (simp_all add: wellFormed_def)
  with assms(5) collectLegs_rows [of marshal legs rs "[]"] have rows: "rows = map (legRowOf marshal rs) legs" by simp
  have "map legOfRow rows = legs" unfolding rows using ok by (auto simp: legOfRow_legRowOf intro: map_idI)
  moreover have "lwExpiryUnix ` set rows = legExpiry rs ` set legs"
    unfolding rows using ok by (auto simp: legRowOf_expiry image_iff)
  ultimately show ?thesis using assms ne MaxExpiry_eq [OF assms(3)] by (simp add: genuine_def rows)
qed

lemma regStep_inv: "regStep marshal s t \<Longrightarrow> regInv marshal s \<Longrightarrow> regInv marshal t"
proof (induction rule: regStep.induct)
  case (checked legs cache expiries i rows f d ps)
  with checked_genuine [OF checked(1-5)] show ?case by (simp add: regInv_def)
next
  case (inserted i expiry rows ps f now d d' r)
  have ps: "\<forall>(i, expiry, rows) \<in> set (remove1 (i, expiry, rows) ps). genuine marshal i expiry rows"
    using inserted(3) by (auto simp: regInv_def dest: set_remove1_subset [THEN subsetD])
  have g: "genuine marshal i expiry rows" and ok: "regOk d" using inserted by (auto simp: regInv_def)
  from inserted(2) show ?case
  proof (rule createInsert_cases)
    assume "d' = d"
    with inserted(3) ps show ?thesis by (simp add: regInv_def)
  next
    assume a: "added now i expiry rows d d'"
    then have n: "i \<notin> inId ` set (rdInstruments d)"
      and "rdInstruments d' = rdInstruments d @ [\<lparr>inId = i, inExpiry = expiry, inCreatedAt = now\<rparr>]" by (auto simp: added_def)
    with inserted(3) g ps added_regOk [OF ok a] show ?thesis
      by (auto simp: regInv_def added_legsOf [OF ok a])
  qed
next
  case (refRows d ps gs pls)
  then show ?case by (simp add: regInv_def regOk_def legsOf_def)
qed

lemma regReach_inv: "regReach marshal s t \<Longrightarrow> regInv marshal s \<Longrightarrow> regInv marshal t"
  by (induction rule: regReach.induct) (auto intro: regStep_inv)

lemma regInv_empty: "regInv marshal (emptyReg, [])"
  by (simp add: regInv_def emptyReg_def regOk_def)

lemma regStep_get:
  assumes "regStep marshal s t" and "regOk (fst s)" and "pgGet f order (fst s) j = Inr rec"
  shows "pgGet f order (fst t) j = Inr rec"
  using assms
proof (induction rule: regStep.induct)
  case (inserted i expiry rows ps g now d d' r)
  from inserted(2) show ?case by (rule createInsert_cases) (use inserted(3,4) pgGet_added in auto)
qed (auto simp: pgGet_def joinLegs_def)

lemma regReach_get:
  assumes "regReach marshal s t" and "regInv marshal s" and "pgGet f order (fst s) j = Inr rec"
  shows "pgGet f order (fst t) j = Inr rec"
  using assms
proof (induction rule: regReach.induct)
  case (reg_step s t u)
  have "regOk (fst t)" using regReach_inv [OF reg_step(1,4)] by (simp add: regInv_def)
  from regStep_get [OF reg_step(2) this reg_step(3)] reg_step(4,5) show ?case by simp
qed simp

end
