(* ===== verification/Base64.thy ===== *)
theory Base64
  imports Prelude
begin

text \<open>
  \<open>base64.StdEncoding\<close> of the Go package \<open>encoding/base64\<close>: the standard alphabet with
  padding. Decoding skips carriage returns and newlines, rejects every other foreign
  character and a wrong padding, and ignores the unused bits of the last group.
\<close>

definition b64Alphabet :: string where
  "b64Alphabet = ''ABCDEFGHIJKLMNOPQRSTUVWXYZabcdefghijklmnopqrstuvwxyz0123456789+/''"

definition b64Char :: "nat \<Rightarrow> char" where
  "b64Char n = b64Alphabet ! n"

definition b64Val :: "char \<Rightarrow> nat option" where
  "b64Val c = map_of (zip b64Alphabet [0..<64]) c"

fun b64Encode :: "string \<Rightarrow> string" where
  "b64Encode [] = []"
| "b64Encode [a] = (let x = of_char a in [b64Char (x div 4), b64Char (x mod 4 * 16), CHR ''='', CHR ''=''])"
| "b64Encode [a, b] = (let x = of_char a; y = of_char b in
     [b64Char (x div 4), b64Char (x mod 4 * 16 + y div 16), b64Char (y mod 16 * 4), CHR ''=''])"
| "b64Encode (a # b # c # rest) = (let x = of_char a; y = of_char b; z = of_char c in
     [b64Char (x div 4), b64Char (x mod 4 * 16 + y div 16), b64Char (y mod 16 * 4 + z div 64), b64Char (z mod 64)] @ b64Encode rest)"

fun b64Quads :: "string \<Rightarrow> string option" where
  "b64Quads [] = Some []"
| "b64Quads (p # q # r # s # rest) = do {
     v \<leftarrow> b64Val p;
     w \<leftarrow> b64Val q;
     if r = CHR ''='' then (if s = CHR ''='' \<and> rest = [] then Some [char_of (v * 4 + w div 16)] else None)
     else do {
       x \<leftarrow> b64Val r;
       if s = CHR ''='' then (if rest = [] then Some [char_of (v * 4 + w div 16), char_of (w mod 16 * 16 + x div 4)] else None)
       else do {
         y \<leftarrow> b64Val s;
         bs \<leftarrow> b64Quads rest;
         Some (char_of (v * 4 + w div 16) # char_of (w mod 16 * 16 + x div 4) # char_of (x mod 4 * 64 + y) # bs)
       }
     }
   }"
| "b64Quads _ = None"

definition b64Decode :: "string \<Rightarrow> string option" where
  "b64Decode s = b64Quads (filter (\<lambda>c. c \<noteq> CHR 0x0A \<and> c \<noteq> CHR 0x0D) s)"

section \<open>Round trip\<close>

lemma b64_table: "list_all (\<lambda>n. b64Val (b64Char n) = Some n \<and> b64Char n \<notin> {CHR ''='', CHR 0x0A, CHR 0x0D}) [0..<64]"
  by code_simp

lemma b64Val_Char [simp]: "n < 64 \<Longrightarrow> b64Val (b64Char n) = Some n"
  using b64_table by (simp add: list_all_iff)

lemma b64Char_plain:
  assumes "n < 64"
  shows "b64Char n \<noteq> CHR ''=''" and "b64Char n \<noteq> CHR 0x0A" and "b64Char n \<noteq> CHR 0x0D"
  using b64_table assms by (simp_all add: list_all_iff)

lemma of_char_byte: "(of_char c :: nat) < 256"
  by (cases c) simp

lemma b64_div:
  assumes "x < (256 :: nat)"
  shows "x div 4 < 64" "x div 16 < 16" "x div 64 < 4"
  using assms by (auto intro: less_mult_imp_div_less)

lemma b64_bounds:
  assumes "x < (256 :: nat)" and "y < 256" and "z < 256"
  shows "x div 4 < 64" "x mod 4 * 16 < 64" "x mod 4 * 16 + y div 16 < 64" "y mod 16 * 4 < 64" "y mod 16 * 4 + z div 64 < 64" "z mod 64 < 64"
proof -
  have "x mod 4 < 4" "y mod 16 < 16" "z mod 64 < 64" by simp_all
  with b64_div [OF assms(1)] b64_div [OF assms(2)] b64_div [OF assms(3)]
  show "x div 4 < 64" "x mod 4 * 16 < 64" "x mod 4 * 16 + y div 16 < 64" "y mod 16 * 4 < 64" "y mod 16 * 4 + z div 64 < 64" "z mod 64 < 64"
    by linarith+
qed

lemma b64_join:
  assumes "x < (256 :: nat)"
  shows "x div 16 div 16 = 0" "x div 16 mod 16 = x div 16" "x div 64 div 4 = 0" "x div 64 mod 4 = x div 64"
  using b64_div [OF assms] by simp_all

lemmas b64_arith = b64_bounds [OF of_char_byte of_char_byte of_char_byte] b64_join [OF of_char_byte]

lemma b64Quads_Encode: "b64Quads (b64Encode s) = Some s"
proof (induction s rule: b64Encode.induct)
  case (4 a b c rest)
  then show ?case by (simp add: Let_def b64_arith b64Char_plain)
qed (simp_all add: Let_def b64_arith b64Char_plain)

lemma b64Encode_plain: "c \<in> set (b64Encode s) \<Longrightarrow> c \<noteq> CHR 0x0A \<and> c \<noteq> CHR 0x0D"
  by (induction s rule: b64Encode.induct) (auto simp: Let_def b64_arith b64Char_plain)

lemma b64Decode_Encode [simp]: "b64Decode (b64Encode s) = Some s"
proof -
  have "filter (\<lambda>c. c \<noteq> CHR 0x0A \<and> c \<noteq> CHR 0x0D) (b64Encode s) = b64Encode s"
    using b64Encode_plain by (auto intro!: filter_True)
  then show ?thesis unfolding b64Decode_def by (simp only: b64Quads_Encode)
qed

lemma b64Encode_empty [simp]: "b64Encode s = [] \<longleftrightarrow> s = []"
  by (cases s rule: b64Encode.cases) (simp_all add: Let_def)

end
