(* ===== verification/RegistryList.thy ===== *)
theory RegistryList
  imports RegistryRun Base64 "HOL-Library.Product_Lexorder"
begin

text \<open>
  Listing instruments page by page: \<open>List\<close>, \<open>encodePageToken\<close> and \<open>decodePageToken\<close> of
  \<open>registry/internal/postgres.go\<close> and \<open>ListInstruments\<close> of \<open>service.go\<close>. Times are microseconds since
  1970. How a token's struct is written as JSON depends on the time zone of the process
  and is a parameter. \<open>return pt, json.Unmarshal (b, &pt)\<close> is taken in the order the Go
  compiler gives it, the struct being read after the call; the language leaves the order
  open. Instrument ids are hex digests, which the database orders as character codes.
\<close>

record pageToken =
  ptCreatedAt :: int
  ptID :: string

record tokenJson =
  tjMarshal :: "pageToken \<Rightarrow> string option"
  tjUnmarshal :: "string \<Rightarrow> pageToken option"

definition zeroTime :: int where
  "zeroTime = - 62135596800 * 1000000"

definition encodePageToken :: "tokenJson \<Rightarrow> int \<Rightarrow> string \<Rightarrow> string" where
  "encodePageToken tj t i = b64Encode (case tjMarshal tj \<lparr>ptCreatedAt = t, ptID = i\<rparr> of None \<Rightarrow> [] | Some b \<Rightarrow> b)"

definition decodePageToken :: "tokenJson \<Rightarrow> string \<Rightarrow> pageToken option" where
  "decodePageToken tj s = do { b \<leftarrow> b64Decode s; tjUnmarshal tj b }"

record ListFilter =
  lfEntityID :: string
  lfLeague :: int
  lfActiveOnly :: bool
  lfPageSize :: int
  lfPageToken :: string

section \<open>The query\<close>

text \<open>An instrument is selected when one of its legs, joined with one of the leg's entities, passes.\<close>

definition listMatches :: "regDb \<Rightarrow> int \<Rightarrow> ListFilter \<Rightarrow> instrumentRow \<Rightarrow> bool" where
  "listMatches d now req r \<longleftrightarrow>
     list_ex (\<lambda>l. ldInstrument l = inId r \<and>
        list_ex (\<lambda>e. enLeg e = ldId l \<and> (lfEntityID req = [] \<or> enEntity e = lfEntityID req)) (rdLegEntities d) \<and>
        (lfLeague req = 0 \<or> lwLeague (ldLeg l) = lfLeague req)) (rdLegs d) \<and>
     (\<not> lfActiveOnly req \<or> now < inExpiry r * 1000000)"

text \<open>A comparison with a null id holds only when the time alone decides it.\<close>

definition beforeCursor :: "pageToken \<Rightarrow> instrumentRow \<Rightarrow> bool" where
  "beforeCursor pt r \<longleftrightarrow> ptCreatedAt pt = zeroTime \<or> inCreatedAt r < ptCreatedAt pt \<or>
     (inCreatedAt r = ptCreatedAt pt \<and> ptID pt \<noteq> [] \<and> inId r < ptID pt)"

definition newestFirst :: "instrumentRow list \<Rightarrow> instrumentRow list" where
  "newestFirst rows = rev (sort_key (\<lambda>r. (inCreatedAt r, inId r)) rows)"

definition listQuery :: "regDb \<Rightarrow> int \<Rightarrow> ListFilter \<Rightarrow> pageToken \<Rightarrow> nat \<Rightarrow> instrumentRow list" where
  "listQuery d now req pt limit =
     take limit (newestFirst (filter (\<lambda>r. listMatches d now req r \<and> beforeCursor pt r) (rdInstruments d)))"

fun getAll :: "regFaults \<Rightarrow> nat list \<Rightarrow> regDb \<Rightarrow> instrumentRow list \<Rightarrow> storeErr + InstrumentRecord list" where
  "getAll f order d [] = Inr []"
| "getAll f order d (r # rs) = (case pgGet f order d (inId r) of
     Inl e \<Rightarrow> Inl e
   | Inr rec \<Rightarrow> (case getAll f order d rs of Inl e \<Rightarrow> Inl e | Inr recs \<Rightarrow> Inr (rec # recs)))"

datatype listErr = InvalidPageToken | ListStoreErr storeErr

definition pgList :: "tokenJson \<Rightarrow> regFaults \<Rightarrow> nat list \<Rightarrow> int \<Rightarrow> regDb \<Rightarrow> ListFilter \<Rightarrow> listErr + (InstrumentRecord list \<times> string)" where
  "pgList tj f order now d req =
     (let pageSize = (if lfPageSize req \<le> 0 then 50 else nat (lfPageSize req)) in
      case (if lfPageToken req \<noteq> [] then decodePageToken tj (lfPageToken req) else Some \<lparr>ptCreatedAt = zeroTime, ptID = []\<rparr>) of
        None \<Rightarrow> Inl InvalidPageToken
      | Some pt \<Rightarrow>
          if rfFails f RsList then Inl (ListStoreErr StoreFailure)
          else let rowList = listQuery d now req pt (pageSize + 1);
                   (nextToken, rowList) =
                     (if pageSize < length rowList
                      then (let last = rowList ! (pageSize - 1) in (encodePageToken tj (inCreatedAt last) (inId last), take pageSize rowList))
                      else ([], rowList))
               in (case getAll f order d rowList of
                     Inl e \<Rightarrow> Inl (ListStoreErr e)
                   | Inr out \<Rightarrow> Inr (out, nextToken)))"

definition ListInstruments :: "tokenJson \<Rightarrow> regFaults \<Rightarrow> nat list \<Rightarrow> int \<Rightarrow> regDb \<Rightarrow> ListFilter \<Rightarrow>
    listErr + (InstrumentRecord list \<times> string)" where
  "ListInstruments tj f order now d req = (case pgList tj f order now d req of
     Inl e \<Rightarrow> Inl e
   | Inr (recs, nextToken) \<Rightarrow> Inr (map recordToProto recs, nextToken))"

section \<open>Order\<close>

abbreviation rowKey :: "instrumentRow \<Rightarrow> int \<times> string" where
  "rowKey r \<equiv> (inCreatedAt r, inId r)"

lemma newestFirst_sorted: "sorted_wrt (\<lambda>r s. rowKey s \<le> rowKey r) (newestFirst rows)"
  unfolding newestFirst_def sorted_wrt_rev using sorted_sort_key [of rowKey rows] by (simp add: sorted_map)

lemma set_newestFirst [simp]: "set (newestFirst rows) = set rows"
  by (simp add: newestFirst_def)

lemma mset_newestFirst [simp]: "mset (newestFirst rows) = mset rows"
  by (simp add: newestFirst_def)

lemma newestFirst_filter: "newestFirst (filter P rows) = filter P (newestFirst rows)"
  by (simp add: newestFirst_def filter_sort flip: rev_filter)

lemma newestFirst_strict:
  assumes "distinct (map inId rows)"
  shows "sorted_wrt (\<lambda>r s. rowKey s < rowKey r) (newestFirst rows)"
proof -
  have "mset (map inId (newestFirst rows)) = mset (map inId rows)" by simp
  then have d: "distinct (map inId (newestFirst rows))" using assms mset_eq_imp_distinct_iff by blast
  show ?thesis unfolding sorted_wrt_iff_nth_less
  proof (intro allI impI)
    fix i j assume ij: "i < j" "j < length (newestFirst rows)"
    then have "rowKey (newestFirst rows ! j) \<le> rowKey (newestFirst rows ! i)"
      using newestFirst_sorted [of rows] unfolding sorted_wrt_iff_nth_less by blast
    moreover have "inId (newestFirst rows ! j) \<noteq> inId (newestFirst rows ! i)"
      using ij d nth_eq_iff_index_eq [OF d, of j i] by simp
    ultimately show "rowKey (newestFirst rows ! j) < rowKey (newestFirst rows ! i)"
      by (metis order.order_iff_strict prod.inject)
  qed
qed

text \<open>In a strictly descending list the rows below the \<open>k\<close>-th are those after it.\<close>

lemma filter_below:
  assumes "sorted_wrt (\<lambda>r s. rowKey s < rowKey r) rows" and "k < length rows"
  shows "filter (\<lambda>r. rowKey r < rowKey (rows ! k)) rows = drop (Suc k) rows"
  using assms
proof (induction rows arbitrary: k)
  case (Cons r rows)
  show ?case
  proof (cases k)
    case 0
    with Cons.prems(1) show ?thesis by (auto intro!: filter_True)
  next
    case (Suc j)
    with Cons.prems have "rowKey (rows ! j) < rowKey r" by auto
    then have "\<not> rowKey r < rowKey (rows ! j)" using less_asym by blast
    with Cons Suc show ?thesis by simp
  qed
qed simp

section \<open>Pages\<close>

text \<open>What a listing is to return in all, and the token that continues after its first \<open>k\<close> rows.\<close>

definition allRows :: "regDb \<Rightarrow> int \<Rightarrow> ListFilter \<Rightarrow> instrumentRow list" where
  "allRows d now req = newestFirst (filter (listMatches d now req) (rdInstruments d))"

definition tokenAt :: "tokenJson \<Rightarrow> instrumentRow list \<Rightarrow> nat \<Rightarrow> string" where
  "tokenAt tj rows k = (if k = 0 then [] else encodePageToken tj (inCreatedAt (rows ! (k - 1))) (inId (rows ! (k - 1))))"

definition cursorAt :: "instrumentRow list \<Rightarrow> nat \<Rightarrow> pageToken" where
  "cursorAt rows k = (if k = 0 then \<lparr>ptCreatedAt = zeroTime, ptID = []\<rparr>
     else \<lparr>ptCreatedAt = inCreatedAt (rows ! (k - 1)), ptID = inId (rows ! (k - 1))\<rparr>)"

definition pageSizeOf :: "ListFilter \<Rightarrow> nat" where
  "pageSizeOf req = (if lfPageSize req \<le> 0 then 50 else nat (lfPageSize req))"

text \<open>What the JSON of the tokens must do for the instruments at hand: it can be written and read back.\<close>

definition tokensOk :: "tokenJson \<Rightarrow> regDb \<Rightarrow> bool" where
  "tokensOk tj d \<longleftrightarrow> (\<forall>r \<in> set (rdInstruments d). inCreatedAt r \<noteq> zeroTime \<and> inId r \<noteq> [] \<and>
     (\<exists>b. b \<noteq> [] \<and> tjMarshal tj \<lparr>ptCreatedAt = inCreatedAt r, ptID = inId r\<rparr> = Some b \<and>
        tjUnmarshal tj b = Some \<lparr>ptCreatedAt = inCreatedAt r, ptID = inId r\<rparr>))"

lemma set_allRows: "set (allRows d now req) = {r \<in> set (rdInstruments d). listMatches d now req r}"
  by (auto simp: allRows_def)

lemma allRows_strict:
  assumes "regOk d"
  shows "sorted_wrt (\<lambda>r s. rowKey s < rowKey r) (allRows d now req)"
proof -
  have "distinct (map inId (filter (listMatches d now req) (rdInstruments d)))"
    using assms by (simp add: regOk_def distinct_map_filter)
  then show ?thesis unfolding allRows_def by (rule newestFirst_strict)
qed

lemma allRows_ids: "regOk d \<Longrightarrow> distinct (map inId (allRows d now req))"
  using mset_eq_imp_distinct_iff [of "map inId (allRows d now req)" "map inId (filter (listMatches d now req) (rdInstruments d))"]
  by (simp add: allRows_def regOk_def distinct_map_filter)

lemma tokenAt_decode:
  assumes "tokensOk tj d" and "set rows \<subseteq> set (rdInstruments d)" and "k \<le> length rows"
  shows "(if tokenAt tj rows k \<noteq> [] then decodePageToken tj (tokenAt tj rows k) else Some \<lparr>ptCreatedAt = zeroTime, ptID = []\<rparr>) =
    Some (cursorAt rows k)"
proof (cases k)
  case 0
  then show ?thesis by (simp add: tokenAt_def cursorAt_def)
next
  case (Suc j)
  with assms(2,3) have "rows ! j \<in> set (rdInstruments d)" by (auto simp: subset_iff)
  with assms(1) obtain b where "b \<noteq> []" "tjMarshal tj \<lparr>ptCreatedAt = inCreatedAt (rows ! j), ptID = inId (rows ! j)\<rparr> = Some b"
    "tjUnmarshal tj b = Some \<lparr>ptCreatedAt = inCreatedAt (rows ! j), ptID = inId (rows ! j)\<rparr>"
    by (auto simp: tokensOk_def)
  then show ?thesis using Suc by (simp add: tokenAt_def cursorAt_def encodePageToken_def decodePageToken_def)
qed

lemma listQuery_page:
  assumes "regOk d" and "tokensOk tj d" and "k \<le> length (allRows d now req)"
  shows "listQuery d now req (cursorAt (allRows d now req) k) n = take n (drop k (allRows d now req))"
proof -
  let ?all = "allRows d now req"
  have split: "filter (\<lambda>r. listMatches d now req r \<and> P r) rows = filter P (filter (listMatches d now req) rows)" for P rows
    by (simp add: conj_commute)
  have q: "listQuery d now req pt n = take n (filter (beforeCursor pt) ?all)" for pt
    unfolding listQuery_def split newestFirst_filter by (simp add: allRows_def newestFirst_filter)
  show ?thesis
  proof (cases k)
    case 0
    then show ?thesis by (simp add: q cursorAt_def beforeCursor_def)
  next
    case (Suc j)
    with assms(3) have j: "j < length ?all" by simp
    then have "?all ! j \<in> set (rdInstruments d)" using nth_mem [OF j] unfolding set_allRows by simp
    with assms(2) have "inCreatedAt (?all ! j) \<noteq> zeroTime" "inId (?all ! j) \<noteq> []" by (auto simp: tokensOk_def)
    then have "beforeCursor (cursorAt ?all k) = (\<lambda>r. rowKey r < rowKey (?all ! j))"
      using Suc by (auto simp: beforeCursor_def cursorAt_def fun_eq_iff)
    then show ?thesis using filter_below [OF allRows_strict [OF assms(1)] j] Suc by (simp add: q)
  qed
qed

lemma getAll_found:
  assumes "\<forall>r \<in> set rows. \<exists>rec. pgGet f order d (inId r) = Inr rec \<and> irID rec = inId r"
  shows "\<exists>recs. getAll f order d rows = Inr recs \<and> map irID recs = map inId rows \<and> (\<forall>rec \<in> set recs. pgGet f order d (irID rec) = Inr rec)"
  using assms
proof (induction rows)
  case (Cons r rows)
  then obtain recs where "getAll f order d rows = Inr recs" "map irID recs = map inId rows" "\<forall>rec \<in> set recs. pgGet f order d (irID rec) = Inr rec" by auto
  moreover obtain rec where "pgGet f order d (inId r) = Inr rec" "irID rec = inId r" using Cons.prems by auto
  ultimately show ?case by (intro exI [of _ "rec # recs"]) simp
qed simp

lemma listed_found:
  assumes "regOk d" and "\<not> rfFails f RsQuery" and "r \<in> set (allRows d now req)"
  shows "\<exists>rec. pgGet f order d (inId r) = Inr rec \<and> irID rec = inId r"
proof -
  from assms(3) have r: "r \<in> set (rdInstruments d)" "listMatches d now req r" by (simp_all add: set_allRows)
  then have "legsOf d (inId r) \<noteq> []" by (auto simp: listMatches_def list_ex_iff legsOf_def filter_empty_conv)
  from pgGet_stored [OF assms(1) r(1) this assms(2), of order] show ?thesis by force
qed

lemma pgList_page:
  assumes "regOk d" and "tokensOk tj d" and "\<not> rfFails f RsList" and "\<not> rfFails f RsQuery"
    and "k \<le> length (allRows d now req)" and "lfPageToken req = tokenAt tj (allRows d now req) k"
  shows "\<exists>recs. pgList tj f order now d req =
      Inr (recs, if k + pageSizeOf req < length (allRows d now req) then tokenAt tj (allRows d now req) (k + pageSizeOf req) else []) \<and>
    map irID recs = map inId (take (pageSizeOf req) (drop k (allRows d now req))) \<and>
    (\<forall>rec \<in> set recs. pgGet f order d (irID rec) = Inr rec)"
proof -
  let ?all = "allRows d now req" and ?n = "pageSizeOf req"
  let ?page = "take ?n (drop k ?all)"
  have n: "0 < ?n" by (simp add: pageSizeOf_def)
  have sub: "set ?all \<subseteq> set (rdInstruments d)" by (auto simp: set_allRows)
  have "set ?page \<subseteq> set ?all" by (meson set_drop_subset set_take_subset subset_trans)
  with getAll_found [of ?page f order d] listed_found [OF assms(1,4), of _ now req order]
  obtain recs where recs: "getAll f order d ?page = Inr recs" "map irID recs = map inId ?page" "\<forall>rec \<in> set recs. pgGet f order d (irID rec) = Inr rec"
    by blast
  define R where "R = take (?n + 1) (drop k ?all)"
  have q: "listQuery d now req (cursorAt ?all k) (?n + 1) = R" unfolding R_def by (rule listQuery_page [OF assms(1,2,5)])
  note eqn = pgList_def assms(6) tokenAt_decode [OF assms(2) sub assms(5)] Let_def pageSizeOf_def [symmetric] q option.case
  have "pgList tj f order now d req = Inr (recs, if k + ?n < length ?all then tokenAt tj ?all (k + ?n) else [])"
  proof (cases "k + ?n < length ?all")
    case True
    then have "?n + 1 \<le> length (drop k ?all)" by simp
    then have "length R = ?n + 1" "take ?n R = ?page" by (simp_all add: R_def min_def)
    moreover have "R ! (?n - 1) = ?all ! (k + ?n - 1)" using True n by (simp add: R_def add.commute)
    ultimately show ?thesis using True recs(1) n unfolding eqn by (simp add: assms(3) tokenAt_def)
  next
    case False
    then have "R = ?page" "\<not> ?n < length R" by (simp_all add: R_def)
    then show ?thesis using False recs(1) unfolding eqn by (simp add: assms(3))
  qed
  with recs show ?thesis by blast
qed

end
