(* ===== verification/RegistryProps.thy ===== *)
theory RegistryProps
  imports RegistryList
begin

text \<open>
  The properties of the registry: which instruments it accepts, how they are identified,
  that a stored instrument can be read back and never changes, and what its
  contradiction check and its rosters mean.
\<close>

section \<open>CreateInstrument in closed form\<close>

definition instrumentId :: "marshaller \<Rightarrow> Leg list \<Rightarrow> string" where
  "instrumentId marshal legs = sha256hex (concat (sort (hashesOf marshal legs)))"

definition instrumentExpiry :: "refStore \<Rightarrow> Leg list \<Rightarrow> int" where
  "instrumentExpiry rs legs = Max (insert 0 (legExpiry rs ` set legs))"

lemma instrumentId_mset: "mset legs = mset legs' \<Longrightarrow> instrumentId marshal legs = instrumentId marshal legs'"
  using properties_for_sort [of "sort (hashesOf marshal legs')" "hashesOf marshal legs"] hashesOf_mset [of legs legs' marshal]
  unfolding instrumentId_def by simp

lemma CreateInstrument_rejects:
  assumes "\<not> wellFormed marshal (refGet cache) legs"
  shows "\<exists>e. CreateInstrument marshal f now cache d legs = Some (d, Inl (valStatus e))"
proof (cases "validateStructural legs = None \<and> validateCrossLeg marshal legs = None")
  case True
  with assms validated_iff [of legs marshal "refGet cache"] obtain e where "validateEntities legs (refGet cache) = Inl e"
    by (cases "validateEntities legs (refGet cache)") auto
  with True show ?thesis by (auto simp: CreateInstrument_def)
qed (auto simp: CreateInstrument_def split: option.split)

lemma CreateInstrument_accepts:
  assumes "wellFormed marshal (refGet cache) legs"
  shows "CreateInstrument marshal f now cache d legs =
    (case pgCreate f now d (instrumentId marshal legs) (instrumentExpiry (refGet cache) legs) (map (legRowOf marshal (refGet cache)) legs) of
       (d', Inl e) \<Rightarrow> Some (d', Inl RgInternal)
     | (d', Inr old) \<Rightarrow> Some (d', Inr \<lparr>cirInstrumentId = instrumentId marshal legs,
         cirExpiryUnix = instrumentExpiry (refGet cache) legs, cirAlreadyExisted = old\<rparr>))"
proof -
  from assms validated_iff [of legs marshal "refGet cache"] obtain m where
    v: "validateStructural legs = None" "validateCrossLeg marshal legs = None" "validateEntities legs (refGet cache) = Inr m" by blast
  have "encodable marshal legs" "\<forall>l \<in> set legs. legOk (refGet cache) l" using assms by (simp_all add: wellFormed_def)
  then have "HashLegs marshal legs = Some (instrumentId marshal legs)"
      "collectLegs marshal legs (refGet cache) [] = Collected (map (legRowOf marshal (refGet cache)) legs)"
    by (simp_all add: HashLegs_eq instrumentId_def collectLegs_rows)
  moreover have "MaxExpiry legs m = instrumentExpiry (refGet cache) legs"
    using MaxExpiry_eq [OF v(3)] by (simp add: instrumentExpiry_def)
  ultimately show ?thesis using v by (simp add: CreateInstrument_def Let_def)
qed

section \<open>Inserting without faults\<close>

lemma insertEntities_calm: "\<exists>d'. insertEntities regCalm n i xs d = Some d'"
  by (induction xs arbitrary: d) (simp_all add: regCalm_def)

lemma insertLegs_calm:
  assumes "distinct (map lwLegHash rows)" and "\<forall>r \<in> set (rdLegs d). ldInstrument r = i \<longrightarrow> lwLegHash (ldLeg r) \<notin> lwLegHash ` set rows"
    and "\<forall>row \<in> set rows. lwGameID row \<in> rdGames d \<and> (\<forall>p. lwPlayerID row = Some p \<longrightarrow> p \<in> rdPlayers d)"
  shows "\<exists>d'. insertLegs regCalm i rows d = Some d'"
  using assms
proof (induction rows arbitrary: d)
  case (Cons row rows)
  let ?d1 = "d\<lparr>rdLegs := rdLegs d @ [\<lparr>ldId = rdNextLeg d, ldInstrument = i, ldLeg = row\<rparr>], rdNextLeg := rdNextLeg d + 1\<rparr>"
  have 1: "insertLeg regCalm i row d = Some (?d1, rdNextLeg d)"
    using Cons.prems by (auto simp: insertLeg_def regCalm_def list_ex_iff split: option.split)
  obtain d2 where 2: "insertEntities regCalm (rdNextLeg d) i (lwEntities row) ?d1 = Some d2"
    using insertEntities_calm by blast
  from insertEntities_frame [OF 2] have fr: "rdLegs d2 = rdLegs ?d1" "rdGames d2 = rdGames d" "rdPlayers d2 = rdPlayers d" by simp_all
  have "\<exists>d'. insertLegs regCalm i rows d2 = Some d'"
    by (rule Cons.IH) (use Cons.prems in \<open>auto simp: fr\<close>)
  with 1 2 show ?case by simp
qed simp

text \<open>The reference rows the cache was loaded from are still in the database.\<close>

definition refPresent :: "refStore \<Rightarrow> regDb \<Rightarrow> bool" where
  "refPresent rs d \<longleftrightarrow> fst ` set (rsGames rs) \<subseteq> rdGames d \<and> fst ` set (rsPlayers rs) \<subseteq> rdPlayers d"

lemma legOk_present:
  assumes "legOk rs l" and "refPresent rs d"
  shows "lgGameId l \<in> rdGames d \<and> (\<forall>p. lwPlayerID (legRowOf marshal rs l) = Some p \<longrightarrow> p \<in> rdPlayers d)"
  using assms(1)
proof (cases rule: legOk_cases)
  case (outcome g out)
  then show ?thesis using assms(2) map_of_SomeD [of "rsGames rs" "lgGameId l" g]
    by (force simp: refPresent_def legRowOf_player getGame_def)
next
  case (player g pp p)
  then show ?thesis using assms(2) map_of_SomeD [of "rsGames rs" "lgGameId l" g] map_of_SomeD [of "rsPlayers rs" "ppPlayerId pp" p]
    by (force simp: refPresent_def legRowOf_player getGame_def getPlayer_def)
qed

lemma pgCreate_calm:
  assumes "regOk d" and "refPresent rs d" and "wellFormed marshal rs legs"
  shows "\<exists>d'. pgCreate regCalm now d i expiry (map (legRowOf marshal rs) legs) = (d', Inr (i \<in> inId ` set (rdInstruments d)))"
proof (cases "i \<in> inId ` set (rdInstruments d)")
  case True
  then show ?thesis by (simp add: pgCreate_def createCheck_def list_ex_key regCalm_def)
next
  case False
  let ?d = "d\<lparr>rdInstruments := rdInstruments d @ [\<lparr>inId = i, inExpiry = expiry, inCreatedAt = now\<rparr>]\<rparr>"
  have wf: "distinct (hashesOf marshal legs)" "\<forall>l \<in> set legs. legOk rs l" using assms(3) by (simp_all add: wellFormed_def)
  have "\<exists>d'. insertLegs regCalm i (map (legRowOf marshal rs) legs) ?d = Some d'"
  proof (rule insertLegs_calm)
    show "distinct (map lwLegHash (map (legRowOf marshal rs) legs))" using wf(1) by (simp add: hashesOf_def comp_def)
  next
    show "\<forall>r \<in> set (rdLegs ?d). ldInstrument r = i \<longrightarrow> lwLegHash (ldLeg r) \<notin> lwLegHash ` set (map (legRowOf marshal rs) legs)"
      using regOk_no_legs [OF assms(1) False] by (auto simp: filter_empty_conv)
  next
    show "\<forall>row \<in> set (map (legRowOf marshal rs) legs). lwGameID row \<in> rdGames ?d \<and> (\<forall>p. lwPlayerID row = Some p \<longrightarrow> p \<in> rdPlayers ?d)"
      using wf(2) legOk_present [OF _ assms(2)] by auto
  qed
  then show ?thesis using False by (auto simp: pgCreate_def createCheck_def createInsert_def list_ex_key) (auto simp: regCalm_def)
qed

section \<open>A create is a run\<close>

lemma CreateInstrument_run:
  assumes "CreateInstrument marshal f now cache d legs = Some (d', r)"
  shows "regReach marshal (d, ps) (d', ps)"
proof (cases "wellFormed marshal (refGet cache) legs")
  case False
  with CreateInstrument_rejects [of marshal cache legs f now d] assms show ?thesis by (auto intro: reg_refl)
next
  case True
  from True validated_iff [of legs marshal "refGet cache"] obtain m where
    v: "validateStructural legs = None" "validateCrossLeg marshal legs = None" "validateEntities legs (refGet cache) = Inr m" by blast
  let ?i = "instrumentId marshal legs" and ?rows = "map (legRowOf marshal (refGet cache)) legs" and ?e = "instrumentExpiry (refGet cache) legs"
  have wf: "encodable marshal legs" "\<forall>l \<in> set legs. legOk (refGet cache) l" using True by (simp_all add: wellFormed_def)
  have h: "HashLegs marshal legs = Some ?i" "collectLegs marshal legs (refGet cache) [] = Collected ?rows" "MaxExpiry legs m = ?e"
    using wf MaxExpiry_eq [OF v(3)] by (simp_all add: HashLegs_eq instrumentId_def collectLegs_rows instrumentExpiry_def)
  obtain r' where r': "pgCreate f now d ?i ?e ?rows = (d', r')"
    using assms CreateInstrument_accepts [OF True] by (auto split: prod.splits sum.splits)
  show ?thesis
  proof (cases "createCheck f d ?i = Inr False")
    case check: True
    then have "createInsert f now d ?i ?e ?rows = (d', r')" using r' by (simp add: pgCreate_def)
    from inserted [of ?i ?e ?rows "(?i, ?e, ?rows) # ps", OF _ this]
    have "regStep marshal (d, (?i, ?e, ?rows) # ps) (d', ps)" by simp
    moreover have "regStep marshal (d, ps) (d, (?i, ?e, ?rows) # ps)"
      using checked [OF v h(1,2) check] by (simp add: h(3))
    ultimately show ?thesis by (meson reg_refl reg_step)
  next
    case False
    then have "d' = d" using r' by (auto simp: pgCreate_def split: sum.splits bool.splits)
    then show ?thesis by (simp add: reg_refl)
  qed
qed

lemma regReach_prepend: "regStep marshal s t \<Longrightarrow> regReach marshal t u \<Longrightarrow> regReach marshal s u"
  by (rotate_tac 1, induction rule: regReach.induct) (auto intro: regReach.intros)

lemma valid_mset:
  assumes "mset legs = mset legs'"
  shows "validateStructural legs = None \<longleftrightarrow> validateStructural legs' = None"
    and "validateCrossLeg marshal legs = None \<longleftrightarrow> validateCrossLeg marshal legs' = None"
proof -
  have s: "set legs = set legs'" "legs = [] \<longleftrightarrow> legs' = []" using assms mset_eq_setD by auto
  then show "validateStructural legs = None \<longleftrightarrow> validateStructural legs' = None"
    by (simp add: validateStructural_def structuralLegs_None)
  have "distinct (hashesOf marshal legs) = distinct (hashesOf marshal legs')" "distinct (outcomeGames legs) = distinct (outcomeGames legs')"
    using mset_eq_imp_distinct_iff [OF hashesOf_mset [OF assms]] mset_eq_imp_distinct_iff [of "outcomeGames legs" "outcomeGames legs'"] assms
    by (simp_all add: outcomeGames_def)
  with s show "validateCrossLeg marshal legs = None \<longleftrightarrow> validateCrossLeg marshal legs' = None"
    unfolding validateCrossLeg_None encodable_def by simp
qed

section \<open>Rosters\<close>

lemma addToRoster_slice:
  "set (slice (addToRoster p roster g) k) = set (slice roster k) \<union> (if k = gmId g \<and> plTeamId p \<in> {gmHomeTeamId g, gmAwayTeamId g} then {plId p} else {})"
  by (auto simp: addToRoster_def slice_update)

lemma addGames_slice:
  "set (slice (foldl (addToRoster p) roster gs) k) =
   set (slice roster k) \<union> {q. q = plId p \<and> (\<exists>g \<in> set gs. gmId g = k \<and> plTeamId p \<in> {gmHomeTeamId g, gmAwayTeamId g})}"
  by (induction gs arbitrary: roster) (auto simp: addToRoster_slice)

lemma addPlayers_slice:
  "set (slice (foldl (\<lambda>roster p. foldl (addToRoster p) roster gs) roster ps) k) =
   set (slice roster k) \<union> {plId p | p. p \<in> set ps \<and> (\<exists>g \<in> set gs. gmId g = k \<and> plTeamId p \<in> {gmHomeTeamId g, gmAwayTeamId g})}"
  by (induction ps arbitrary: roster) (auto simp: addGames_slice)

lemma foldl_update_distinct:
  assumes "distinct (map f rows)" and "set (map f rows) \<inter> set (map fst m) = {}"
  shows "foldl (\<lambda>m r. AList.update (f r) r m) m rows = m @ map (\<lambda>r. (f r, r)) rows"
  using assms
proof (induction rows arbitrary: m)
  case (Cons r rows)
  have "AList.update (f r) r m = m @ [(f r, r)]"
    using Cons.prems(2) by (induction m) auto
  with Cons show ?case by auto
qed simp

lemma foldl_update_keys:
  "distinct (map f rows) \<Longrightarrow> foldl (\<lambda>m r. AList.update (f r) r m) [] rows = map (\<lambda>r. (f r, r)) rows"
  using foldl_update_distinct [of f rows "[]"] by simp

lemma map_of_keys: "distinct (map f rows) \<Longrightarrow> r \<in> set rows \<Longrightarrow> map_of (map (\<lambda>r. (f r, r)) rows) (f r) = Some r"
  by (simp add: map_of_eq_Some_iff comp_def)

lemma listPlayersByGame_rows:
  assumes rows: "\<And>x. x \<in> set (slice (rsGameRoster rs) k) \<Longrightarrow> \<exists>p \<in> P. plId p = x \<and> getPlayer rs x = Some p"
    and found: "\<And>p. p \<in> P \<Longrightarrow> getPlayer rs (plId p) = Some p"
  shows "set (listPlayersByGame rs k) = {p \<in> P. playerInGame rs (plId p) k}"
proof (intro set_eqI iffI)
  fix q assume "q \<in> set (listPlayersByGame rs k)"
  then obtain x where x: "x \<in> set (slice (rsGameRoster rs) k)" "getPlayer rs x = Some q"
    by (auto simp: listPlayersByGame_def List.map_filter_def)
  with rows [OF x(1)] show "q \<in> {p \<in> P. playerInGame rs (plId p) k}" by (auto simp: playerInGame_def)
next
  fix q assume q: "q \<in> {p \<in> P. playerInGame rs (plId p) k}"
  then have "getPlayer rs (plId q) = Some q" "plId q \<in> set (slice (rsGameRoster rs) k)"
    using found by (simp_all add: playerInGame_def)
  then show "q \<in> set (listPlayersByGame rs k)"
    unfolding listPlayersByGame_def List.map_filter_def by force
qed

text \<open>The cache holds what the last complete load read.\<close>

lemma refStart_last:
  assumes "failed QTeams \<or> failed QPlayers \<or> failed QGames \<Longrightarrow> False" and "\<forall>(f, t) \<in> set later. f QTeams \<or> f QPlayers \<or> f QGames"
  shows "refStart (loads @ (failed, t) # later) c = refresh failed t newRefCache"
proof -
  have keep: "refStart later c' = c'" for c'
    using assms(2) by (induction later) (auto simp: refStart_def refresh_def loadRefFromDB_def)
  have "refresh failed t c' = refresh failed t newRefCache" for c'
    using assms(1) by (auto simp: refresh_def loadRefFromDB_def Let_def newRefCache_def)
  then show ?thesis using keep by (simp add: refStart_def)
qed

section \<open>Meaning of a player prop\<close>

text \<open>Whether a prop pays when the statistic has the value \<open>v\<close>.\<close>

definition propHolds :: "PlayerProp \<Rightarrow> int \<Rightarrow> bool" where
  "propHolds pp v \<longleftrightarrow>
     (ppComparator pp = Comparator_GT \<longrightarrow> ppThreshold pp < v) \<and> (ppComparator pp = Comparator_GTE \<longrightarrow> ppThreshold pp \<le> v) \<and>
     (ppComparator pp = Comparator_LT \<longrightarrow> v < ppThreshold pp) \<and> (ppComparator pp = Comparator_LTE \<longrightarrow> v \<le> ppThreshold pp) \<and>
     (ppComparator pp = Comparator_EQ \<longrightarrow> v = ppThreshold pp)"

lemma contradicts_sound: "contradicts a b \<Longrightarrow> \<not> (propHolds a v \<and> propHolds b v)"
  unfolding contradicts_def by (elim disjE) (auto simp: propHolds_def)

lemma crossLegs_no_group_error: "crossLegs marshal i legs seen games props \<noteq> Inl ContradictingProps"
proof (induction legs arbitrary: i seen games props)
  case (Cons l ls)
  then show ?case by (cases "LegHash marshal l"; cases "lgPredicate l") (simp_all add: Let_def)
qed simp

lemma validateCrossLeg_props:
  assumes "validateCrossLeg marshal legs = Some ContradictingProps"
  obtains key l l' a b where "l \<in> set legs" "l' \<in> set legs" "propOf key l = Some a" "propOf key l' = Some b" "contradicts a b"
proof (cases "crossLegs marshal 0 legs [] [] []")
  case (Inl e)
  with assms crossLegs_no_group_error [of marshal 0 legs "[]" "[]" "[]"] show ?thesis by (simp add: validateCrossLeg_def)
next
  case (Inr props)
  then have "props = addProps legs []" using crossLegs_Inr [of marshal 0 legs "[]" "[]" "[]" props] by simp
  with Inr assms have "list_ex (\<lambda>(key, pps). 2 \<le> length pps \<and> checkPropContradiction pps) (addProps legs [])"
    by (simp add: validateCrossLeg_def split: if_splits)
  with that show ?thesis unfolding contradicting_groups by blast
qed

section \<open>Reading all pages\<close>

text \<open>A client that follows the page tokens, for at most \<open>fuel\<close> calls.\<close>

fun readPages :: "tokenJson \<Rightarrow> regFaults \<Rightarrow> nat list \<Rightarrow> int \<Rightarrow> regDb \<Rightarrow> nat \<Rightarrow> ListFilter \<Rightarrow> InstrumentRecord list list option" where
  "readPages tj f order now d 0 req = None"
| "readPages tj f order now d (Suc fuel) req = (case ListInstruments tj f order now d req of
     Inl e \<Rightarrow> None
   | Inr (recs, next) \<Rightarrow>
       if next = [] then Some [recs]
       else map_option ((#) recs) (readPages tj f order now d fuel (req\<lparr>lfPageToken := next\<rparr>)))"

lemma recordToProto_id [simp]: "recordToProto = (\<lambda>rec. rec)"
  by (rule ext) (simp add: recordToProto_def)

lemma listMatches_token [simp]: "listMatches d now (req\<lparr>lfPageToken := t\<rparr>) = listMatches d now req"
  by (rule ext) (simp add: listMatches_def)

lemma filter_token [simp]:
  "allRows d now (req\<lparr>lfPageToken := t\<rparr>) = allRows d now req" "pageSizeOf (req\<lparr>lfPageToken := t\<rparr>) = pageSizeOf req"
  by (simp_all add: allRows_def pageSizeOf_def)

lemma tokenAt_nonempty:
  assumes "tokensOk tj d" and "set rows \<subseteq> set (rdInstruments d)" and "0 < k" and "k \<le> length rows"
  shows "tokenAt tj rows k \<noteq> []"
proof -
  have "rows ! (k - 1) \<in> set (rdInstruments d)" using assms(2-4) by (auto simp: subset_iff)
  with assms(1) obtain b where "b \<noteq> []" "tjMarshal tj \<lparr>ptCreatedAt = inCreatedAt (rows ! (k - 1)), ptID = inId (rows ! (k - 1))\<rparr> = Some b"
    by (auto simp: tokensOk_def)
  with assms(3) show ?thesis by (simp add: tokenAt_def encodePageToken_def)
qed

lemma readPages_from:
  assumes ok: "regOk d" "tokensOk tj d" "\<not> rfFails f RsList" "\<not> rfFails f RsQuery"
    and "k \<le> length (allRows d now req)" and "length (allRows d now req) - k < fuel"
    and "lfPageToken req = tokenAt tj (allRows d now req) k"
  shows "\<exists>pages. readPages tj f order now d fuel req = Some pages \<and>
    map irID (concat pages) = map inId (drop k (allRows d now req)) \<and>
    (\<forall>rec \<in> set (concat pages). pgGet f order d (irID rec) = Inr rec) \<and> (\<forall>page \<in> set pages. length page \<le> pageSizeOf req)"
  using assms(5-)
proof (induction fuel arbitrary: k req)
  case (Suc fuel)
  let ?all = "allRows d now req" and ?n = "pageSizeOf req"
  have n: "0 < ?n" by (simp add: pageSizeOf_def)
  have sub: "set ?all \<subseteq> set (rdInstruments d)" by (auto simp: set_allRows)
  from pgList_page [OF ok Suc.prems(1,3), of order] obtain recs where
    l: "ListInstruments tj f order now d req = Inr (recs, if k + ?n < length ?all then tokenAt tj ?all (k + ?n) else [])"
    and ids: "map irID recs = map inId (take ?n (drop k ?all))" and got: "\<forall>rec \<in> set recs. pgGet f order d (irID rec) = Inr rec"
    by (auto simp: ListInstruments_def)
  have len: "length recs \<le> ?n" using arg_cong [OF ids, of length] by simp
  show ?case
  proof (cases "k + ?n < length ?all")
    case True
    let ?req = "req\<lparr>lfPageToken := tokenAt tj ?all (k + ?n)\<rparr>"
    have "length ?all - (k + ?n) < fuel" using True n Suc.prems(2) by linarith
    with Suc.IH [of "k + ?n" ?req] True obtain pages where
      pages: "readPages tj f order now d fuel ?req = Some pages" "map irID (concat pages) = map inId (drop (k + ?n) ?all)"
      "\<forall>rec \<in> set (concat pages). pgGet f order d (irID rec) = Inr rec" "\<forall>page \<in> set pages. length page \<le> ?n" by auto
    have "drop k ?all = take ?n (drop k ?all) @ drop (k + ?n) ?all" by (metis append_take_drop_id drop_drop add.commute)
    then have "map irID recs @ map irID (concat pages) = map inId (drop k ?all)" unfolding ids pages(2) by (metis map_append)
    with True l pages got len tokenAt_nonempty [OF ok(2) sub, of "k + ?n"] n show ?thesis
      by (intro exI [of _ "recs # pages"]) auto
  next
    case False
    with l ids got len show ?thesis by (intro exI [of _ "[recs]"]) simp
  qed
qed simp

section \<open>A concrete instrument\<close>

definition demoGame :: Game where
  "demoGame = \<lparr>gmId = ''g'', gmLeague = 2, gmHomeTeamId = ''H'', gmAwayTeamId = ''A'', gmScheduledUnix = 100, gmExpiryUnix = 200\<rparr>"

definition demoPlayer :: Player where
  "demoPlayer = \<lparr>plId = ''p'', plName = ''Player'', plTeamId = ''H'', plPositions = [20]\<rparr>"

definition demoTables :: refTables where
  "demoTables = \<lparr>rtTeams = [], rtPlayers = [demoPlayer], rtGames = [demoGame]\<rparr>"

definition demoCache :: RefCache where
  "demoCache = refresh (\<lambda>_. False) demoTables newRefCache"

definition demoWin :: Leg where
  "demoWin = \<lparr>lgGameId = ''g'', lgPredicate = GameOutcome 1\<rparr>"

definition demoYards :: Leg where
  "demoYards = \<lparr>lgGameId = ''g'', lgPredicate =
     LegPlayerProp \<lparr>ppPlayerId = ''p'', ppPropType = 40, ppComparator = 1, ppThreshold = 250\<rparr>\<rparr>"

definition demoMarshal :: marshaller where
  "demoMarshal l = (if l = demoWin then Some ''w'' else if l = demoYards then Some ''y'' else None)"

definition demoReg :: regDb where
  "demoReg = emptyReg\<lparr>rdGames := rdGames emptyReg \<union> {''g''}, rdPlayers := rdPlayers emptyReg \<union> {''p''}\<rparr>"

definition demoTwo :: regDb where
  "demoTwo = emptyReg\<lparr>rdInstruments := [\<lparr>inId = ''a'', inExpiry = 200, inCreatedAt = 5\<rparr>, \<lparr>inId = ''b'', inExpiry = 300, inCreatedAt = 7\<rparr>],
     rdLegs := [\<lparr>ldId = 1, ldInstrument = ''a'', ldLeg = legRowOf demoMarshal (refGet demoCache) demoYards\<rparr>,
                \<lparr>ldId = 2, ldInstrument = ''b'', ldLeg = legRowOf demoMarshal (refGet demoCache) demoYards\<rparr>],
     rdLegEntities := [\<lparr>enLeg = 1, enInstrument = ''a'', enEntity = ''g''\<rparr>, \<lparr>enLeg = 2, enInstrument = ''b'', enEntity = ''g''\<rparr>],
     rdNextLeg := 3\<rparr>"

definition demoJson :: tokenJson where
  "demoJson = \<lparr>tjMarshal = (\<lambda>pt. Some (if ptID pt = ''a'' then ''1'' else ''2'')),
     tjUnmarshal = (\<lambda>s. Some (if s = ''1'' then \<lparr>ptCreatedAt = 5, ptID = ''a''\<rparr> else \<lparr>ptCreatedAt = 7, ptID = ''b''\<rparr>))\<rparr>"

definition demoFilter :: ListFilter where
  "demoFilter = \<lparr>lfEntityID = ''g'', lfLeague = 0, lfActiveOnly = False, lfPageSize = 1, lfPageToken = []\<rparr>"

lemma demo_legOk: "legOk (refGet demoCache) demoYards"
proof -
  have "structuralLeg demoYards = None" by code_simp
  moreover have "getGame (refGet demoCache) (lgGameId demoYards) = Some demoGame" by code_simp
  moreover have "entityLeg (refGet demoCache) demoYards demoGame = None" by code_simp
  ultimately show ?thesis unfolding legOk_iff by blast
qed

lemma demo_wellFormed: "wellFormed demoMarshal (refGet demoCache) [demoYards]"
proof -
  have "encodable demoMarshal [demoYards]" by (simp add: encodable_def demoMarshal_def)
  with demo_legOk show ?thesis
    by (auto simp: wellFormed_def hashesOf_def outcomeGames_def contradicts_irrefl)
qed

lemma demo_regOk: "regOk demoReg" "rdInstruments demoReg = []"
  by (simp_all add: regOk_def demoReg_def emptyReg_def)

lemma demo_present: "refPresent (refGet demoCache) demoReg"
proof -
  have "map fst (rsGames (refGet demoCache)) = [''g'']" "map fst (rsPlayers (refGet demoCache)) = [''p'']" by code_simp+
  then have "fst ` set (rsGames (refGet demoCache)) = {''g''}" "fst ` set (rsPlayers (refGet demoCache)) = {''p''}"
    by (metis list.set_map list.simps(15) empty_set)+
  then show ?thesis by (simp add: refPresent_def demoReg_def)
qed

section \<open>Properties\<close>

text \<open>C28: CreateInstrument always answers: whatever the request, the reference data and the faults, no nil
  game or player is ever dereferenced. It rejects, changing nothing, exactly the legs that are not well
  formed; for well-formed legs it answers with the hash of the legs and the latest expiry of their games,
  or with the store's failure.\<close>

theorem create_total:
  "\<exists>d' r. CreateInstrument marshal f now cache d legs = Some (d', r) \<and>
     (if wellFormed marshal (refGet cache) legs
      then r = Inl RgInternal \<or> (\<exists>old. r = Inr \<lparr>cirInstrumentId = instrumentId marshal legs,
             cirExpiryUnix = instrumentExpiry (refGet cache) legs, cirAlreadyExisted = old\<rparr>)
      else d' = d \<and> (\<exists>e. r = Inl (valStatus e)))"
proof (cases "wellFormed marshal (refGet cache) legs")
  case True
  then show ?thesis by (auto simp: CreateInstrument_accepts split: prod.split sum.split)
next
  case False
  with CreateInstrument_rejects [OF False, of f now d] show ?thesis by auto
qed

text \<open>C29: A well-formed new instrument is stored when the database does its part, and reading it back gives
  its legs, in some order, and its expiry. Creating it again, with the legs in any order and under any
  faults, changes nothing and reports that it existed or fails.\<close>

theorem create_then_get:
  assumes "regOk d" and "refPresent (refGet cache) d" and "wellFormed marshal (refGet cache) legs"
    and "instrumentId marshal legs \<notin> inId ` set (rdInstruments d)"
  shows "\<exists>d'. CreateInstrument marshal regCalm now cache d legs = Some (d', Inr \<lparr>cirInstrumentId = instrumentId marshal legs,
      cirExpiryUnix = instrumentExpiry (refGet cache) legs, cirAlreadyExisted = False\<rparr>) \<and>
    (\<forall>order. \<exists>ls. GetInstrument regCalm order d' (instrumentId marshal legs) =
       Inr \<lparr>irID = instrumentId marshal legs, irLegs = ls, irExpiryUnix = instrumentExpiry (refGet cache) legs\<rparr> \<and> mset ls = mset legs) \<and>
    (\<forall>legs' f' now'. mset legs' = mset legs \<longrightarrow>
       (\<exists>r. CreateInstrument marshal f' now' cache d' legs' = Some (d', r) \<and>
          (r = Inl RgInternal \<or> r = Inr \<lparr>cirInstrumentId = instrumentId marshal legs,
             cirExpiryUnix = instrumentExpiry (refGet cache) legs, cirAlreadyExisted = True\<rparr>)))"
proof -
  let ?rs = "refGet cache" and ?i = "instrumentId marshal legs" and ?e = "instrumentExpiry (refGet cache) legs"
  let ?rows = "map (legRowOf marshal ?rs) legs"
  have ok: "\<forall>l \<in> set legs. legOk ?rs l" and ne: "?rows \<noteq> []" using assms(3) by (simp_all add: wellFormed_def)
  obtain d' where c: "pgCreate regCalm now d ?i ?e ?rows = (d', Inr False)"
    using pgCreate_calm [OF assms(1-3), of now ?i ?e] assms(4) by auto
  then have create: "CreateInstrument marshal regCalm now cache d legs = Some (d', Inr \<lparr>cirInstrumentId = ?i, cirExpiryUnix = ?e, cirAlreadyExisted = False\<rparr>)"
    by (simp add: CreateInstrument_accepts [OF assms(3)])
  have legs: "map legOfRow ?rows = legs" using ok by (auto simp: legOfRow_legRowOf intro: map_idI)
  have get: "\<exists>ls. GetInstrument regCalm order d' ?i = Inr \<lparr>irID = ?i, irLegs = ls, irExpiryUnix = ?e\<rparr> \<and> mset ls = mset legs" for order
    using pg.create_new [OF assms(1), of "(regCalm, now)" ?i ?e ?rows d' order] c ne unfolding legs
    by (auto simp: GetInstrument_def recordToProto_def)
  have again: "\<exists>r. CreateInstrument marshal f' now' cache d' legs' = Some (d', r) \<and>
      (r = Inl RgInternal \<or> r = Inr \<lparr>cirInstrumentId = ?i, cirExpiryUnix = ?e, cirAlreadyExisted = True\<rparr>)"
    if m: "mset legs' = mset legs" for legs' f' now'
  proof -
    have same: "wellFormed marshal ?rs legs'" "instrumentId marshal legs' = ?i" "instrumentExpiry ?rs legs' = ?e"
      using wellFormed_mset [OF m [symmetric] assms(3)] instrumentId_mset [OF m] mset_eq_setD [OF m] by (simp_all add: instrumentExpiry_def)
    obtain d'' r where c': "pgCreate f' now' d' ?i ?e (map (legRowOf marshal ?rs) legs') = (d'', r)" by fastforce
    from pg.create_again [OF assms(1), of "(regCalm, now)" ?i ?e ?rows d' "(f', now')"] c ne c'
    have "d'' = d' \<and> (\<forall>b. r = Inr b \<longrightarrow> b)" by fastforce
    then show ?thesis using c' CreateInstrument_accepts [OF same(1), of f' now' d'] same(2,3) by (cases r) auto
  qed
  from create get again show ?thesis by blast
qed

theorem create_then_get_witness:
  "\<exists>d'. CreateInstrument demoMarshal regCalm 7 demoCache demoReg [demoYards] = Some (d', Inr \<lparr>cirInstrumentId = instrumentId demoMarshal [demoYards],
      cirExpiryUnix = 200, cirAlreadyExisted = False\<rparr>)"
proof -
  have "legExpiry (refGet demoCache) demoYards = 200" by code_simp
  then have "instrumentExpiry (refGet demoCache) [demoYards] = 200" by (simp add: instrumentExpiry_def)
  with create_then_get [of demoReg demoCache demoMarshal "[demoYards]" 7] demo_regOk demo_present demo_wellFormed show ?thesis by auto
qed

text \<open>C30: With any number of creates in flight, and any faults, what can be read of an instrument is genuine
  and permanent: its id is the hash of the legs that are read, they pass the structural and the cross-leg
  checks, and every later state of the registry gives the same answer. Every CreateInstrument call is
  itself such a run.\<close>

theorem registry_integrity:
  assumes "regReach marshal (emptyReg, []) (d, ps)" and "GetInstrument f order d i = Inr rec"
  shows "irID rec = i \<and> HashLegs marshal (irLegs rec) = Some i \<and>
    validateStructural (irLegs rec) = None \<and> validateCrossLeg marshal (irLegs rec) = None \<and>
    (\<forall>d' ps'. regReach marshal (d, ps) (d', ps') \<longrightarrow> GetInstrument f order d' i = Inr rec) \<and>
    (\<forall>f' now cache legs d' r. CreateInstrument marshal f' now cache d legs = Some (d', r) \<longrightarrow> regReach marshal (d, ps) (d', ps))"
proof -
  have inv: "regInv marshal (d, ps)" by (rule regReach_inv [OF assms(1) regInv_empty])
  then have ok: "regOk d" by (simp add: regInv_def)
  have g: "pgGet f order d i = Inr rec"
    using assms(2) by (auto simp: GetInstrument_def recordToProto_def split: sum.splits storeErr.splits)
  from pgGet_found [OF ok g] obtain inst where inst: "inst \<in> set (rdInstruments d)" "inId inst = i" "irID rec = i"
    and m: "mset (irLegs rec) = mset (map legOfRow (legsOf d i))" by blast
  have gen: "genuine marshal i (inExpiry inst) (legsOf d i)" using inv inst by (auto simp: regInv_def)
  have later: "GetInstrument f order d' i = Inr rec" if "regReach marshal (d, ps) (d', ps')" for d' ps'
    using regReach_get [OF that inv, of f order i rec] g by (simp add: GetInstrument_def recordToProto_def)
  show ?thesis using gen inst(3) later CreateInstrument_run HashLegs_mset [OF m] valid_mset [OF m]
    by (simp add: genuine_def)
qed

theorem registry_integrity_witness:
  "\<exists>d. regReach demoMarshal (emptyReg, []) (d, []) \<and>
     (\<forall>order. \<exists>rec. GetInstrument regCalm order d (instrumentId demoMarshal [demoYards]) = Inr rec \<and>
        HashLegs demoMarshal (irLegs rec) = Some (instrumentId demoMarshal [demoYards]))"
proof -
  let ?i = "instrumentId demoMarshal [demoYards]" and ?e = "instrumentExpiry (refGet demoCache) [demoYards]"
  let ?rows = "map (legRowOf demoMarshal (refGet demoCache)) [demoYards]"
  obtain d where c: "pgCreate regCalm 7 demoReg ?i ?e ?rows = (d, Inr False)"
    using pgCreate_calm [OF demo_regOk(1) demo_present demo_wellFormed, of 7 ?i ?e] demo_regOk(2) by auto
  then have "\<exists>r. CreateInstrument demoMarshal regCalm 7 demoCache demoReg [demoYards] = Some (d, r)"
    by (simp add: CreateInstrument_accepts [OF demo_wellFormed])
  then have "regReach demoMarshal (demoReg, []) (d, [])" using CreateInstrument_run by blast
  moreover have "regStep demoMarshal (emptyReg, []) (demoReg, [])" unfolding demoReg_def by (rule refRows)
  ultimately have reach: "regReach demoMarshal (emptyReg, []) (d, [])" by (rule regReach_prepend [rotated])
  have "\<exists>rec. GetInstrument regCalm order d ?i = Inr rec" for order
    using pg.create_new [OF demo_regOk(1), of "(regCalm, 7)" ?i ?e ?rows d order] c by (auto simp: GetInstrument_def)
  with reach registry_integrity [OF reach] show ?thesis by blast
qed

text \<open>C31: The instrument id identifies the legs: reordering them does not change it, and two lists of legs
  with the same id are the same up to order, unless two different texts among those hashed for the two
  instruments collide under SHA-256. The encoding of legs is assumed injective.\<close>

theorem instrument_identity:
  assumes "\<And>l l' s. marshal l = Some s \<Longrightarrow> marshal l' = Some s \<Longrightarrow> l = l'"
    and "HashLegs marshal legs = Some i" and "HashLegs marshal legs' = Some i'"
  shows "(mset legs = mset legs' \<longrightarrow> i = i') \<and>
    (i = i' \<longrightarrow> mset legs = mset legs' \<or>
      (\<exists>x \<in> hashedTexts marshal legs \<union> hashedTexts marshal legs'. \<exists>y \<in> hashedTexts marshal legs \<union> hashedTexts marshal legs'.
         x \<noteq> y \<and> sha256hex x = sha256hex y))"
proof (intro conjI impI)
  assume "mset legs = mset legs'"
  from HashLegs_mset [OF this, of marshal] assms(2,3) show "i = i'" by simp
next
  assume "i = i'"
  with assms(3) have h: "HashLegs marshal legs' = Some i" by simp
  show "mset legs = mset legs' \<or>
      (\<exists>x \<in> hashedTexts marshal legs \<union> hashedTexts marshal legs'. \<exists>y \<in> hashedTexts marshal legs \<union> hashedTexts marshal legs'.
         x \<noteq> y \<and> sha256hex x = sha256hex y)"
  proof (cases "inj_on sha256hex (hashedTexts marshal legs \<union> hashedTexts marshal legs')")
    case True
    have "mset legs = mset legs'" by (rule HashLegs_identifies [OF assms(2) h assms(1) True])
    then show ?thesis by (rule disjI1)
  next
    case False
    then show ?thesis unfolding inj_on_def by (intro disjI2) blast
  qed
qed

theorem instrument_identity_witness:
  "HashLegs demoMarshal [demoWin, demoYards] = HashLegs demoMarshal [demoYards, demoWin]"
proof -
  have "\<And>l l' s. demoMarshal l = Some s \<Longrightarrow> demoMarshal l' = Some s \<Longrightarrow> l = l'"
    by (auto simp: demoMarshal_def split: if_splits)
  moreover have "encodable demoMarshal [demoWin, demoYards]" "encodable demoMarshal [demoYards, demoWin]"
    by (simp_all add: encodable_def demoMarshal_def)
  then have "HashLegs demoMarshal [demoWin, demoYards] = Some (instrumentId demoMarshal [demoWin, demoYards])"
    "HashLegs demoMarshal [demoYards, demoWin] = Some (instrumentId demoMarshal [demoYards, demoWin])"
    by (simp_all add: HashLegs_eq instrumentId_def)
  ultimately show ?thesis
    using instrument_identity [of demoMarshal "[demoWin, demoYards]" _ "[demoYards, demoWin]"] by (simp add: add_mset_commute)
qed

text \<open>C32: The cross-leg check is sound and not complete: when it rejects player props as contradicting, two of
  the legs are about the same statistic of the same player in the same game and no value of it makes both
  pay; but a GT and an LT leg that leave no value between them are never reported.\<close>

theorem contradiction_check:
  "(validateCrossLeg marshal legs = Some ContradictingProps \<longrightarrow>
      (\<exists>l \<in> set legs. \<exists>l' \<in> set legs. \<exists>key a b. propOf key l = Some a \<and> propOf key l' = Some b \<and>
         (\<forall>v. \<not> (propHolds a v \<and> propHolds b v)))) \<and>
   (ppComparator gt = Comparator_GT \<and> ppComparator lt = Comparator_LT \<and> ppThreshold lt \<le> ppThreshold gt + 1 \<longrightarrow>
      \<not> checkPropContradiction [gt, lt] \<and> \<not> checkPropContradiction [lt, gt] \<and> (\<forall>v. \<not> (propHolds gt v \<and> propHolds lt v)))"
proof (intro conjI impI)
  assume "validateCrossLeg marshal legs = Some ContradictingProps"
  then show "\<exists>l \<in> set legs. \<exists>l' \<in> set legs. \<exists>key a b. propOf key l = Some a \<and> propOf key l' = Some b \<and>
         (\<forall>v. \<not> (propHolds a v \<and> propHolds b v))"
    by (rule validateCrossLeg_props) (use contradicts_sound in blast)
qed (auto simp: contradicts_def propHolds_def)

theorem contradiction_check_witness:
  "\<not> checkPropContradiction [\<lparr>ppPlayerId = ''p'', ppPropType = 40, ppComparator = 1, ppThreshold = 300\<rparr>,
      \<lparr>ppPlayerId = ''p'', ppPropType = 40, ppComparator = 3, ppThreshold = 200\<rparr>]"
  using contradiction_check [of demoMarshal "[]" "\<lparr>ppPlayerId = ''p'', ppPropType = 40, ppComparator = 1, ppThreshold = 300\<rparr>"
      "\<lparr>ppPlayerId = ''p'', ppPropType = 40, ppComparator = 3, ppThreshold = 200\<rparr>"] by simp

text \<open>After a refresh that read all three tables, a player is on the roster of a game exactly when the
  game exists and one of its two teams is the player's, the players listed for a game are exactly those, and
  every lookup returns the row of the table; a refresh that failed leaves the cache as it was.\<close>

lemma roster_exact:
  assumes "distinct (map plId (rtPlayers t))" and "distinct (map gmId (rtGames t))"
  shows "(let rs = refGet (refresh failed t c) in
     if failed QTeams \<or> failed QPlayers \<or> failed QGames then refresh failed t c = c
     else (\<forall>p \<in> set (rtPlayers t). \<forall>g \<in> set (rtGames t). getPlayer rs (plId p) = Some p \<and> getGame rs (gmId g) = Some g \<and>
             playerInGame rs (plId p) (gmId g) = (plTeamId p \<in> {gmHomeTeamId g, gmAwayTeamId g}) \<and>
             (p \<in> set (listPlayersByGame rs (gmId g))) = (plTeamId p \<in> {gmHomeTeamId g, gmAwayTeamId g})) \<and>
          (\<forall>k. set (listPlayersByGame rs k) \<subseteq> set (rtPlayers t)) \<and> (\<forall>k p. playerInGame rs p k \<longrightarrow> k \<in> gmId ` set (rtGames t)))"
proof (cases "failed QTeams \<or> failed QPlayers \<or> failed QGames")
  case True
  then show ?thesis by (auto simp: refresh_def loadRefFromDB_def)
next
  case False
  define rs where "rs = refGet (refresh failed t c)"
  have pl: "rsPlayers rs = map (\<lambda>r. (plId r, r)) (rtPlayers t)" and gm: "rsGames rs = map (\<lambda>r. (gmId r, r)) (rtGames t)"
    and ro: "rsGameRoster rs = buildRoster (rsPlayers rs) (rsGames rs)"
    using False by (simp_all add: rs_def refGet_def refresh_def loadRefFromDB_def Let_def foldl_update_keys [OF assms(1)] foldl_update_keys [OF assms(2)])
  have getP: "getPlayer rs (plId p) = Some p" if "p \<in> set (rtPlayers t)" for p
    unfolding getPlayer_def pl by (rule map_of_keys [OF assms(1) that])
  have getG: "getGame rs (gmId g) = Some g" if "g \<in> set (rtGames t)" for g
    unfolding getGame_def gm by (rule map_of_keys [OF assms(2) that])
  have roster: "set (slice (rsGameRoster rs) k) =
      {plId p | p. p \<in> set (rtPlayers t) \<and> (\<exists>g \<in> set (rtGames t). gmId g = k \<and> plTeamId p \<in> {gmHomeTeamId g, gmAwayTeamId g})}" for k
    unfolding ro buildRoster_def addPlayers_slice by (simp add: pl gm slice_def comp_def)
  have uniqP: "p = q" if "p \<in> set (rtPlayers t)" "q \<in> set (rtPlayers t)" "plId p = plId q" for p q
    using getP that by (metis option.inject)
  have uniqG: "g = h" if "g \<in> set (rtGames t)" "h \<in> set (rtGames t)" "gmId g = gmId h" for g h
    using getG that by (metis option.inject)
  have inG: "playerInGame rs (plId p) (gmId g) = (plTeamId p \<in> {gmHomeTeamId g, gmAwayTeamId g})"
    if "p \<in> set (rtPlayers t)" "g \<in> set (rtGames t)" for p g
    unfolding playerInGame_def roster using that uniqP uniqG by blast
  have listed: "set (listPlayersByGame rs k) = {p \<in> set (rtPlayers t). playerInGame rs (plId p) k}" for k
    by (rule listPlayersByGame_rows) (use getP in \<open>auto simp: roster\<close>)
  have known: "k \<in> gmId ` set (rtGames t)" if "playerInGame rs p k" for p k
    using that unfolding playerInGame_def roster by blast
  show ?thesis unfolding Let_def rs_def [symmetric] using False getP getG inG listed known by simp
qed

lemma roster_exact_demo:
  "playerInGame (refGet demoCache) ''p'' ''g''"
  using roster_exact [of demoTables "\<lambda>_. False" newRefCache]
  by (simp add: Let_def demoCache_def demoTables_def demoPlayer_def demoGame_def)

text \<open>C33: A client that follows the page tokens of ListInstruments over an unchanged registry reaches the end,
  gets every instrument that matches its filter exactly once, newest first, in pages of at most the size it
  asked for, each as GetInstrument returns it.\<close>

theorem paging_complete:
  assumes "regOk d" and "tokensOk tj d" and "\<not> rfFails f RsList" and "\<not> rfFails f RsQuery"
    and "lfPageToken req = []" and "length (rdInstruments d) < fuel"
  shows "\<exists>pages. readPages tj f order now d fuel req = Some pages \<and>
    distinct (map irID (concat pages)) \<and>
    set (map irID (concat pages)) = {inId r | r. r \<in> set (rdInstruments d) \<and> listMatches d now req r} \<and>
    map irID (concat pages) = map inId (newestFirst (filter (listMatches d now req) (rdInstruments d))) \<and>
    (\<forall>rec \<in> set (concat pages). GetInstrument f order d (irID rec) = Inr rec) \<and>
    (\<forall>page \<in> set pages. length page \<le> pageSizeOf req)"
proof -
  have "length (allRows d now req) \<le> length (rdInstruments d)"
    by (simp add: allRows_def newestFirst_def)
  with assms(6) have fuel: "length (allRows d now req) - 0 < fuel" by simp
  from readPages_from [OF assms(1-4) _ fuel, of order] assms(5) obtain pages where
    p: "readPages tj f order now d fuel req = Some pages" "map irID (concat pages) = map inId (allRows d now req)"
    "\<forall>rec \<in> set (concat pages). pgGet f order d (irID rec) = Inr rec" "\<forall>page \<in> set pages. length page \<le> pageSizeOf req"
    by (auto simp: tokenAt_def)
  have "set (map irID (concat pages)) = {inId r | r. r \<in> set (rdInstruments d) \<and> listMatches d now req r}"
    unfolding p(2) set_map set_allRows by blast
  moreover have "distinct (map irID (concat pages))" unfolding p(2) by (rule allRows_ids [OF assms(1)])
  moreover have "\<forall>rec \<in> set (concat pages). GetInstrument f order d (irID rec) = Inr rec" using p(3) by (simp add: GetInstrument_def)
  ultimately show ?thesis using p unfolding allRows_def by blast
qed

theorem paging_complete_witness:
  "\<exists>pages. readPages demoJson regCalm [] 0 demoTwo 3 demoFilter = Some pages \<and> set (map irID (concat pages)) = {''a'', ''b''}"
proof -
  have r: "rdInstruments demoTwo = [\<lparr>inId = ''a'', inExpiry = 200, inCreatedAt = 5\<rparr>, \<lparr>inId = ''b'', inExpiry = 300, inCreatedAt = 7\<rparr>]"
    by (simp add: demoTwo_def)
  have "regOk demoTwo" by (simp add: regOk_def demoTwo_def)
  moreover have "tokensOk demoJson demoTwo" by (simp add: tokensOk_def r demoJson_def zeroTime_def)
  moreover have "listMatches demoTwo 0 demoFilter x" if "x \<in> set (rdInstruments demoTwo)" for x
    using that unfolding r by (auto simp: listMatches_def demoTwo_def demoFilter_def)
  then have "{inId x | x. x \<in> set (rdInstruments demoTwo) \<and> listMatches demoTwo 0 demoFilter x} = inId ` set (rdInstruments demoTwo)" by blast
  then have "{inId x | x. x \<in> set (rdInstruments demoTwo) \<and> listMatches demoTwo 0 demoFilter x} = {''a'', ''b''}" by (simp add: r)
  moreover have "\<not> rfFails regCalm RsList" "\<not> rfFails regCalm RsQuery" "lfPageToken demoFilter = []" "length (rdInstruments demoTwo) < 3"
    by (simp_all add: regCalm_def demoFilter_def r)
  ultimately show ?thesis using paging_complete [of demoTwo demoJson regCalm demoFilter 3 "[]" 0] by metis
qed

end
