(* ===== verification/GoTime.thy ===== *)
theory GoTime
  imports Decimal
begin

text \<open>
  The parts of Go's \<open>time\<close> and \<open>strings\<close> packages that the vendor reference data uses: parsing an
  ISO 8601 time, the UTC date of a Unix time, and the fields of a string between white
  space. Strings are UTF-8.
\<close>

section \<open>Dates\<close>

text \<open>Days since 1 January 1970 in the Gregorian calendar, counted in eras of 400 years that start in March.\<close>

definition daysFromCivil :: "int \<Rightarrow> int \<Rightarrow> int \<Rightarrow> int" where
  "daysFromCivil year month day =
     (let y = (if month \<le> 2 then year - 1 else year);
          yoe = y mod 400;
          doy = (153 * (if 2 < month then month - 3 else month + 9) + 2) div 5 + day - 1
      in y div 400 * 146097 + (yoe * 365 + yoe div 4 - yoe div 100 + doy) - 719468)"

definition civilFromDays :: "int \<Rightarrow> int \<times> int \<times> int" where
  "civilFromDays days =
     (let z = days + 719468;
          doe = z mod 146097;
          yoe = (doe - doe div 1460 + doe div 36524 - doe div 146096) div 365;
          doy = doe - (365 * yoe + yoe div 4 - yoe div 100);
          mp = (5 * doy + 2) div 153;
          day = doy - (153 * mp + 2) div 5 + 1;
          month = (if mp < 10 then mp + 3 else mp - 9);
          year = yoe + z div 146097 * 400
      in (if month \<le> 2 then year + 1 else year, month, day))"

definition isLeap :: "int \<Rightarrow> bool" where
  "isLeap year \<longleftrightarrow> year mod 4 = 0 \<and> (year mod 100 \<noteq> 0 \<or> year mod 400 = 0)"

definition daysIn :: "int \<Rightarrow> int \<Rightarrow> int" where
  "daysIn month year =
     (if month = 2 then (if isLeap year then 29 else 28)
      else if month \<in> {4, 6, 9, 11} then 30 else 31)"

text \<open>\<open>appendInt\<close>: a number padded with zeros to a width.\<close>

definition padInt :: "nat \<Rightarrow> int \<Rightarrow> string" where
  "padInt w n = (let s = natStr (nat \<bar>n\<bar>) in (if n < 0 then ''-'' else []) @ replicate (w - length s) CHR ''0'' @ s)"

text \<open>\<open>time.Unix (t, 0).UTC().Format ("20060102")\<close>.\<close>

definition formatDate :: "int \<Rightarrow> string" where
  "formatDate unix = (let (y, m, d) = civilFromDays (unix div 86400) in padInt 4 y @ padInt 2 m @ padInt 2 d)"

section \<open>Parsing\<close>

definition isDigit :: "char \<Rightarrow> bool" where
  "isDigit c \<longleftrightarrow> 48 \<le> (of_char c :: nat) \<and> (of_char c :: nat) < 58"

fun getnum :: "bool \<Rightarrow> string \<Rightarrow> (int \<times> string) option" where
  "getnum fixed [] = None"
| "getnum fixed [a] = (if isDigit a \<and> \<not> fixed then Some (int (digitVal a), []) else None)"
| "getnum fixed (a # b # s) =
     (if \<not> isDigit a then None
      else if isDigit b then Some (int (10 * digitVal a + digitVal b), s)
      else if fixed then None
      else Some (int (digitVal a), b # s))"

fun getYear :: "string \<Rightarrow> (int \<times> string) option" where
  "getYear (a # b # c # d # s) = (if list_all isDigit [a, b, c, d] then Some (int (readNat [a, b, c, d]), s) else None)"
| "getYear _ = None"

fun skipChar :: "char \<Rightarrow> string \<Rightarrow> string option" where
  "skipChar c [] = None"
| "skipChar c (x # s) = (if x = c then Some s else None)"

text \<open>A fraction of a second is accepted after the seconds and does not change the Unix time.\<close>

fun skipFraction :: "string \<Rightarrow> string" where
  "skipFraction (p # q # s) = (if p \<in> {CHR ''.'', CHR '',''} \<and> isDigit q then dropWhile isDigit (q # s) else p # q # s)"
| "skipFraction s = s"

definition parseDateTime :: "string \<Rightarrow> (int \<times> string) option" where
  "parseDateTime s = do {
     (year, s) \<leftarrow> getYear s;
     s \<leftarrow> skipChar CHR ''-'' s;
     (month, s) \<leftarrow> getnum True s;
     s \<leftarrow> skipChar CHR ''-'' s;
     (day, s) \<leftarrow> getnum True s;
     s \<leftarrow> skipChar CHR ''T'' s;
     (hour, s) \<leftarrow> getnum False s;
     s \<leftarrow> skipChar CHR '':'' s;
     (minute, s) \<leftarrow> getnum True s;
     s \<leftarrow> skipChar CHR '':'' s;
     (sec, s) \<leftarrow> getnum True s;
     if 1 \<le> month \<and> month \<le> 12 \<and> 1 \<le> day \<and> day \<le> daysIn month year \<and> hour < 24 \<and> minute < 60 \<and> sec < 60
     then Some (daysFromCivil year month day * 86400 + hour * 3600 + minute * 60 + sec, skipFraction s) else None
   }"

fun parseOffset :: "string \<Rightarrow> (int \<times> string) option" where
  "parseOffset [] = None"
| "parseOffset (c # s) =
     (if c = CHR ''Z'' then Some (0, s)
      else if c = CHR ''+'' \<or> c = CHR ''-'' then do {
        (hr, s) \<leftarrow> getnum True s;
        s \<leftarrow> skipChar CHR '':'' s;
        (mm, s) \<leftarrow> getnum True s;
        if hr \<le> 24 \<and> mm \<le> 60 then Some ((if c = CHR ''-'' then -1 else 1) * (hr * 3600 + mm * 60), s) else None
      }
      else None)"

text \<open>The two layouts in use: a literal Z, or Z or an offset.\<close>

datatype layout = LayoutZ | LayoutOffset

definition timeParse :: "layout \<Rightarrow> string \<Rightarrow> int option" where
  "timeParse layout s = do {
     (t, s) \<leftarrow> parseDateTime s;
     case layout of
       LayoutZ \<Rightarrow> do { s \<leftarrow> skipChar CHR ''Z'' s; if s = [] then Some t else None }
     | LayoutOffset \<Rightarrow> do { (off, s) \<leftarrow> parseOffset s; if s = [] then Some (t - off) else None }
   }"

section \<open>Fields\<close>

text \<open>The length of the white space at the front of a string, 0 if there is none.\<close>

fun wsLen :: "string \<Rightarrow> nat" where
  "wsLen s = (case map of_char s :: nat list of
     [] \<Rightarrow> 0
   | a # bs \<Rightarrow>
       if a \<in> {9, 10, 11, 12, 13, 32} then 1
       else (case bs of
         [] \<Rightarrow> 0
       | b # cs \<Rightarrow>
           if a = 0xC2 \<and> (b = 0x85 \<or> b = 0xA0) then 2
           else (case cs of
             [] \<Rightarrow> 0
           | c # _ \<Rightarrow>
               if (a = 0xE1 \<and> b = 0x9A \<and> c = 0x80) \<or> (a = 0xE2 \<and> b = 0x80 \<and> (0x80 \<le> c \<and> c \<le> 0x8A \<or> c = 0xA8 \<or> c = 0xA9 \<or> c = 0xAF)) \<or>
                  (a = 0xE2 \<and> b = 0x81 \<and> c = 0x9F) \<or> (a = 0xE3 \<and> b = 0x80 \<and> c = 0x80)
               then 3 else 0)))"

declare wsLen.simps [simp del]

fun fieldsLoop :: "string \<Rightarrow> string \<Rightarrow> string list" where
  "fieldsLoop cur [] = (if cur = [] then [] else [cur])"
| "fieldsLoop cur (c # s) = (let n = wsLen (c # s) in
     if n = 0 then fieldsLoop (cur @ [c]) s
     else (if cur = [] then [] else [cur]) @ fieldsLoop [] (drop (n - 1) s))"

definition fields :: "string \<Rightarrow> string list" where
  "fields s = fieldsLoop [] s"

end
