(* ===== verification/VendorStore.thy ===== *)
theory VendorStore
  imports RefStore GoTime
begin

text \<open>
  The vendor reference data (\<open>vendor_refdata/internal\<close>): the tables of leagues and positions and
  the internal ids (\<open>mapping.go\<close>, \<open>timeutil.go\<close>), and the store (\<open>store.go\<close>) over the tables \<open>seasons\<close>,
  \<open>teams\<close>, \<open>players\<close>, \<open>games\<close> and \<open>game_player_stats\<close> of the registry's schema. The league table is
  filled by the migrations with the leagues 1 to 5. Upper-casing needs the Unicode tables
  and is an argument. Each statement runs, does not run, or runs and reports an error.
\<close>

section \<open>Mapping\<close>

abbreviation (input) "Position_NFL_DEF \<equiv> (24 :: Position)"

definition soccerLeagueMap :: "(int \<times> League) list" where
  "soccerLeagueMap = [(39, League_EPL), (140, League_LA_LIGA), (253, League_MLS)]"

definition soccerPlayerListPositionMap :: "(string \<times> Position) list" where
  "soccerPlayerListPositionMap = [(''Goalkeeper'', Position_SOCCER_GOALKEEPER), (''Keeper'', Position_SOCCER_GOALKEEPER),
     (''Defender'', Position_SOCCER_DEFENDER), (''Midfielder'', Position_SOCCER_MIDFIELDER),
     (''Attacker'', Position_SOCCER_FORWARD), (''Forward'', Position_SOCCER_FORWARD)]"

definition leaguePrefix :: "League \<Rightarrow> string" where
  "leaguePrefix league = (case map_of [(League_MLB, ''MLB''), (League_NFL, ''NFL''), (League_EPL, ''EPL''),
     (League_LA_LIGA, ''LA_LIGA''), (League_MLS, ''MLS'')] league of None \<Rightarrow> [] | Some p \<Rightarrow> p)"

definition nflPositionMap :: "(string \<times> Position) list" where
  "nflPositionMap = [(''QB'', Position_NFL_QB), (''RB'', Position_NFL_RB), (''WR'', Position_NFL_WR), (''TE'', Position_NFL_TE),
     (''DEF'', Position_NFL_DEF)]"

definition mlbPositionMap :: "(string \<times> Position) list" where
  "mlbPositionMap = [(''Pitcher'', Position_MLB_PITCHER), (''Outfielder'', Position_MLB_BATTER), (''Infielder'', Position_MLB_BATTER),
     (''Catcher'', Position_MLB_BATTER), (''Hitter'', Position_MLB_BATTER), (''Two-Way Player'', Position_MLB_BATTER)]"

definition makeTeamID :: "(string \<Rightarrow> string) \<Rightarrow> League \<Rightarrow> string \<Rightarrow> string" where
  "makeTeamID toUpper league code = leaguePrefix league @ ''::'' @ toUpper code"

text \<open>\<open>parts[len(parts)-1]\<close> of a name without fields is out of range: a panic.\<close>

definition makePlayerID :: "(string \<Rightarrow> string) \<Rightarrow> League \<Rightarrow> string \<Rightarrow> string \<Rightarrow> string option" where
  "makePlayerID toUpper league teamCode fullName =
     (let parts = fields fullName in
      if parts = [] then None
      else Some (leaguePrefix league @ ''::'' @ toUpper teamCode @ ''::'' @ toUpper (last parts)))"

definition makeGameID :: "(string \<Rightarrow> string) \<Rightarrow> League \<Rightarrow> string \<Rightarrow> string \<Rightarrow> int \<Rightarrow> int \<Rightarrow> string" where
  "makeGameID toUpper league awayCode homeCode scheduledUnix gameNumber =
     (let base = leaguePrefix league @ ''::'' @ toUpper awayCode @ ''@'' @ toUpper homeCode @ ''::'' @ formatDate scheduledUnix in
      if 1 < gameNumber then base @ ''_G'' @ itoa gameNumber else base)"

definition parseTime :: "layout \<Rightarrow> string \<Rightarrow> int option" where
  "parseTime layout s = timeParse layout s"

definition parseISO8601Unix :: "string \<Rightarrow> int option" where
  "parseISO8601Unix s = (case parseTime LayoutZ s of
     Some t \<Rightarrow> Some t
   | None \<Rightarrow> parseTime LayoutOffset s)"

section \<open>Tables\<close>

record TeamRecord =
  trID :: string
  trName :: string
  trShortName :: string
  trLeagueID :: int
  trExternalID :: string
  trExternalVendor :: string

record PlayerRecord =
  prID :: string
  prName :: string
  prTeamID :: string
  prPositions :: "int list"
  prExternalID :: string
  prExternalVendor :: string

record GameRecord =
  grID :: string
  grLeagueID :: int
  grSeasonYear :: int
  grHomeTeamID :: string
  grAwayTeamID :: string
  grScheduledUnix :: int
  grExpiryUnix :: int
  grStatus :: string
  grHomeScore :: "int option"
  grAwayScore :: "int option"
  grExternalID :: string
  grExternalVendor :: string

type_synonym statKey = "string \<times> string \<times> PropType"

record vendorDb =
  vdSeasons :: "(int \<times> int) list"
  vdTeams :: "TeamRecord list"
  vdPlayers :: "PlayerRecord list"
  vdGames :: "GameRecord list"
  vdStats :: "(statKey \<times> int) list"

abbreviation teamExt :: "TeamRecord \<Rightarrow> string \<times> string" where
  "teamExt t \<equiv> (trExternalVendor t, trExternalID t)"

abbreviation playerExt :: "PlayerRecord \<Rightarrow> string \<times> string" where
  "playerExt p \<equiv> (prExternalVendor p, prExternalID p)"

abbreviation gameExt :: "GameRecord \<Rightarrow> string \<times> string" where
  "gameExt g \<equiv> (grExternalVendor g, grExternalID g)"

definition leagueIDs :: "int list" where
  "leagueIDs = [1, 2, 3, 4, 5]"

section \<open>Statements\<close>

datatype vstmt =
    VsSeason int int | VsTeam string | VsPlayerLookup string | VsPlayerUpdate string | VsPlayerInsert string | VsGame string
  | VsStat string string int | VsFinal string | VsActive | VsLookup string

datatype vrun = StmtRuns | StmtNotRun | StmtUnknown

type_synonym vfaults = "vstmt \<Rightarrow> vrun"

text \<open>A statement that violates a constraint changes nothing.\<close>

definition vexec :: "vrun \<Rightarrow> vendorDb option \<Rightarrow> vendorDb \<Rightarrow> vendorDb \<times> bool" where
  "vexec run result d = (case run of
     StmtNotRun \<Rightarrow> (d, False)
   | StmtRuns \<Rightarrow> (case result of None \<Rightarrow> (d, False) | Some d' \<Rightarrow> (d', True))
   | StmtUnknown \<Rightarrow> (case result of None \<Rightarrow> (d, False) | Some d' \<Rightarrow> (d', False)))"

definition sqlSeason :: "int \<Rightarrow> int \<Rightarrow> vendorDb \<Rightarrow> vendorDb option" where
  "sqlSeason leagueID year d =
     (if (leagueID, year) \<in> set (vdSeasons d) then Some d
      else if leagueID \<notin> set leagueIDs then None
      else Some (d\<lparr>vdSeasons := vdSeasons d @ [(leagueID, year)]\<rparr>))"

definition UpsertSeason :: "vfaults \<Rightarrow> int \<Rightarrow> int \<Rightarrow> vendorDb \<Rightarrow> vendorDb \<times> bool" where
  "UpsertSeason f leagueID year d = vexec (f (VsSeason leagueID year)) (sqlSeason leagueID year d) d"

definition sqlTeam :: "TeamRecord \<Rightarrow> vendorDb \<Rightarrow> vendorDb option" where
  "sqlTeam t d =
     (if list_ex (\<lambda>r. teamExt r = teamExt t) (vdTeams d)
      then Some (d\<lparr>vdTeams := map (\<lambda>r. if teamExt r = teamExt t then r\<lparr>trName := trName t, trShortName := trShortName t\<rparr> else r) (vdTeams d)\<rparr>)
      else if list_ex (\<lambda>r. trID r = trID t) (vdTeams d) \<or> trLeagueID t \<notin> set leagueIDs then None
      else Some (d\<lparr>vdTeams := vdTeams d @ [t]\<rparr>))"

definition UpsertTeam :: "vfaults \<Rightarrow> TeamRecord \<Rightarrow> vendorDb \<Rightarrow> vendorDb \<times> bool" where
  "UpsertTeam f t d = vexec (f (VsTeam (trExternalID t))) (sqlTeam t d) d"

definition sqlPlayerUpdate :: "PlayerRecord \<Rightarrow> string \<Rightarrow> vendorDb \<Rightarrow> vendorDb option" where
  "sqlPlayerUpdate p existingID d =
     (if list_ex (\<lambda>r. prID r = existingID) (vdPlayers d) \<and> \<not> list_ex (\<lambda>t. trID t = prTeamID p) (vdTeams d) then None
      else Some (d\<lparr>vdPlayers := map (\<lambda>r. if prID r = existingID
        then r\<lparr>prName := prName p, prTeamID := prTeamID p, prPositions := prPositions p\<rparr> else r) (vdPlayers d)\<rparr>))"

datatype playerInsert = PlayerInserted vendorDb | PlayerPkeyTaken | PlayerViolation

definition sqlPlayerInsert :: "PlayerRecord \<Rightarrow> vendorDb \<Rightarrow> playerInsert" where
  "sqlPlayerInsert p d =
     (if list_ex (\<lambda>r. prID r = prID p) (vdPlayers d) then PlayerPkeyTaken
      else if list_ex (\<lambda>r. playerExt r = playerExt p) (vdPlayers d) then PlayerViolation
      else if \<not> list_ex (\<lambda>t. trID t = prTeamID p) (vdTeams d) then PlayerViolation
      else PlayerInserted (d\<lparr>vdPlayers := vdPlayers d @ [p]\<rparr>))"

text \<open>The loop over the suffixes 0 to 10; \<open>n\<close> of them are left.\<close>

definition suffixedID :: "string \<Rightarrow> nat \<Rightarrow> string" where
  "suffixedID i suffix = (if 0 < suffix then i @ ''_'' @ itoa (int suffix + 1) else i)"

fun insertPlayerLoop :: "vfaults \<Rightarrow> PlayerRecord \<Rightarrow> nat \<Rightarrow> nat \<Rightarrow> vendorDb \<Rightarrow> vendorDb \<times> bool" where
  "insertPlayerLoop f p suffix 0 d = (d, False)"
| "insertPlayerLoop f p suffix (Suc n) d =
     (let i = suffixedID (prID p) suffix in
      case f (VsPlayerInsert i) of
        StmtNotRun \<Rightarrow> (d, False)
      | run \<Rightarrow> (case sqlPlayerInsert (p\<lparr>prID := i\<rparr>) d of
          PlayerInserted d' \<Rightarrow> (d', run = StmtRuns)
        | PlayerPkeyTaken \<Rightarrow> if run = StmtRuns then insertPlayerLoop f p (suffix + 1) n d else (d, False)
        | PlayerViolation \<Rightarrow> (d, False)))"

definition UpsertPlayer :: "vfaults \<Rightarrow> PlayerRecord \<Rightarrow> vendorDb \<Rightarrow> vendorDb \<times> bool" where
  "UpsertPlayer f p d =
     (if f (VsPlayerLookup (prExternalID p)) \<noteq> StmtRuns then (d, False)
      else case find (\<lambda>r. playerExt r = playerExt p) (vdPlayers d) of
        Some r \<Rightarrow> vexec (f (VsPlayerUpdate (prID r))) (sqlPlayerUpdate p (prID r) d) d
      | None \<Rightarrow> insertPlayerLoop f p 0 11 d)"

definition sqlGame :: "GameRecord \<Rightarrow> vendorDb \<Rightarrow> vendorDb option" where
  "sqlGame g d =
     (if list_ex (\<lambda>r. gameExt r = gameExt g) (vdGames d)
      then Some (d\<lparr>vdGames := map (\<lambda>r. if gameExt r = gameExt g
        then r\<lparr>grScheduledUnix := grScheduledUnix g, grExpiryUnix := grExpiryUnix g\<rparr> else r) (vdGames d)\<rparr>)
      else if list_ex (\<lambda>r. grID r = grID g) (vdGames d) \<or> grLeagueID g \<notin> set leagueIDs \<or>
        (grLeagueID g, grSeasonYear g) \<notin> set (vdSeasons d) \<or>
        \<not> list_ex (\<lambda>t. trID t = grHomeTeamID g) (vdTeams d) \<or> \<not> list_ex (\<lambda>t. trID t = grAwayTeamID g) (vdTeams d) then None
      else Some (d\<lparr>vdGames := vdGames d @ [g\<lparr>grHomeScore := None, grAwayScore := None\<rparr>]\<rparr>))"

definition UpsertGame :: "vfaults \<Rightarrow> GameRecord \<Rightarrow> vendorDb \<Rightarrow> vendorDb \<times> bool" where
  "UpsertGame f g d = vexec (f (VsGame (grExternalID g))) (sqlGame g d) d"

definition sqlStat :: "statKey \<Rightarrow> int \<Rightarrow> vendorDb \<Rightarrow> vendorDb option" where
  "sqlStat k v d =
     (if \<not> list_ex (\<lambda>g. grID g = fst k) (vdGames d) \<or> \<not> list_ex (\<lambda>p. prID p = fst (snd k)) (vdPlayers d) then None
      else Some (d\<lparr>vdStats := AList.update k v (vdStats d)\<rparr>))"

definition UpsertPlayerStat :: "vfaults \<Rightarrow> string \<Rightarrow> string \<Rightarrow> PropType \<Rightarrow> int \<Rightarrow> vendorDb \<Rightarrow> vendorDb \<times> bool" where
  "UpsertPlayerStat f gameID playerID propType v d =
     vexec (f (VsStat gameID playerID propType)) (sqlStat (gameID, playerID, propType) v d) d"

definition sqlFinal :: "string \<Rightarrow> int \<Rightarrow> int \<Rightarrow> vendorDb \<Rightarrow> vendorDb option" where
  "sqlFinal gameID homeScore awayScore d =
     Some (d\<lparr>vdGames := map (\<lambda>r. if grID r = gameID
       then r\<lparr>grStatus := ''FINAL'', grHomeScore := Some homeScore, grAwayScore := Some awayScore\<rparr> else r) (vdGames d)\<rparr>)"

definition MarkGameFinal :: "vfaults \<Rightarrow> string \<Rightarrow> int \<Rightarrow> int \<Rightarrow> vendorDb \<Rightarrow> vendorDb \<times> bool" where
  "MarkGameFinal f gameID homeScore awayScore d = vexec (f (VsFinal gameID)) (sqlFinal gameID homeScore awayScore d) d"

section \<open>Queries\<close>

text \<open>An error, or the row if there is one.\<close>

definition vlookup :: "vfaults \<Rightarrow> string \<Rightarrow> ('a \<Rightarrow> bool) \<Rightarrow> 'a list \<Rightarrow> unit + 'a option" where
  "vlookup f key P rows = (if f (VsLookup key) \<noteq> StmtRuns then Inl () else Inr (find P rows))"

definition LookupTeamByExternal :: "vfaults \<Rightarrow> string \<Rightarrow> string \<Rightarrow> vendorDb \<Rightarrow> unit + TeamRecord option" where
  "LookupTeamByExternal f vendor externalID d = vlookup f externalID (\<lambda>r. teamExt r = (vendor, externalID)) (vdTeams d)"

definition LookupPlayerByExternal :: "vfaults \<Rightarrow> string \<Rightarrow> string \<Rightarrow> vendorDb \<Rightarrow> unit + PlayerRecord option" where
  "LookupPlayerByExternal f vendor externalID d = vlookup f externalID (\<lambda>r. playerExt r = (vendor, externalID)) (vdPlayers d)"

text \<open>The queries for games do not read the scores.\<close>

definition noScores :: "GameRecord \<Rightarrow> GameRecord" where
  "noScores g = g\<lparr>grHomeScore := None, grAwayScore := None\<rparr>"

definition LookupGameByExternal :: "vfaults \<Rightarrow> string \<Rightarrow> string \<Rightarrow> vendorDb \<Rightarrow> unit + GameRecord option" where
  "LookupGameByExternal f vendor externalID d =
     vlookup f externalID (\<lambda>r. gameExt r = (vendor, externalID)) (map noScores (vdGames d))"

definition LookupGame :: "vfaults \<Rightarrow> string \<Rightarrow> vendorDb \<Rightarrow> unit + GameRecord option" where
  "LookupGame f internalID d = vlookup f internalID (\<lambda>r. grID r = internalID) (map noScores (vdGames d))"

definition ListActiveGames :: "vfaults \<Rightarrow> int \<Rightarrow> string list \<Rightarrow> vendorDb \<Rightarrow> GameRecord list option" where
  "ListActiveGames f now order d =
     (if f VsActive \<noteq> StmtRuns then None
      else Some (map noScores (orderBy grID order
        (filter (\<lambda>g. grStatus g \<noteq> ''FINAL'' \<and> grScheduledUnix g \<le> now + 1800) (vdGames d)))))"

end
