(* ===== verification/VendorFetch.thy ===== *)
theory VendorFetch
  imports VendorStore
begin

text \<open>
  Fetching reference data (\<open>mlb.go\<close>, \<open>nfl.go\<close>, \<open>soccer.go\<close> and \<open>populator.go\<close> of \<open>vendor_refdata/internal\<close>). What the
  vendors answer is an argument: for each request the decoded response, or nothing when the
  request, its status or its decoding fails. Responses of the same shape share a type. A
  panic ends the process: the tables keep what was written before. The loop over the pages
  of soccer players ends when the vendor says so, and is a partial function.
\<close>

section \<open>Responses\<close>

record vteam =
  vtID :: int
  vtName :: string
  vtCode :: string

record vplayer =
  vpID :: int
  vpName :: string
  vpPosition :: string

record mlbGame =
  mgGamePk :: int
  mgGameDate :: string
  mgGameNumber :: int
  mgState :: string
  mgHomeTeam :: int
  mgHomeScore :: int
  mgAwayTeam :: int
  mgAwayScore :: int

record vgame =
  vgID :: int
  vgTimestamp :: int
  vgHomeTeam :: int
  vgAwayTeam :: int

record soccerPlayer =
  spID :: int
  spName :: string
  spStatistics :: "(int \<times> string) list"

record soccerPage =
  sgCurrent :: int
  sgTotal :: int
  sgPlayers :: "soccerPlayer list"

record mlbBoxPlayer =
  mbID :: int
  mbHomeRuns :: int
  mbHits :: int
  mbRbi :: int
  mbBatWalks :: int
  mbStrikeOuts :: int
  mbEarnedRuns :: int
  mbPitWalks :: int

record vresult =
  vrStatus :: string
  vrHomeTeam :: int
  vrAwayTeam :: int
  vrHomeScore :: "int option"
  vrAwayScore :: "int option"

text \<open>A JSON value: null, a number whose float has that whole part, a text, or something else.\<close>

datatype jsonValue = JNull | JNumber int | JString string | JOther

record nflStatPlayer =
  nsID :: int
  nsStatistics :: "(string \<times> jsonValue) list"

type_synonym nflGroup = "string \<times> nflStatPlayer list"

record soccerStatPlayer =
  ssID :: int
  ssLines :: "(int option \<times> int option \<times> int option \<times> int option) list"

record vendorNet =
  netMlbTeams :: "int \<Rightarrow> vteam list option"
  netMlbRoster :: "int \<Rightarrow> int \<Rightarrow> vplayer list option"
  netMlbSchedule :: "int \<Rightarrow> mlbGame list list option"
  netMlbStatus :: "string list \<Rightarrow> mlbGame list list option"
  netMlbBoxscore :: "int \<Rightarrow> (mlbBoxPlayer list \<times> mlbBoxPlayer list) option"
  netNflTeams :: "int \<Rightarrow> vteam list option"
  netNflPlayers :: "int \<Rightarrow> int \<Rightarrow> vplayer list option"
  netNflGames :: "int \<Rightarrow> int \<Rightarrow> vgame list option"
  netNflDetail :: "string \<Rightarrow> vresult list option"
  netNflStats :: "string \<Rightarrow> nflGroup list list option"
  netSoccerTeams :: "int \<Rightarrow> int \<Rightarrow> vteam list option"
  netSoccerPlayers :: "int \<Rightarrow> int \<Rightarrow> int \<Rightarrow> soccerPage option"
  netSoccerFixtures :: "int \<Rightarrow> int \<Rightarrow> vgame list option"
  netSoccerDetail :: "string \<Rightarrow> vresult list option"
  netSoccerStats :: "string \<Rightarrow> string \<Rightarrow> soccerStatPlayer list list option"

text \<open>What the Go library leaves to large tables or to chance: upper-casing, reading a float and cutting it to
  an int64, and the order in which a map keyed by players' numbers is ranged over for a game.\<close>

record vendorLib =
  libUpper :: "string \<Rightarrow> string"
  libFloat :: "string \<Rightarrow> int option"
  libRange :: "string \<Rightarrow> int list"

datatype fetchRes = FetchOk | FetchErr | FetchPanic

definition mlbVendor :: string where
  "mlbVendor = ''mlb_stats''"

definition nflVendor :: string where
  "nflVendor = ''apisports''"

definition soccerVendor :: string where
  "soccerVendor = ''apisports''"

section \<open>Teams and rosters\<close>

definition teamRec :: "vendorLib \<Rightarrow> League \<Rightarrow> string \<Rightarrow> vteam \<Rightarrow> TeamRecord" where
  "teamRec lib league vendor t = \<lparr>trID = makeTeamID (libUpper lib) league (vtCode t), trName = vtName t, trShortName = vtCode t,
     trLeagueID = league, trExternalID = itoa (vtID t), trExternalVendor = vendor\<rparr>"

fun teamsLoop :: "vendorLib \<Rightarrow> vfaults \<Rightarrow> League \<Rightarrow> string \<Rightarrow> vteam list \<Rightarrow> (int \<times> string) list \<Rightarrow> vendorDb \<Rightarrow> (int \<times> string) list \<times> vendorDb" where
  "teamsLoop lib f league vendor [] codes d = (codes, d)"
| "teamsLoop lib f league vendor (t # ts) codes d =
     teamsLoop lib f league vendor ts (AList.update (vtID t) (vtCode t) codes) (fst (UpsertTeam f (teamRec lib league vendor t) d))"

definition codeOf :: "(int \<times> string) list \<Rightarrow> int \<Rightarrow> string" where
  "codeOf codes i = (case map_of codes i of None \<Rightarrow> [] | Some c \<Rightarrow> c)"

fun rosterLoop :: "vendorLib \<Rightarrow> vfaults \<Rightarrow> League \<Rightarrow> string \<Rightarrow> (string \<times> Position) list \<Rightarrow> string \<Rightarrow> vplayer list \<Rightarrow> vendorDb \<Rightarrow> vendorDb \<times> fetchRes" where
  "rosterLoop lib f league vendor positions code [] d = (d, FetchOk)"
| "rosterLoop lib f league vendor positions code (p # ps) d = (case map_of positions (vpPosition p) of
     None \<Rightarrow> rosterLoop lib f league vendor positions code ps d
   | Some pos \<Rightarrow> (case makePlayerID (libUpper lib) league code (vpName p) of
       None \<Rightarrow> (d, FetchPanic)
     | Some i \<Rightarrow> rosterLoop lib f league vendor positions code ps
         (fst (UpsertPlayer f \<lparr>prID = i, prName = vpName p, prTeamID = makeTeamID (libUpper lib) league code, prPositions = [pos],
            prExternalID = itoa (vpID p), prExternalVendor = vendor\<rparr> d))))"

definition fetchMLBRoster :: "vendorLib \<Rightarrow> vendorNet \<Rightarrow> vfaults \<Rightarrow> int \<Rightarrow> string \<Rightarrow> int \<Rightarrow> vendorDb \<Rightarrow> vendorDb \<times> fetchRes" where
  "fetchMLBRoster lib net f teamNumericID abbr year d = (case netMlbRoster net teamNumericID year of
     None \<Rightarrow> (d, FetchErr)
   | Some roster \<Rightarrow> rosterLoop lib f League_MLB mlbVendor mlbPositionMap abbr roster d)"

definition fetchNFLRoster :: "vendorLib \<Rightarrow> vendorNet \<Rightarrow> vfaults \<Rightarrow> int \<Rightarrow> string \<Rightarrow> int \<Rightarrow> vendorDb \<Rightarrow> vendorDb \<times> fetchRes" where
  "fetchNFLRoster lib net f teamNumericID code year d = (case netNflPlayers net teamNumericID year of
     None \<Rightarrow> (d, FetchErr)
   | Some players \<Rightarrow> rosterLoop lib f League_NFL nflVendor nflPositionMap code players d)"

text \<open>Errors of a roster are logged, a panic is not survived.\<close>

fun rostersLoop :: "(int \<Rightarrow> string \<Rightarrow> vendorDb \<Rightarrow> vendorDb \<times> fetchRes) \<Rightarrow> vteam list \<Rightarrow> vendorDb \<Rightarrow> vendorDb \<times> bool" where
  "rostersLoop fetch [] d = (d, True)"
| "rostersLoop fetch (t # ts) d = (case fetch (vtID t) (vtCode t) d of
     (d', FetchPanic) \<Rightarrow> (d', False)
   | (d', _) \<Rightarrow> rostersLoop fetch ts d')"

section \<open>MLB\<close>

definition gameRec :: "vendorLib \<Rightarrow> League \<Rightarrow> string \<Rightarrow> int \<Rightarrow> int \<Rightarrow> string \<Rightarrow> string \<Rightarrow> int \<Rightarrow> int \<Rightarrow> int \<Rightarrow> GameRecord" where
  "gameRec lib league vendor year expiryOffset awayCode homeCode ts gameNumber externalID =
     \<lparr>grID = makeGameID (libUpper lib) league awayCode homeCode ts gameNumber, grLeagueID = league, grSeasonYear = year,
      grHomeTeamID = makeTeamID (libUpper lib) league homeCode, grAwayTeamID = makeTeamID (libUpper lib) league awayCode,
      grScheduledUnix = ts, grExpiryUnix = wrap64 (ts + expiryOffset), grStatus = ''SCHEDULED'', grHomeScore = None, grAwayScore = None,
      grExternalID = itoa externalID, grExternalVendor = vendor\<rparr>"

definition mlbGameStep :: "vendorLib \<Rightarrow> vfaults \<Rightarrow> int \<Rightarrow> (int \<times> string) list \<Rightarrow> vendorDb \<Rightarrow> mlbGame \<Rightarrow> vendorDb" where
  "mlbGameStep lib f year codes d g =
     (let homeAbbr = codeOf codes (mgHomeTeam g); awayAbbr = codeOf codes (mgAwayTeam g) in
      if homeAbbr = [] \<or> awayAbbr = [] then d
      else case parseISO8601Unix (mgGameDate g) of
        None \<Rightarrow> d
      | Some ts \<Rightarrow> fst (UpsertGame f (gameRec lib League_MLB mlbVendor year (4 * 3600) awayAbbr homeAbbr ts (mgGameNumber g) (mgGamePk g)) d))"

definition FetchMLBRefData :: "vendorLib \<Rightarrow> vendorNet \<Rightarrow> vfaults \<Rightarrow> int \<Rightarrow> vendorDb \<Rightarrow> vendorDb \<times> fetchRes" where
  "FetchMLBRefData lib net f year d = (case UpsertSeason f League_MLB year d of
     (d1, False) \<Rightarrow> (d1, FetchErr)
   | (d1, True) \<Rightarrow> (case netMlbTeams net year of
       None \<Rightarrow> (d1, FetchErr)
     | Some teams \<Rightarrow> (let (codes, d2) = teamsLoop lib f League_MLB mlbVendor teams [] d1 in
         case rostersLoop (\<lambda>i code. fetchMLBRoster lib net f i code year) teams d2 of
           (d3, False) \<Rightarrow> (d3, FetchPanic)
         | (d3, True) \<Rightarrow> (case netMlbSchedule net year of
             None \<Rightarrow> (d3, FetchErr)
           | Some dates \<Rightarrow> (foldl (mlbGameStep lib f year codes) d3 (concat dates), FetchOk)))))"

section \<open>NFL\<close>

definition nflGameStep :: "vendorLib \<Rightarrow> vfaults \<Rightarrow> int \<Rightarrow> (int \<times> string) list \<Rightarrow> vendorDb \<Rightarrow> vgame \<Rightarrow> vendorDb" where
  "nflGameStep lib f year codes d g =
     (let homeCode = codeOf codes (vgHomeTeam g); awayCode = codeOf codes (vgAwayTeam g); ts = vgTimestamp g in
      if homeCode = [] \<or> awayCode = [] then d
      else if ts = 0 then d
      else fst (UpsertGame f (gameRec lib League_NFL nflVendor year (4 * 3600) awayCode homeCode ts 1 (vgID g)) d))"

definition fetchNFLWeek :: "vendorLib \<Rightarrow> vendorNet \<Rightarrow> vfaults \<Rightarrow> int \<Rightarrow> (int \<times> string) list \<Rightarrow> vendorDb \<Rightarrow> int \<Rightarrow> vendorDb" where
  "fetchNFLWeek lib net f year codes d week = (case netNflGames net year week of
     None \<Rightarrow> d
   | Some games \<Rightarrow> foldl (nflGameStep lib f year codes) d games)"

definition FetchNFLRefData :: "vendorLib \<Rightarrow> vendorNet \<Rightarrow> vfaults \<Rightarrow> int \<Rightarrow> vendorDb \<Rightarrow> vendorDb \<times> fetchRes" where
  "FetchNFLRefData lib net f year d = (case UpsertSeason f League_NFL year d of
     (d1, False) \<Rightarrow> (d1, FetchErr)
   | (d1, True) \<Rightarrow> (case netNflTeams net year of
       None \<Rightarrow> (d1, FetchErr)
     | Some teams \<Rightarrow> (let (codes, d2) = teamsLoop lib f League_NFL nflVendor teams [] d1 in
         case rostersLoop (\<lambda>i code. fetchNFLRoster lib net f i code year) teams d2 of
           (d3, False) \<Rightarrow> (d3, FetchPanic)
         | (d3, True) \<Rightarrow> (foldl (fetchNFLWeek lib net f year codes) d3 (map int [1..<23]), FetchOk))))"

section \<open>Soccer\<close>

definition soccerLeagueIDs :: "int list" where
  "soccerLeagueIDs = [39, 140, 253]"

fun soccerPlayersLoop :: "vendorLib \<Rightarrow> vfaults \<Rightarrow> League \<Rightarrow> (int \<times> string) list \<Rightarrow> soccerPlayer list \<Rightarrow> vendorDb \<Rightarrow> vendorDb \<times> bool" where
  "soccerPlayersLoop lib f league codes [] d = (d, True)"
| "soccerPlayersLoop lib f league codes (p # ps) d = (case spStatistics p of
     [] \<Rightarrow> soccerPlayersLoop lib f league codes ps d
   | (teamID, position) # _ \<Rightarrow> (case map_of soccerPlayerListPositionMap position of
       None \<Rightarrow> soccerPlayersLoop lib f league codes ps d
     | Some pos \<Rightarrow> (let teamCode = codeOf codes teamID in
         if teamCode = [] then soccerPlayersLoop lib f league codes ps d
         else case makePlayerID (libUpper lib) league teamCode (spName p) of
           None \<Rightarrow> (d, False)
         | Some i \<Rightarrow> soccerPlayersLoop lib f league codes ps
             (fst (UpsertPlayer f \<lparr>prID = i, prName = spName p, prTeamID = makeTeamID (libUpper lib) league teamCode, prPositions = [pos],
                prExternalID = itoa (spID p), prExternalVendor = soccerVendor\<rparr> d)))))"

partial_function (option) soccerPages :: "vendorLib \<Rightarrow> vendorNet \<Rightarrow> vfaults \<Rightarrow> League \<Rightarrow> int \<Rightarrow> int \<Rightarrow> (int \<times> string) list \<Rightarrow> int \<Rightarrow> vendorDb \<Rightarrow>
    (vendorDb \<times> fetchRes) option" where
  "soccerPages lib net f league leagueID year codes page d = (case netSoccerPlayers net leagueID year page of
     None \<Rightarrow> Some (d, FetchErr)
   | Some resp \<Rightarrow> (case soccerPlayersLoop lib f league codes (sgPlayers resp) d of
       (d', alive) \<Rightarrow>
         if \<not> alive then Some (d', FetchPanic)
         else if sgTotal resp \<le> sgCurrent resp then Some (d', FetchOk)
         else soccerPages lib net f league leagueID year codes (page + 1) d'))"

definition soccerGameStep :: "vendorLib \<Rightarrow> vfaults \<Rightarrow> League \<Rightarrow> int \<Rightarrow> (int \<times> string) list \<Rightarrow> vendorDb \<Rightarrow> vgame \<Rightarrow> vendorDb" where
  "soccerGameStep lib f league year codes d g =
     (let homeCode = codeOf codes (vgHomeTeam g); awayCode = codeOf codes (vgAwayTeam g) in
      if homeCode = [] \<or> awayCode = [] then d
      else fst (UpsertGame f (gameRec lib league soccerVendor year (2 * 3600) awayCode homeCode (vgTimestamp g) 1 (vgID g)) d))"

definition FetchSoccerRefData :: "vendorLib \<Rightarrow> vendorNet \<Rightarrow> vfaults \<Rightarrow> int \<Rightarrow> int \<Rightarrow> vendorDb \<Rightarrow> (vendorDb \<times> fetchRes) option" where
  "FetchSoccerRefData lib net f leagueID year d = (case map_of soccerLeagueMap leagueID of
     None \<Rightarrow> Some (d, FetchErr)
   | Some league \<Rightarrow> (case UpsertSeason f league year d of
       (d1, False) \<Rightarrow> Some (d1, FetchErr)
     | (d1, True) \<Rightarrow> (case netSoccerTeams net leagueID year of
         None \<Rightarrow> Some (d1, FetchErr)
       | Some teams \<Rightarrow> (let (codes, d2) = teamsLoop lib f league soccerVendor teams [] d1 in do {
           (d3, r) \<leftarrow> soccerPages lib net f league leagueID year codes 1 d2;
           if r \<noteq> FetchOk then Some (d3, r)
           else case netSoccerFixtures net leagueID year of
             None \<Rightarrow> Some (d3, FetchErr)
           | Some games \<Rightarrow> Some (foldl (soccerGameStep lib f league year codes) d3 games, FetchOk)
         }))))"

section \<open>Populator\<close>

text \<open>The result says whether the process is still alive.\<close>

fun populateSoccer :: "vendorLib \<Rightarrow> vendorNet \<Rightarrow> vfaults \<Rightarrow> int \<Rightarrow> int list \<Rightarrow> vendorDb \<Rightarrow> (vendorDb \<times> bool) option" where
  "populateSoccer lib net f year [] d = Some (d, True)"
| "populateSoccer lib net f year (l # ls) d = do {
     (d', r) \<leftarrow> FetchSoccerRefData lib net f l year d;
     if r = FetchPanic then Some (d', False) else populateSoccer lib net f year ls d'
   }"

definition populatorRunOnce :: "vendorLib \<Rightarrow> vendorNet \<Rightarrow> vfaults \<Rightarrow> int \<Rightarrow> vendorDb \<Rightarrow> (vendorDb \<times> bool) option" where
  "populatorRunOnce lib net f year d = (case FetchMLBRefData lib net f year d of
     (d1, FetchPanic) \<Rightarrow> Some (d1, False)
   | (d1, _) \<Rightarrow> do {
       (d2, alive) \<leftarrow> populateSoccer lib net f year soccerLeagueIDs d1;
       if \<not> alive then Some (d2, False)
       else case FetchNFLRefData lib net f year d2 of (d3, r) \<Rightarrow> Some (d3, r \<noteq> FetchPanic)
     })"

text \<open>\<open>Run\<close>: a first round and one for every tick, each with the answers and failures of its time.\<close>

fun populatorRun :: "(vendorLib \<times> vendorNet \<times> vfaults) list \<Rightarrow> int \<Rightarrow> vendorDb \<Rightarrow> (vendorDb \<times> bool) option" where
  "populatorRun [] year d = Some (d, True)"
| "populatorRun ((lib, net, f) # rounds) year d = do {
     (d', alive) \<leftarrow> populatorRunOnce lib net f year d;
     if \<not> alive then Some (d', False) else populatorRun rounds year d'
   }"

end
