(* ===== verification/GoParse.thy ===== *)
theory GoParse
  imports GoTime
begin

text \<open>
  Reading numbers and durations as Go's \<open>strconv\<close> and \<open>time\<close> packages do, with their overflow checks.
  The digits after a decimal point of a duration are weighed in floating point, which is an
  argument; everything else is computed.
\<close>

section \<open>Integers\<close>

text \<open>\<open>strconv.ParseInt (s, 10, 64)\<close>.\<close>

definition signDigits :: "string \<Rightarrow> bool \<times> string" where
  "signDigits s = (case s of
     [] \<Rightarrow> (False, s)
   | c # cs \<Rightarrow> if c = CHR ''-'' then (True, cs) else if c = CHR ''+'' then (False, cs) else (False, s))"

definition parseInt64 :: "string \<Rightarrow> int option" where
  "parseInt64 s =
     (let (neg, digits) = signDigits s
      in if digits = [] \<or> \<not> list_all isDigit digits then None
         else let n = (if neg then - int (readNat digits) else int (readNat digits)) in if in_int64 n then Some n else None)"

text \<open>\<open>strconv.Atoi\<close>: the value that comes with an error is 0 for a text that is no number, and the nearest
  \<open>int\<close> for one that is too large.\<close>

definition Atoi :: "string \<Rightarrow> int \<times> bool" where
  "Atoi s = (case parseInt64 s of
     Some n \<Rightarrow> (n, True)
   | None \<Rightarrow> (let (neg, digits) = signDigits s in
       if digits = [] \<or> \<not> list_all isDigit digits then (0, False)
       else (if neg then int64_min else int64_max, False)))"

lemma Atoi_range: "in_int64 (fst (Atoi s))"
  by (auto simp: Atoi_def parseInt64_def in_int64_def int64_min_def int64_max_def Let_def split: option.split prod.split if_splits)

section \<open>Lists in a string\<close>

text \<open>\<open>strings.Join\<close> and \<open>strings.Split\<close> at a comma.\<close>

fun joinComma :: "string list \<Rightarrow> string" where
  "joinComma [] = []"
| "joinComma [s] = s"
| "joinComma (s # t # ts) = s @ '','' @ joinComma (t # ts)"

fun splitComma :: "string \<Rightarrow> string list" where
  "splitComma [] = [[]]"
| "splitComma (c # s) = (if c = CHR '','' then [] # splitComma s else (case splitComma s of t # ts \<Rightarrow> (c # t) # ts | [] \<Rightarrow> [[c]]))"

lemma splitComma_nonempty [simp]: "splitComma s \<noteq> []"
  by (induction s) (auto split: list.split)

lemma join_split: "joinComma (splitComma s) = s"
proof (induction s)
  case (Cons c s)
  then show ?case by (cases "splitComma s" rule: joinComma.cases) auto
qed simp

lemma split_join: "ts \<noteq> [] \<Longrightarrow> \<forall>t \<in> set ts. CHR '','' \<notin> set t \<Longrightarrow> splitComma (joinComma ts) = ts"
proof (induction ts rule: joinComma.induct)
  case (2 t)
  then show ?case by (induction t) auto
next
  case (3 t u ts)
  then have IH: "splitComma (joinComma (u # ts)) = u # ts" by simp
  have "splitComma (t @ '','' @ joinComma (u # ts)) = t # u # ts" using 3(3) by (induction t) (auto simp: IH simp del: joinComma.simps)
  then show ?case by simp
qed simp

section \<open>Durations\<close>

fun leadingInt :: "int \<Rightarrow> string \<Rightarrow> (int \<times> string) option" where
  "leadingInt x [] = Some (x, [])"
| "leadingInt x (c # s) =
     (if \<not> isDigit c then Some (x, c # s)
      else if 2 ^ 63 div 10 < x then None
      else let x' = x * 10 + int (digitVal c) in if 2 ^ 63 < x' then None else leadingInt x' s)"

text \<open>The digits that count, how many they are, and what follows; once a digit would overflow the rest is skipped.\<close>

fun leadingFraction :: "int \<Rightarrow> nat \<Rightarrow> bool \<Rightarrow> string \<Rightarrow> int \<times> nat \<times> string" where
  "leadingFraction x scale overflow [] = (x, scale, [])"
| "leadingFraction x scale overflow (c # s) =
     (if \<not> isDigit c then (x, scale, c # s)
      else if overflow then leadingFraction x scale True s
      else if (2 ^ 63 - 1) div 10 < x then leadingFraction x scale True s
      else let y = x * 10 + int (digitVal c) in
        if 2 ^ 63 < y then leadingFraction x scale True s else leadingFraction y (scale + 1) False s)"

definition unitMap :: "(string \<times> int) list" where
  "unitMap = [(''ns'', 1), (''us'', 1000), ([CHR 0xC2, CHR 0xB5, CHR ''s''], 1000), ([CHR 0xCE, CHR 0xBC, CHR ''s''], 1000),
     (''ms'', 1000000), (''s'', 1000000000), (''m'', 60000000000), (''h'', 3600000000000)]"

definition unitChar :: "char \<Rightarrow> bool" where
  "unitChar c \<longleftrightarrow> c \<noteq> CHR ''.'' \<and> \<not> isDigit c"

text \<open>\<open>frac f unit k\<close> is the whole part of \<open>f\<close> times \<open>unit\<close> over ten to the \<open>k\<close>, in floating point.\<close>

type_synonym fracMul = "int \<Rightarrow> int \<Rightarrow> nat \<Rightarrow> int"

text \<open>One number with its unit: the nanoseconds and the rest of the text.\<close>

definition durationPart :: "fracMul \<Rightarrow> string \<Rightarrow> (int \<times> string) option" where
  "durationPart frac s =
     (if s = [] \<or> \<not> (hd s = CHR ''.'' \<or> isDigit (hd s)) then None
      else case leadingInt 0 s of
        None \<Rightarrow> None
      | Some (v, s1) \<Rightarrow>
          (let pre = (length s1 \<noteq> length s);
               point = (s1 \<noteq> [] \<and> hd s1 = CHR ''.'');
               (f, scale, s2) = (if point then leadingFraction 0 0 False (tl s1) else (0, 0, s1));
               post = (point \<and> length s2 \<noteq> length (tl s1));
               u = takeWhile unitChar s2;
               s3 = dropWhile unitChar s2
           in if \<not> pre \<and> \<not> post then None
              else if u = [] then None
              else case map_of unitMap u of
                None \<Rightarrow> None
              | Some unit \<Rightarrow>
                  if 2 ^ 63 div unit < v then None
                  else let w = v * unit + (if 0 < f then frac f unit scale else 0) in
                    if 0 < f \<and> 2 ^ 63 < w then None else Some (w, s3)))"

lemma leadingInt_shorter: "leadingInt x s = Some (v, s') \<Longrightarrow> length s' \<le> length s"
  by (induction x s arbitrary: v s' rule: leadingInt.induct) (force simp: Let_def split: if_splits)+

lemma leadingFraction_shorter: "leadingFraction x k ov s = (v, k', s') \<Longrightarrow> length s' \<le> length s"
  by (induction x k ov s arbitrary: v k' s' rule: leadingFraction.induct) (force simp: Let_def split: if_splits)+

lemma durationPart_shorter:
  assumes "durationPart frac s = Some (w, s')"
  shows "length s' < length s"
proof -
  from assms obtain v s1 where 1: "leadingInt 0 s = Some (v, s1)" by (auto simp: durationPart_def split: if_splits option.splits)
  obtain f k s2 where 2: "(if s1 \<noteq> [] \<and> hd s1 = CHR ''.'' then leadingFraction 0 0 False (tl s1) else (0, 0, s1)) = (f, k, s2)" by (metis prod_cases3)
  then have "length s2 \<le> length s1" using leadingFraction_shorter [of 0 0 False "tl s1" f k s2] by (auto split: if_splits)
  moreover from assms 1 2 have "takeWhile unitChar s2 \<noteq> []" "s' = dropWhile unitChar s2"
    by (auto simp: durationPart_def Let_def split: if_splits option.splits)
  then have "length s' < length s2" by (metis length_append length_greater_0_conv less_add_same_cancel2 takeWhile_dropWhile_id)
  ultimately show ?thesis using leadingInt_shorter [OF 1] by simp
qed

function durationLoop :: "fracMul \<Rightarrow> string \<Rightarrow> int \<Rightarrow> int option" where
  "durationLoop frac s d =
     (if s = [] then Some d
      else case durationPart frac s of
        None \<Rightarrow> None
      | Some (v, s') \<Rightarrow> let d' = (d + v) mod 2 ^ 64 in if 2 ^ 63 < d' then None else durationLoop frac s' d')"
  by auto

termination
  by (relation "measure (\<lambda>(frac, s, d). length s)") (auto dest: durationPart_shorter)

declare durationLoop.simps [simp del]

text \<open>\<open>time.ParseDuration\<close>.\<close>

definition ParseDuration :: "fracMul \<Rightarrow> string \<Rightarrow> int option" where
  "ParseDuration frac s =
     (let (neg, s1) = signDigits s
      in if s1 = ''0'' then Some 0
         else if s1 = [] then None
         else case durationLoop frac s1 0 of
           None \<Rightarrow> None
         | Some d \<Rightarrow> if neg then Some (- d) else if 2 ^ 63 - 1 < d then None else Some d)"

section \<open>Laws\<close>

text \<open>A whole number with a unit is read as such.\<close>

lemma readNat_Cons: "readNat (c # ds) = digitVal c * 10 ^ length ds + readNat ds"
proof (induction ds rule: rev_induct)
  case (snoc d ds)
  have "readNat (c # ds @ [d]) = 10 * readNat (c # ds) + digitVal d" using readNat_snoc [of "c # ds" d] by simp
  with snoc show ?case by (simp add: algebra_simps)
qed (simp add: readNat_def)

lemma leadingInt_digits:
  assumes "list_all isDigit ds" and "rest = [] \<or> \<not> isDigit (hd rest)" and "0 \<le> x" and "x * 10 ^ length ds + int (readNat ds) \<le> 2 ^ 63"
  shows "leadingInt x (ds @ rest) = Some (x * 10 ^ length ds + int (readNat ds), rest)"
  using assms
proof (induction ds arbitrary: x)
  case Nil
  then show ?case by (cases rest) (auto simp: readNat_def)
next
  case (Cons c ds)
  let ?x = "x * 10 + int (digitVal c)"
  have r: "readNat (c # ds) = digitVal c * 10 ^ length ds + readNat ds" by (rule readNat_Cons)
  have e: "?x * 10 ^ length ds + int (readNat ds) = x * 10 ^ length (c # ds) + int (readNat (c # ds))"
    unfolding r by (simp add: algebra_simps)
  have "?x \<le> ?x * 10 ^ length ds" using Cons.prems(3) by (intro mult_le_cancel_left1 [THEN iffD2]) auto
  also have "\<dots> \<le> ?x * 10 ^ length ds + int (readNat ds)" by simp
  also have "\<dots> \<le> 2 ^ 63" unfolding e by (rule Cons.prems(4))
  finally have "?x \<le> 2 ^ 63" .
  moreover from this have "x \<le> 2 ^ 63 div 10" by simp
  ultimately show ?case using Cons.IH [of ?x] Cons.prems e by (simp add: Let_def)
qed

lemma natStr_isDigit: "list_all isDigit (natStr n)"
  using natStr_digits by (auto simp: list_all_iff isDigit_def)

lemma unit_facts:
  assumes "(u, unit) \<in> set unitMap"
  shows "map_of unitMap u = Some unit" "list_all unitChar u" "u \<noteq> []" "0 < unit"
  using assms by (auto simp: unitMap_def unitChar_def isDigit_def)

lemma ParseDuration_whole:
  assumes "(u, unit) \<in> set unitMap" and "int n * unit < 2 ^ 63"
  shows "ParseDuration frac (natStr n @ u) = Some (int n * unit)"
proof -
  note u = unit_facts [OF assms(1)]
  have c: "unitChar (hd u)" using u(2,3) by (cases u) auto
  have d: "isDigit (hd (natStr n @ u))" "natStr n @ u \<noteq> []" using natStr_isDigit [of n] natStr_nonempty [of n] by (cases "natStr n"; simp)+
  have le: "int n \<le> 2 ^ 63 div unit" using zdiv_mono1 [of "int n * unit" "2 ^ 63" unit] assms(2) u(4) by simp
  have "int n * 1 \<le> int n * unit" using u(4) by (intro mult_left_mono) auto
  then have li: "leadingInt 0 (natStr n @ u) = Some (int n, u)"
    using leadingInt_digits [OF natStr_isDigit, of u 0 n] c u(3) assms(2) by (simp add: unitChar_def)
  have tw: "takeWhile unitChar u = u" "dropWhile unitChar u = []" using u(2) by (simp_all add: takeWhile_eq_all_conv dropWhile_eq_Nil_conv list_all_iff)
  have pt: "hd u \<noteq> CHR ''.''" "length u \<noteq> length (natStr n @ u)" using c natStr_nonempty [of n] by (simp_all add: unitChar_def)
  have "durationPart frac (natStr n @ u) = Some (int n * unit, [])"
    unfolding durationPart_def li option.case prod.case Let_def
    using d pt u(1,3) le by (simp add: tw del: append_is_Nil_conv length_append)
  moreover have "int n * unit mod 2 ^ 64 = int n * unit" using assms(2) u(4) by (intro mod_pos_pos_trivial) auto
  ultimately have l: "durationLoop frac (natStr n @ u) 0 = Some (int n * unit)"
    using d(2) assms(2) by (simp add: durationLoop.simps [of frac "natStr n @ u"] durationLoop.simps [of frac "[]"] Let_def)
  have "signDigits (natStr n @ u) = (False, natStr n @ u)" using d by (cases "natStr n @ u") (auto simp: signDigits_def isDigit_def)
  moreover have "natStr n @ u \<noteq> ''0''" using c u(3) natStr_nonempty [of n] by (cases "natStr n"; cases u) auto
  ultimately show ?thesis using l d(2) assms(2) by (simp add: ParseDuration_def)
qed

end
