(* ===== verification/VendorResults.thy ===== *)
theory VendorResults
  imports VendorFetch GoParse
begin

text \<open>
  Fetching results (\<open>mlbresults.go\<close>, \<open>nflresults.go\<close>, \<open>soccerresults.go\<close> and \<open>eventfetcher.go\<close> of
  \<open>vendor_refdata/internal\<close>). The players of a box score come as lists in the order the map is ranged
  over. The statistics of one player are written in a fixed order: they have different keys, so
  another order gives the same rows.
\<close>

section \<open>MLB\<close>

definition writeStats :: "vfaults \<Rightarrow> string \<Rightarrow> string \<Rightarrow> (PropType \<times> int) list \<Rightarrow> vendorDb \<Rightarrow> vendorDb" where
  "writeStats f gameID playerID stats d = foldl (\<lambda>d (pt, val). fst (UpsertPlayerStat f gameID playerID pt val d)) d stats"

definition mlbBatting :: "mlbBoxPlayer \<Rightarrow> (PropType \<times> int) list" where
  "mlbBatting p = [(PropType_HOMERUNS, mbHomeRuns p), (PropType_HITS, mbHits p), (PropType_RBIS, mbRbi p), (PropType_WALKS, mbBatWalks p)]"

definition mlbPitching :: "mlbBoxPlayer \<Rightarrow> (PropType \<times> int) list" where
  "mlbPitching p = [(PropType_STRIKEOUTS, mbStrikeOuts p), (PropType_EARNED_RUNS, mbEarnedRuns p), (PropType_WALKS, mbPitWalks p)]"

definition mlbStatLines :: "mlbBoxPlayer \<Rightarrow> (PropType \<times> int) list" where
  "mlbStatLines p =
     (let hasBattingStats = (0 < mbHomeRuns p \<or> 0 < mbHits p \<or> 0 < mbRbi p \<or> 0 < mbBatWalks p);
          hasPitchingStats = (0 < mbStrikeOuts p \<or> 0 < mbEarnedRuns p \<or> 0 < mbPitWalks p)
      in (if hasBattingStats then mlbBatting p else []) @ (if hasPitchingStats then mlbPitching p else []))"

fun boxscoreLoop :: "vfaults \<Rightarrow> string \<Rightarrow> mlbBoxPlayer list \<Rightarrow> vendorDb \<Rightarrow> vendorDb \<times> bool" where
  "boxscoreLoop f gameID [] d = (d, True)"
| "boxscoreLoop f gameID (p # ps) d = (case LookupPlayerByExternal f mlbVendor (itoa (mbID p)) d of
     Inl _ \<Rightarrow> (d, False)
   | Inr None \<Rightarrow> boxscoreLoop f gameID ps d
   | Inr (Some pr) \<Rightarrow> boxscoreLoop f gameID ps (writeStats f gameID (prID pr) (mlbStatLines p) d))"

definition fetchMLBBoxscore :: "vendorNet \<Rightarrow> vfaults \<Rightarrow> string \<Rightarrow> int \<Rightarrow> vendorDb \<Rightarrow> vendorDb \<times> bool" where
  "fetchMLBBoxscore net f internalGameID gamePk d = (case netMlbBoxscore net gamePk of
     None \<Rightarrow> (d, False)
   | Some (home, away) \<Rightarrow> boxscoreLoop f internalGameID (home @ away) d)"

definition mlbResultStep :: "vendorNet \<Rightarrow> vfaults \<Rightarrow> (string \<times> GameRecord) list \<Rightarrow> vendorDb \<Rightarrow> mlbGame \<Rightarrow> vendorDb" where
  "mlbResultStep net f pkToGame d sg =
     (if mgState sg \<noteq> ''Final'' then d
      else case map_of pkToGame (itoa (mgGamePk sg)) of
        None \<Rightarrow> d
      | Some g \<Rightarrow> (case fetchMLBBoxscore net f (grID g) (mgGamePk sg) d of
          (d', False) \<Rightarrow> d'
        | (d', True) \<Rightarrow> fst (MarkGameFinal f (grID g) (mgHomeScore sg) (mgAwayScore sg) d')))"

definition FetchMLBResults :: "vendorNet \<Rightarrow> vfaults \<Rightarrow> GameRecord list \<Rightarrow> vendorDb \<Rightarrow> vendorDb" where
  "FetchMLBResults net f games d =
     (let mlb = filter (\<lambda>g. grLeagueID g = League_MLB) games;
          pks = map grExternalID mlb;
          pkToGame = foldl (\<lambda>m g. AList.update (grExternalID g) g m) [] mlb
      in if pks = [] then d
         else case netMlbStatus net pks of
           None \<Rightarrow> d
         | Some dates \<Rightarrow> foldl (mlbResultStep net f pkToGame) d (concat dates))"

section \<open>NFL\<close>

record nflPlayerAccum =
  naPassingYards :: int
  naPassingTDs :: int
  naInterceptions :: int
  naRushingYards :: int
  naRushingTDs :: int
  naReceivingYards :: int
  naReceivingTDs :: int
  naIsQB :: bool

definition emptyAccum :: nflPlayerAccum where
  "emptyAccum = \<lparr>naPassingYards = 0, naPassingTDs = 0, naInterceptions = 0, naRushingYards = 0, naRushingTDs = 0,
     naReceivingYards = 0, naReceivingTDs = 0, naIsQB = False\<rparr>"

definition statMap :: "(string \<times> jsonValue) list \<Rightarrow> (string \<times> jsonValue) list" where
  "statMap stats = foldl (\<lambda>m (name, v). AList.update name v m) [] stats"

definition statInt :: "vendorLib \<Rightarrow> (string \<times> jsonValue) list \<Rightarrow> string \<Rightarrow> int" where
  "statInt lib m name = (case map_of m name of
     Some (JNumber n) \<Rightarrow> n
   | Some (JString s) \<Rightarrow> (case parseInt64 s of
       Some n \<Rightarrow> n
     | None \<Rightarrow> (case libFloat lib s of None \<Rightarrow> 0 | Some n \<Rightarrow> n))
   | _ \<Rightarrow> 0)"

definition accumPlayer :: "vendorLib \<Rightarrow> string \<Rightarrow> (string \<times> jsonValue) list \<Rightarrow> nflPlayerAccum \<Rightarrow> nflPlayerAccum" where
  "accumPlayer lib grpName sm a =
     (if grpName = ''Passing'' then a\<lparr>naIsQB := True, naPassingYards := wrap64 (naPassingYards a + statInt lib sm ''yards''),
        naPassingTDs := wrap64 (naPassingTDs a + statInt lib sm ''passing touch downs''),
        naInterceptions := wrap64 (naInterceptions a + statInt lib sm ''interceptions'')\<rparr>
      else if grpName = ''Rushing'' then a\<lparr>naRushingYards := wrap64 (naRushingYards a + statInt lib sm ''yards''),
        naRushingTDs := wrap64 (naRushingTDs a + statInt lib sm ''rushing touch downs'')\<rparr>
      else if grpName = ''Receiving'' then a\<lparr>naReceivingYards := wrap64 (naReceivingYards a + statInt lib sm ''yards''),
        naReceivingTDs := wrap64 (naReceivingTDs a + statInt lib sm ''receiving touch downs'')\<rparr>
      else a)"

definition getAccum :: "(int \<times> nflPlayerAccum) list \<Rightarrow> int \<Rightarrow> nflPlayerAccum" where
  "getAccum accum i = (case map_of accum i of None \<Rightarrow> emptyAccum | Some a \<Rightarrow> a)"

definition accumGroup :: "vendorLib \<Rightarrow> (int \<times> nflPlayerAccum) list \<Rightarrow> nflGroup \<Rightarrow> (int \<times> nflPlayerAccum) list" where
  "accumGroup lib accum grp = foldl (\<lambda>m p.
     AList.update (nsID p) (accumPlayer lib (fst grp) (statMap (nsStatistics p)) (getAccum m (nsID p))) m) accum (snd grp)"

definition nflToWrite :: "nflPlayerAccum \<Rightarrow> (PropType \<times> int) list" where
  "nflToWrite a =
     (if naIsQB a then [(PropType_PASSING_YARDS, naPassingYards a), (PropType_TOUCHDOWNS, naPassingTDs a), (PropType_INTERCEPTIONS, naInterceptions a)]
      else [(PropType_TOUCHDOWNS, wrap64 (naRushingTDs a + naReceivingTDs a))]) @
     (if 0 < naRushingYards a then [(PropType_RUSHING_YARDS, naRushingYards a)] else []) @
     (if 0 < naReceivingYards a then [(PropType_RECEIVING_YARDS, naReceivingYards a)] else [])"

fun nflWriteLoop :: "vfaults \<Rightarrow> string \<Rightarrow> (int \<times> nflPlayerAccum) list \<Rightarrow> vendorDb \<Rightarrow> vendorDb \<times> bool" where
  "nflWriteLoop f gameID [] d = (d, True)"
| "nflWriteLoop f gameID ((extID, a) # accum) d = (case LookupPlayerByExternal f nflVendor (itoa extID) d of
     Inl _ \<Rightarrow> (d, False)
   | Inr None \<Rightarrow> nflWriteLoop f gameID accum d
   | Inr (Some pr) \<Rightarrow> nflWriteLoop f gameID accum (writeStats f gameID (prID pr) (nflToWrite a) d))"

definition fetchNFLPlayerStats :: "vendorLib \<Rightarrow> vendorNet \<Rightarrow> vfaults \<Rightarrow> string \<Rightarrow> string \<Rightarrow> vendorDb \<Rightarrow> vendorDb \<times> bool" where
  "fetchNFLPlayerStats lib net f internalGameID extGameID d = (case netNflStats net extGameID of
     None \<Rightarrow> (d, False)
   | Some entries \<Rightarrow> nflWriteLoop f internalGameID
       (orderBy fst (libRange lib internalGameID) (foldl (accumGroup lib) [] (concat entries))) d)"

text \<open>A score that is absent is taken as 0.\<close>

definition scoreOf :: "int option \<Rightarrow> int" where
  "scoreOf s = (case s of None \<Rightarrow> 0 | Some n \<Rightarrow> n)"

definition fetchNFLGameResult :: "vendorLib \<Rightarrow> vendorNet \<Rightarrow> vfaults \<Rightarrow> GameRecord \<Rightarrow> vendorDb \<Rightarrow> vendorDb" where
  "fetchNFLGameResult lib net f g d = (case netNflDetail net (grExternalID g) of
     None \<Rightarrow> d
   | Some [] \<Rightarrow> d
   | Some (r # _) \<Rightarrow>
       if vrStatus r \<noteq> ''FT'' then d
       else fst (MarkGameFinal f (grID g) (scoreOf (vrHomeScore r)) (scoreOf (vrAwayScore r))
         (fst (fetchNFLPlayerStats lib net f (grID g) (grExternalID g) d))))"

definition FetchNFLResults :: "vendorLib \<Rightarrow> vendorNet \<Rightarrow> vfaults \<Rightarrow> GameRecord list \<Rightarrow> vendorDb \<Rightarrow> vendorDb" where
  "FetchNFLResults lib net f games d =
     foldl (\<lambda>d g. if grLeagueID g \<noteq> League_NFL then d else fetchNFLGameResult lib net f g d) d games"

section \<open>Soccer\<close>

definition coerceNil :: "int option \<Rightarrow> int" where
  "coerceNil v = (case v of None \<Rightarrow> 0 | Some n \<Rightarrow> n)"

fun soccerStatsLoop :: "vfaults \<Rightarrow> string \<Rightarrow> soccerStatPlayer list \<Rightarrow> vendorDb \<Rightarrow> vendorDb \<times> bool" where
  "soccerStatsLoop f gameID [] d = (d, True)"
| "soccerStatsLoop f gameID (p # ps) d = (case ssLines p of
     [] \<Rightarrow> soccerStatsLoop f gameID ps d
   | (goals, assists, saves, yellow) # _ \<Rightarrow> (case LookupPlayerByExternal f soccerVendor (itoa (ssID p)) d of
       Inl _ \<Rightarrow> (d, False)
     | Inr None \<Rightarrow> soccerStatsLoop f gameID ps d
     | Inr (Some pr) \<Rightarrow> soccerStatsLoop f gameID ps (writeStats f gameID (prID pr)
         [(PropType_GOALS, coerceNil goals), (PropType_ASSISTS, coerceNil assists), (PropType_SAVES, coerceNil saves),
          (PropType_YELLOW_CARDS, coerceNil yellow)] d)))"

definition fetchSoccerTeamStats :: "vendorNet \<Rightarrow> vfaults \<Rightarrow> string \<Rightarrow> string \<Rightarrow> string \<Rightarrow> vendorDb \<Rightarrow> vendorDb \<times> bool" where
  "fetchSoccerTeamStats net f internalGameID fixtureExtID teamExtID d = (case netSoccerStats net fixtureExtID teamExtID of
     None \<Rightarrow> (d, False)
   | Some [] \<Rightarrow> (d, True)
   | Some (players # _) \<Rightarrow> soccerStatsLoop f internalGameID players d)"

definition fetchSoccerGameResult :: "vendorNet \<Rightarrow> vfaults \<Rightarrow> GameRecord \<Rightarrow> vendorDb \<Rightarrow> vendorDb" where
  "fetchSoccerGameResult net f g d = (case netSoccerDetail net (grExternalID g) of
     None \<Rightarrow> d
   | Some [] \<Rightarrow> d
   | Some (fix1 # _) \<Rightarrow>
       if vrStatus fix1 \<noteq> ''FT'' then d
       else fst (MarkGameFinal f (grID g) (scoreOf (vrHomeScore fix1)) (scoreOf (vrAwayScore fix1))
         (foldl (\<lambda>d teamExtID. fst (fetchSoccerTeamStats net f (grID g) (grExternalID g) teamExtID d)) d
            [itoa (vrHomeTeam fix1), itoa (vrAwayTeam fix1)])))"

definition FetchSoccerResults :: "vendorNet \<Rightarrow> vfaults \<Rightarrow> GameRecord list \<Rightarrow> vendorDb \<Rightarrow> vendorDb" where
  "FetchSoccerResults net f games d =
     foldl (\<lambda>d g. if grLeagueID g \<noteq> League_EPL \<and> grLeagueID g \<noteq> League_LA_LIGA \<and> grLeagueID g \<noteq> League_MLS then d
       else fetchSoccerGameResult net f g d) d games"

section \<open>EventFetcher\<close>

definition eventRunOnce :: "vendorLib \<Rightarrow> vendorNet \<Rightarrow> vfaults \<Rightarrow> int \<Rightarrow> string list \<Rightarrow> vendorDb \<Rightarrow> vendorDb" where
  "eventRunOnce lib net f now order d = (case ListActiveGames f now order d of
     None \<Rightarrow> d
   | Some games \<Rightarrow>
       let mlb = filter (\<lambda>g. grLeagueID g = League_MLB) games;
           soccer = filter (\<lambda>g. grLeagueID g \<in> {League_EPL, League_LA_LIGA, League_MLS}) games;
           nfl = filter (\<lambda>g. grLeagueID g = League_NFL) games;
           d1 = (if mlb \<noteq> [] then FetchMLBResults net f mlb d else d);
           d2 = (if soccer \<noteq> [] then FetchSoccerResults net f soccer d1 else d1)
       in if nfl \<noteq> [] then FetchNFLResults lib net f nfl d2 else d2)"

text \<open>\<open>Run\<close>: a first poll and one for every tick.\<close>

definition eventRun :: "(vendorLib \<times> vendorNet \<times> vfaults \<times> int \<times> string list) list \<Rightarrow> vendorDb \<Rightarrow> vendorDb" where
  "eventRun evs d = foldl (\<lambda>d (lib, net, f, now, order). eventRunOnce lib net f now order d) d evs"

end
