(* ===== verification/VendorLaws.thy ===== *)
theory VendorLaws
  imports VendorResults
begin

text \<open>
  The vendor reference data as a sequence of statements. The populator and the event
  fetcher run side by side; every statement either of them can execute is a step, the
  handlers are runs of such steps whatever the vendors answer and whatever fails, and the
  steps keep the constraints of the tables and the identity of every row.
\<close>

section \<open>Steps\<close>

inductive refStep :: "vendorDb \<Rightarrow> vendorDb \<Rightarrow> bool" where
  ref_season: "sqlSeason l y d = Some d' \<Longrightarrow> refStep d d'"
| ref_team: "sqlTeam t d = Some d' \<Longrightarrow> refStep d d'"
| ref_player_update: "sqlPlayerUpdate p i d = Some d' \<Longrightarrow> refStep d d'"
| ref_player_insert: "sqlPlayerInsert p d = PlayerInserted d' \<Longrightarrow> refStep d d'"
| ref_game: "sqlGame g d = Some d' \<Longrightarrow> refStep d d'"

text \<open>Results are written for the games \<open>G\<close>, and the games \<open>F\<close> are closed.\<close>

inductive resStep :: "string set \<Rightarrow> string set \<Rightarrow> vendorDb \<Rightarrow> vendorDb \<Rightarrow> bool" for G F where
  res_stat: "sqlStat k v d = Some d' \<Longrightarrow> fst k \<in> G \<Longrightarrow> resStep G F d d'"
| res_final: "sqlFinal i h a d = Some d' \<Longrightarrow> i \<in> F \<Longrightarrow> resStep G F d d'"

definition vStep :: "vendorDb \<Rightarrow> vendorDb \<Rightarrow> bool" where
  "vStep d d' \<longleftrightarrow> refStep d d' \<or> resStep UNIV UNIV d d'"

lemma resStep_mono: "resStep G F d d' \<Longrightarrow> G \<subseteq> G' \<Longrightarrow> F \<subseteq> F' \<Longrightarrow> resStep G' F' d d'"
  by (induction rule: resStep.induct) (auto intro: resStep.intros)

lemma resRun_mono: "(resStep G F)\<^sup>*\<^sup>* d d' \<Longrightarrow> G \<subseteq> G' \<Longrightarrow> F \<subseteq> F' \<Longrightarrow> (resStep G' F')\<^sup>*\<^sup>* d d'"
  by (induction rule: rtranclp_induct) (auto intro: rtranclp.rtrancl_into_rtrancl resStep_mono)

lemma refRun_vRun: "refStep\<^sup>*\<^sup>* d d' \<Longrightarrow> vStep\<^sup>*\<^sup>* d d'"
  by (induction rule: rtranclp_induct) (auto simp: vStep_def intro: rtranclp.rtrancl_into_rtrancl)

lemma resRun_vRun: "(resStep G F)\<^sup>*\<^sup>* d d' \<Longrightarrow> vStep\<^sup>*\<^sup>* d d'"
  by (induction rule: rtranclp_induct) (auto simp: vStep_def intro: rtranclp.rtrancl_into_rtrancl resStep_mono)

named_theorems vruns \<open>the operations of the vendor reference data are runs\<close>

lemma vexec_run: "(\<And>d'. result = Some d' \<Longrightarrow> R d d') \<Longrightarrow> R\<^sup>*\<^sup>* d (fst (vexec run result d))"
  by (auto simp: vexec_def split: vrun.split option.split)

lemma foldl_run: "(\<And>d x. x \<in> set xs \<Longrightarrow> R\<^sup>*\<^sup>* d (step d x)) \<Longrightarrow> R\<^sup>*\<^sup>* d (foldl step d xs)"
proof (induction xs arbitrary: d)
  case (Cons x xs)
  have "R\<^sup>*\<^sup>* d (step d x)" "R\<^sup>*\<^sup>* (step d x) (foldl step (step d x) xs)" using Cons by simp_all
  then show ?case by simp
qed simp

section \<open>Reference data\<close>

lemma UpsertSeason_run [vruns]: "refStep\<^sup>*\<^sup>* d (fst (UpsertSeason f l y d))"
  unfolding UpsertSeason_def by (rule vexec_run) (rule ref_season)

lemma UpsertTeam_run [vruns]: "refStep\<^sup>*\<^sup>* d (fst (UpsertTeam f t d))"
  unfolding UpsertTeam_def by (rule vexec_run) (rule ref_team)

lemma UpsertGame_run [vruns]: "refStep\<^sup>*\<^sup>* d (fst (UpsertGame f g d))"
  unfolding UpsertGame_def by (rule vexec_run) (rule ref_game)

lemma insertPlayerLoop_run: "refStep\<^sup>*\<^sup>* d (fst (insertPlayerLoop f p suffix n d))"
proof (induction n arbitrary: suffix)
  case (Suc n)
  have "refStep\<^sup>*\<^sup>* d d'" if "sqlPlayerInsert (p\<lparr>prID := i\<rparr>) d = PlayerInserted d'" for i d'
    using ref_player_insert [OF that] by simp
  with Suc show ?case by (auto simp: Let_def split: vrun.split playerInsert.split)
qed simp

lemma UpsertPlayer_run [vruns]: "refStep\<^sup>*\<^sup>* d (fst (UpsertPlayer f p d))"
  unfolding UpsertPlayer_def
  by (auto simp: insertPlayerLoop_run split: option.split intro!: vexec_run ref_player_update)

lemma teamsLoop_run [vruns]: "refStep\<^sup>*\<^sup>* d (snd (teamsLoop lib f league vendor ts codes d))"
  by (induction ts arbitrary: codes d) (auto intro: rtranclp_trans [OF UpsertTeam_run])

lemma rosterLoop_run [vruns]: "refStep\<^sup>*\<^sup>* d (fst (rosterLoop lib f league vendor positions code ps d))"
  by (induction ps arbitrary: d) (auto split: option.split intro: rtranclp_trans [OF UpsertPlayer_run])

lemma fetchMLBRoster_run [vruns]: "refStep\<^sup>*\<^sup>* d (fst (fetchMLBRoster lib net f i code year d))"
  by (auto simp: fetchMLBRoster_def vruns split: option.split)

lemma fetchNFLRoster_run [vruns]: "refStep\<^sup>*\<^sup>* d (fst (fetchNFLRoster lib net f i code year d))"
  by (auto simp: fetchNFLRoster_def vruns split: option.split)

lemma rostersLoop_run:
  assumes "\<And>i code d. refStep\<^sup>*\<^sup>* d (fst (fetch i code d))"
  shows "refStep\<^sup>*\<^sup>* d (fst (rostersLoop fetch ts d))"
proof (induction ts arbitrary: d)
  case (Cons t ts)
  obtain d' r where d': "fetch (vtID t) (vtCode t) d = (d', r)" by fastforce
  with assms [of d "vtID t" "vtCode t"] have "refStep\<^sup>*\<^sup>* d d'" by simp
  then show ?case using Cons [of d'] d' by (cases r) (auto intro: rtranclp_trans)
qed simp

lemma mlbGameStep_run [vruns]: "refStep\<^sup>*\<^sup>* d (mlbGameStep lib f year codes d g)"
  by (auto simp: mlbGameStep_def Let_def vruns split: option.split)

lemma nflGameStep_run [vruns]: "refStep\<^sup>*\<^sup>* d (nflGameStep lib f year codes d g)"
  by (auto simp: nflGameStep_def Let_def vruns)

lemma soccerGameStep_run [vruns]: "refStep\<^sup>*\<^sup>* d (soccerGameStep lib f league year codes d g)"
  by (auto simp: soccerGameStep_def Let_def vruns)

lemma fetchNFLWeek_run [vruns]: "refStep\<^sup>*\<^sup>* d (fetchNFLWeek lib net f year codes d week)"
  by (auto simp: fetchNFLWeek_def intro!: foldl_run nflGameStep_run split: option.split)

text \<open>Season, teams and rosters in turn, and then the games: the frame the MLB and NFL fetchers share.\<close>

lemma season_run: "UpsertSeason f l y d = (d1, ok) \<Longrightarrow> refStep\<^sup>*\<^sup>* d d1"
  using UpsertSeason_run [of d f l y] by simp

lemma teams_run: "teamsLoop lib f league vendor ts codes d1 = (codes', d2) \<Longrightarrow> refStep\<^sup>*\<^sup>* d d1 \<Longrightarrow> refStep\<^sup>*\<^sup>* d d2"
  using teamsLoop_run [of d1 lib f league vendor ts codes] by auto

lemma rosters_run:
  "rostersLoop fetch ts d2 = (d3, ok) \<Longrightarrow> (\<And>i code d. refStep\<^sup>*\<^sup>* d (fst (fetch i code d))) \<Longrightarrow> refStep\<^sup>*\<^sup>* d d2 \<Longrightarrow> refStep\<^sup>*\<^sup>* d d3"
  using rostersLoop_run [of fetch d2 ts] by auto

lemma FetchMLBRefData_run [vruns]: "refStep\<^sup>*\<^sup>* d (fst (FetchMLBRefData lib net f year d))"
proof -
  obtain d1 ok where 1: "UpsertSeason f League_MLB year d = (d1, ok)" by fastforce
  note r1 = season_run [OF 1]
  show ?thesis
  proof (cases "netMlbTeams net year")
    case (Some teams)
    obtain codes d2 where 2: "teamsLoop lib f League_MLB mlbVendor teams [] d1 = (codes, d2)" by fastforce
    obtain d3 alive where 3: "rostersLoop (\<lambda>i code. fetchMLBRoster lib net f i code year) teams d2 = (d3, alive)" by fastforce
    have r3: "refStep\<^sup>*\<^sup>* d d3" by (rule rosters_run [OF 3 fetchMLBRoster_run teams_run [OF 2 r1]])
    then have "refStep\<^sup>*\<^sup>* d (foldl (mlbGameStep lib f year codes) d3 games)" for games
      using foldl_run [of games refStep "mlbGameStep lib f year codes" d3] mlbGameStep_run by (meson rtranclp_trans)
    then show ?thesis using r1 r3 Some by (auto simp: FetchMLBRefData_def 1 2 3 split: bool.split option.split)
  qed (use r1 in \<open>auto simp: FetchMLBRefData_def 1 split: bool.split\<close>)
qed

lemma FetchNFLRefData_run [vruns]: "refStep\<^sup>*\<^sup>* d (fst (FetchNFLRefData lib net f year d))"
proof -
  obtain d1 ok where 1: "UpsertSeason f League_NFL year d = (d1, ok)" by fastforce
  note r1 = season_run [OF 1]
  show ?thesis
  proof (cases "netNflTeams net year")
    case (Some teams)
    obtain codes d2 where 2: "teamsLoop lib f League_NFL nflVendor teams [] d1 = (codes, d2)" by fastforce
    obtain d3 alive where 3: "rostersLoop (\<lambda>i code. fetchNFLRoster lib net f i code year) teams d2 = (d3, alive)" by fastforce
    have r3: "refStep\<^sup>*\<^sup>* d d3" by (rule rosters_run [OF 3 fetchNFLRoster_run teams_run [OF 2 r1]])
    then have "refStep\<^sup>*\<^sup>* d (foldl (fetchNFLWeek lib net f year codes) d3 weeks)" for weeks
      using foldl_run [of weeks refStep "fetchNFLWeek lib net f year codes" d3] fetchNFLWeek_run by (meson rtranclp_trans)
    then show ?thesis using r1 r3 Some by (auto simp: FetchNFLRefData_def 1 2 3 split: bool.split)
  qed (use r1 in \<open>auto simp: FetchNFLRefData_def 1 split: bool.split\<close>)
qed

lemma soccerPlayersLoop_run [vruns]: "refStep\<^sup>*\<^sup>* d (fst (soccerPlayersLoop lib f league codes ps d))"
  by (induction ps arbitrary: d) (auto simp: Let_def split: option.split list.split intro: rtranclp_trans [OF UpsertPlayer_run])

lemma soccerPages_run: "soccerPages lib net f league lid year codes page d = Some res \<Longrightarrow> refStep\<^sup>*\<^sup>* d (fst res)"
proof (induction rule: soccerPages.raw_induct [rotated, consumes 1])
  case (1 pages lib net f league lid year codes page d res)
  show ?case
  proof (cases "netSoccerPlayers net lid year page")
    case (Some resp)
    obtain d' alive where d': "soccerPlayersLoop lib f league codes (sgPlayers resp) d = (d', alive)" by fastforce
    with soccerPlayersLoop_run [of d lib f league codes "sgPlayers resp"] have r: "refStep\<^sup>*\<^sup>* d d'" by simp
    show ?thesis
    proof (cases "alive \<and> \<not> sgTotal resp \<le> sgCurrent resp")
      case True
      with 1(2) Some d' have "pages lib net f league lid year codes (page + 1) d' = Some res" by simp
      from 1(1) [OF this] r show ?thesis by (rule rtranclp_trans [rotated])
    next
      case False
      with 1(2) Some d' r show ?thesis by (auto split: if_splits)
    qed
  qed (use 1(2) in auto)
qed

lemma FetchSoccerRefData_run:
  assumes "FetchSoccerRefData lib net f lid year d = Some (d', r)"
  shows "refStep\<^sup>*\<^sup>* d d'"
proof (cases "map_of soccerLeagueMap lid")
  case (Some league)
  obtain d1 ok where 1: "UpsertSeason f league year d = (d1, ok)" by fastforce
  note r1 = season_run [OF 1]
  show ?thesis
  proof (cases "ok \<and> netSoccerTeams net lid year \<noteq> None")
    case True
    then obtain teams where ok: "ok" and teams: "netSoccerTeams net lid year = Some teams" by blast
    obtain codes d2 where 2: "teamsLoop lib f league soccerVendor teams [] d1 = (codes, d2)" by fastforce
    from assms Some 1 ok teams 2 obtain d3 r3 where 3: "soccerPages lib net f league lid year codes 1 d2 = Some (d3, r3)"
      and d': "d' = d3 \<or> (\<exists>games. d' = foldl (soccerGameStep lib f league year codes) d3 games)"
      by (auto simp: FetchSoccerRefData_def bind_eq_Some_conv split: if_splits option.splits)
    have "refStep\<^sup>*\<^sup>* d d3" using teams_run [OF 2 r1] soccerPages_run [OF 3] by (simp add: rtranclp_trans)
    then show ?thesis using d' foldl_run [of _ refStep "soccerGameStep lib f league year codes" d3] soccerGameStep_run by (meson rtranclp_trans)
  next
    case False
    with assms Some 1 r1 show ?thesis by (auto simp: FetchSoccerRefData_def split: bool.splits option.splits)
  qed
qed (use assms in \<open>simp add: FetchSoccerRefData_def\<close>)

lemma populateSoccer_run: "populateSoccer lib net f year ls d = Some (d', alive) \<Longrightarrow> refStep\<^sup>*\<^sup>* d d'"
proof (induction ls arbitrary: d)
  case (Cons l ls)
  then obtain d1 r where 1: "FetchSoccerRefData lib net f l year d = Some (d1, r)"
    and d': "d' = d1 \<or> populateSoccer lib net f year ls d1 = Some (d', alive)"
    by (auto simp: bind_eq_Some_conv split: if_splits)
  from FetchSoccerRefData_run [OF 1] d' Cons.IH [of d1] show ?case by (auto intro: rtranclp_trans)
qed simp

lemma populatorRunOnce_run:
  assumes "populatorRunOnce lib net f year d = Some (d', alive)"
  shows "refStep\<^sup>*\<^sup>* d d'"
proof -
  obtain d1 r where 1: "FetchMLBRefData lib net f year d = (d1, r)" by fastforce
  with FetchMLBRefData_run [of d lib net f year] have r1: "refStep\<^sup>*\<^sup>* d d1" by simp
  show ?thesis
  proof (cases "r = FetchPanic")
    case True
    with assms 1 r1 show ?thesis by (simp add: populatorRunOnce_def)
  next
    case False
    with assms 1 obtain d2 a where 2: "populateSoccer lib net f year soccerLeagueIDs d1 = Some (d2, a)"
      and d': "d' = d2 \<or> d' = fst (FetchNFLRefData lib net f year d2)"
      by (cases r) (auto simp: populatorRunOnce_def bind_eq_Some_conv split: if_splits prod.splits)
    show ?thesis using r1 populateSoccer_run [OF 2] d' FetchNFLRefData_run [of d2 lib net f year] by (auto intro: rtranclp_trans)
  qed
qed

lemma populatorRun_run: "populatorRun rounds year d = Some (d', alive) \<Longrightarrow> refStep\<^sup>*\<^sup>* d d'"
proof (induction rounds arbitrary: d)
  case (Cons r rounds)
  obtain lib net f where r: "r = (lib, net, f)" by (cases r)
  with Cons.prems obtain d1 a where 1: "populatorRunOnce lib net f year d = Some (d1, a)"
    and d': "d' = d1 \<or> populatorRun rounds year d1 = Some (d', alive)"
    by (auto simp: bind_eq_Some_conv split: if_splits)
  from populatorRunOnce_run [OF 1] d' Cons.IH [of d1] show ?case by (auto intro: rtranclp_trans)
qed simp

section \<open>Results\<close>

lemma writeStats_run: "gameID \<in> G \<Longrightarrow> (resStep G F)\<^sup>*\<^sup>* d (writeStats f gameID playerID stats d)"
  unfolding writeStats_def
  by (rule foldl_run) (auto simp: UpsertPlayerStat_def intro!: vexec_run res_stat)

lemma MarkGameFinal_run: "i \<in> F \<Longrightarrow> (resStep G F)\<^sup>*\<^sup>* d (fst (MarkGameFinal f i h a d))"
  unfolding MarkGameFinal_def by (rule vexec_run) (rule res_final)

lemma boxscoreLoop_run: "gameID \<in> G \<Longrightarrow> (resStep G F)\<^sup>*\<^sup>* d (fst (boxscoreLoop f gameID ps d))"
  by (induction ps arbitrary: d) (auto split: sum.split option.split intro: rtranclp_trans [OF writeStats_run])

lemma nflWriteLoop_run: "gameID \<in> G \<Longrightarrow> (resStep G F)\<^sup>*\<^sup>* d (fst (nflWriteLoop f gameID accum d))"
  by (induction f gameID accum d rule: nflWriteLoop.induct) (auto split: sum.split option.split intro: rtranclp_trans [OF writeStats_run])

lemma soccerStatsLoop_run: "gameID \<in> G \<Longrightarrow> (resStep G F)\<^sup>*\<^sup>* d (fst (soccerStatsLoop f gameID ps d))"
  by (induction ps arbitrary: d) (auto split: sum.split option.split list.split intro: rtranclp_trans [OF writeStats_run])

text \<open>An MLB game can be closed only if its box score can be read.\<close>

definition closable :: "vendorNet \<Rightarrow> GameRecord \<Rightarrow> bool" where
  "closable net g \<longleftrightarrow> (grLeagueID g = League_MLB \<longrightarrow> (\<exists>pk. itoa pk = grExternalID g \<and> netMlbBoxscore net pk \<noteq> None))"

abbreviation resRun :: "vendorNet \<Rightarrow> GameRecord list \<Rightarrow> vendorDb \<Rightarrow> vendorDb \<Rightarrow> bool" where
  "resRun net games \<equiv> (resStep (grID ` set games) (grID ` {g \<in> set games. closable net g}))\<^sup>*\<^sup>*"

lemma map_of_updates: "map_of (foldl (\<lambda>m g. AList.update (key g) g m) m gs) k = Some g \<Longrightarrow> map_of m k = Some g \<or> (g \<in> set gs \<and> key g = k)"
proof (induction gs arbitrary: m)
  case (Cons x gs)
  from Cons.IH [of "AList.update (key x) x m"] Cons.prems
  have "map_of (AList.update (key x) x m) k = Some g \<or> g \<in> set gs \<and> key g = k" by simp
  then show ?case by (cases "k = key x") (auto simp: update_conv')
qed simp

lemma mlbResultStep_run:
  assumes "\<And>k g. map_of pkToGame k = Some g \<Longrightarrow> g \<in> set games \<and> grExternalID g = k"
  shows "resRun net games d (mlbResultStep net f pkToGame d sg)"
proof (cases "map_of pkToGame (itoa (mgGamePk sg))")
  case (Some g)
  then have g: "g \<in> set games" "grExternalID g = itoa (mgGamePk sg)" using assms by auto
  obtain d' ok where d': "fetchMLBBoxscore net f (grID g) (mgGamePk sg) d = (d', ok)" by fastforce
  have r: "resRun net games d d'" if "netMlbBoxscore net (mgGamePk sg) = Some (h, a)" for h a
    using boxscoreLoop_run [of "grID g" "grID ` set games" "grID ` {g \<in> set games. closable net g}" d f "h @ a"] g(1) d' that
    by (simp add: fetchMLBBoxscore_def)
  show ?thesis
  proof (cases "netMlbBoxscore net (mgGamePk sg)")
    case None
    with d' Some show ?thesis by (simp add: mlbResultStep_def fetchMLBBoxscore_def)
  next
    case box: (Some ha)
    then have "closable net g" using g(2) by (auto simp: closable_def)
    then have "resRun net games d' (fst (MarkGameFinal f (grID g) h a d'))" for h a using g(1) by (auto intro: MarkGameFinal_run)
    with r [of "fst ha" "snd ha"] box d' Some show ?thesis by (cases ok) (auto simp: mlbResultStep_def intro: rtranclp_trans)
  qed
qed (simp add: mlbResultStep_def)

lemma FetchMLBResults_run: "resRun net games d (FetchMLBResults net f games d)"
proof -
  let ?mlb = "filter (\<lambda>g. grLeagueID g = League_MLB) games"
  let ?pks = "foldl (\<lambda>m g. AList.update (grExternalID g) g m) [] ?mlb"
  have "map_of ?pks k = Some g \<Longrightarrow> g \<in> set games \<and> grExternalID g = k" for k g
    using map_of_updates [of grExternalID "[]" ?mlb k g] by simp
  then have "resRun net games d (foldl (mlbResultStep net f ?pks) d sgs)" for sgs
    by (intro foldl_run mlbResultStep_run)
  then show ?thesis unfolding FetchMLBResults_def Let_def by (simp split: option.split)
qed

lemma fetchNFLGameResult_run:
  assumes "g \<in> set games" and "grLeagueID g \<noteq> League_MLB"
  shows "resRun net games d (fetchNFLGameResult lib net f g d)"
proof -
  have "grID g \<in> grID ` set games" "grID g \<in> grID ` {g \<in> set games. closable net g}" using assms by (auto simp: closable_def)
  then show ?thesis
    by (auto simp: fetchNFLGameResult_def fetchNFLPlayerStats_def split: option.split list.split
        intro!: rtranclp_trans [OF nflWriteLoop_run MarkGameFinal_run] MarkGameFinal_run)
qed

lemma fetchSoccerTeamStats_run: "gameID \<in> G \<Longrightarrow> (resStep G F)\<^sup>*\<^sup>* d (fst (fetchSoccerTeamStats net f gameID fix1 team d))"
  by (auto simp: fetchSoccerTeamStats_def soccerStatsLoop_run split: option.split list.split)

lemma fetchSoccerGameResult_run:
  assumes "g \<in> set games" and "grLeagueID g \<noteq> League_MLB"
  shows "resRun net games d (fetchSoccerGameResult net f g d)"
proof -
  have "grID g \<in> grID ` set games" "grID g \<in> grID ` {g \<in> set games. closable net g}" using assms by (auto simp: closable_def)
  then show ?thesis
    by (auto simp: fetchSoccerGameResult_def split: option.split list.split
        intro!: rtranclp_trans [OF rtranclp_trans [OF fetchSoccerTeamStats_run fetchSoccerTeamStats_run] MarkGameFinal_run])
qed

lemma FetchNFLResults_run: "resRun net games d (FetchNFLResults lib net f games d)"
  unfolding FetchNFLResults_def by (rule foldl_run) (auto intro: fetchNFLGameResult_run)

lemma FetchSoccerResults_run: "resRun net games d (FetchSoccerResults net f games d)"
  unfolding FetchSoccerResults_def by (rule foldl_run) (auto intro: fetchSoccerGameResult_run)

lemma resRun_filter: "resRun net (filter P games) d d' \<Longrightarrow> resRun net games d d'"
  by (rule resRun_mono) auto

lemma eventRunOnce_run:
  "(\<exists>games. ListActiveGames f now order d = Some games \<and> resRun net games d (eventRunOnce lib net f now order d)) \<or>
   eventRunOnce lib net f now order d = d"
proof (cases "ListActiveGames f now order d")
  case (Some games)
  let ?mlb = "filter (\<lambda>g. grLeagueID g = League_MLB) games" and ?nfl = "filter (\<lambda>g. grLeagueID g = League_NFL) games"
    and ?soc = "filter (\<lambda>g. grLeagueID g \<in> {League_EPL, League_LA_LIGA, League_MLS}) games"
  let ?d1 = "if ?mlb \<noteq> [] then FetchMLBResults net f ?mlb d else d"
  let ?d2 = "if ?soc \<noteq> [] then FetchSoccerResults net f ?soc ?d1 else ?d1"
  have "resRun net games d ?d1" using resRun_filter [OF FetchMLBResults_run] by simp
  moreover have "resRun net games ?d1 ?d2" using resRun_filter [OF FetchSoccerResults_run] by simp
  moreover have "resRun net games ?d2 (if ?nfl \<noteq> [] then FetchNFLResults lib net f ?nfl ?d2 else ?d2)"
    using resRun_filter [OF FetchNFLResults_run] by simp
  ultimately have "resRun net games d (if ?nfl \<noteq> [] then FetchNFLResults lib net f ?nfl ?d2 else ?d2)" by (meson rtranclp_trans)
  then have "resRun net games d (eventRunOnce lib net f now order d)"
    by (simp only: eventRunOnce_def Some option.case Let_def)
  with Some show ?thesis by blast
qed (simp add: eventRunOnce_def)

section \<open>Constraints and identity\<close>

text \<open>The constraints of each table, over the keys of the tables it refers to.\<close>

definition teamsOk :: "TeamRecord list \<Rightarrow> bool" where
  "teamsOk ts \<longleftrightarrow> distinct (map trID ts) \<and> distinct (map teamExt ts) \<and> trLeagueID ` set ts \<subseteq> set leagueIDs"

definition playersOk :: "string set \<Rightarrow> PlayerRecord list \<Rightarrow> bool" where
  "playersOk teams ps \<longleftrightarrow> distinct (map prID ps) \<and> distinct (map playerExt ps) \<and> prTeamID ` set ps \<subseteq> teams"

definition gamesOk :: "(int \<times> int) set \<Rightarrow> string set \<Rightarrow> GameRecord list \<Rightarrow> bool" where
  "gamesOk seasons teams gs \<longleftrightarrow> distinct (map grID gs) \<and> distinct (map gameExt gs) \<and>
     (\<lambda>g. (grLeagueID g, grSeasonYear g)) ` set gs \<subseteq> seasons \<and> grHomeTeamID ` set gs \<subseteq> teams \<and> grAwayTeamID ` set gs \<subseteq> teams"

definition statsOk :: "string set \<Rightarrow> string set \<Rightarrow> (statKey \<times> int) list \<Rightarrow> bool" where
  "statsOk games players stats \<longleftrightarrow> distinct (map fst stats) \<and> (\<forall>k \<in> fst ` set stats. fst k \<in> games \<and> fst (snd k) \<in> players)"

definition vdbOk :: "vendorDb \<Rightarrow> bool" where
  "vdbOk d \<longleftrightarrow> fst ` set (vdSeasons d) \<subseteq> set leagueIDs \<and> teamsOk (vdTeams d) \<and>
     playersOk (trID ` set (vdTeams d)) (vdPlayers d) \<and>
     gamesOk (set (vdSeasons d)) (trID ` set (vdTeams d)) (vdGames d) \<and>
     statsOk (grID ` set (vdGames d)) (prID ` set (vdPlayers d)) (vdStats d)"

text \<open>What a row stands for: its id, its number at the vendor, and what never changes about it.\<close>

definition teamIdent :: "TeamRecord \<Rightarrow> string \<times> (string \<times> string) \<times> int" where
  "teamIdent t = (trID t, teamExt t, trLeagueID t)"

definition playerIdent :: "PlayerRecord \<Rightarrow> string \<times> string \<times> string" where
  "playerIdent p = (prID p, playerExt p)"

definition gameIdent :: "GameRecord \<Rightarrow> string \<times> (string \<times> string) \<times> int \<times> int \<times> string \<times> string" where
  "gameIdent g = (grID g, gameExt g, grLeagueID g, grSeasonYear g, grHomeTeamID g, grAwayTeamID g)"

definition finals :: "GameRecord list \<Rightarrow> string set" where
  "finals gs = grID ` {g \<in> set gs. grStatus g = ''FINAL''}"

definition keeps :: "vendorDb \<Rightarrow> vendorDb \<Rightarrow> bool" where
  "keeps d d' \<longleftrightarrow> teamIdent ` set (vdTeams d) \<subseteq> teamIdent ` set (vdTeams d') \<and>
     playerIdent ` set (vdPlayers d) \<subseteq> playerIdent ` set (vdPlayers d') \<and>
     gameIdent ` set (vdGames d) \<subseteq> gameIdent ` set (vdGames d') \<and>
     finals (vdGames d) \<subseteq> finals (vdGames d') \<and> fst ` set (vdStats d) \<subseteq> fst ` set (vdStats d')"

lemma keeps_refl: "keeps d d"
  by (simp add: keeps_def)

lemma keeps_trans: "keeps d d' \<Longrightarrow> keeps d' d'' \<Longrightarrow> keeps d d''"
  unfolding keeps_def by (elim conjE, intro conjI; erule (1) subset_trans)

lemma playersOk_mono: "playersOk teams ps \<Longrightarrow> teams \<subseteq> teams' \<Longrightarrow> playersOk teams' ps"
  unfolding playersOk_def by (elim conjE, intro conjI) (assumption | erule (1) subset_trans)+

lemma gamesOk_mono: "gamesOk ss teams gs \<Longrightarrow> ss \<subseteq> ss' \<Longrightarrow> teams \<subseteq> teams' \<Longrightarrow> gamesOk ss' teams' gs"
  unfolding gamesOk_def by (elim conjE, intro conjI) (assumption | erule (1) subset_trans)+

lemma statsOk_mono: "statsOk gs ps st \<Longrightarrow> gs \<subseteq> gs' \<Longrightarrow> ps \<subseteq> ps' \<Longrightarrow> statsOk gs' ps' st"
  by (auto simp: statsOk_def)

text \<open>Changing the other columns of some rows keeps keys and identities.\<close>

lemma map_update_key: "(\<And>r. f (u r) = f r) \<Longrightarrow> map f (map (\<lambda>r. if P r then u r else r) rows) = map f rows"
  by (induction rows) auto

lemma image_update_key:
  assumes "\<And>r. f (u r) = f r"
  shows "f ` set (map (\<lambda>r. if P r then u r else r) rows) = f ` set rows"
  using map_update_key [of f u P rows, OF assms] by (metis list.set_map)

lemma sqlSeason_ok:
  assumes "sqlSeason l y d = Some d'" and "vdbOk d"
  shows "vdbOk d' \<and> keeps d d'"
proof (cases "(l, y) \<in> set (vdSeasons d)")
  case True
  with assms show ?thesis by (simp add: sqlSeason_def keeps_refl)
next
  case False
  with assms(1) have "l \<in> set leagueIDs" "d' = d\<lparr>vdSeasons := vdSeasons d @ [(l, y)]\<rparr>" by (simp_all add: sqlSeason_def split: if_splits)
  with assms(2) gamesOk_mono [of "set (vdSeasons d)" _ _ "set (vdSeasons d')"] show ?thesis by (auto simp: vdbOk_def keeps_def)
qed

lemma sqlTeam_ok:
  assumes "sqlTeam t d = Some d'" and "vdbOk d"
  shows "vdbOk d' \<and> keeps d d'"
proof (cases "list_ex (\<lambda>r. teamExt r = teamExt t) (vdTeams d)")
  case True
  let ?ts = "map (\<lambda>r. if teamExt r = teamExt t then r\<lparr>trName := trName t, trShortName := trShortName t\<rparr> else r) (vdTeams d)"
  from True assms(1) have d': "d' = d\<lparr>vdTeams := ?ts\<rparr>" by (simp add: sqlTeam_def)
  have "map trID ?ts = map trID (vdTeams d)" "map teamExt ?ts = map teamExt (vdTeams d)" by (rule map_update_key; simp)+
  moreover have i: "trID ` set ?ts = trID ` set (vdTeams d)" "trLeagueID ` set ?ts = trLeagueID ` set (vdTeams d)"
    "teamIdent ` set ?ts = teamIdent ` set (vdTeams d)" by (rule image_update_key; simp add: teamIdent_def)+
  ultimately have "teamsOk ?ts" using assms(2) unfolding vdbOk_def teamsOk_def by metis
  with assms(2) i show ?thesis unfolding d' vdbOk_def keeps_def vendorDb.simps by simp
next
  case False
  then have f: "trID t \<notin> trID ` set (vdTeams d)" "trLeagueID t \<in> set leagueIDs" and d': "d' = d\<lparr>vdTeams := vdTeams d @ [t]\<rparr>"
    using assms(1) by (auto simp: sqlTeam_def list_ex_iff split: if_splits)
  have "teamExt t \<notin> teamExt ` set (vdTeams d)" using False by (auto simp: list_ex_iff)
  then have "teamsOk (vdTeams d @ [t])" using assms(2) f by (simp add: vdbOk_def teamsOk_def)
  moreover have "trID ` set (vdTeams d) \<subseteq> trID ` set (vdTeams d @ [t])" by auto
  ultimately show ?thesis using assms(2) playersOk_mono gamesOk_mono unfolding d' vdbOk_def keeps_def by auto
qed

lemma sqlPlayerUpdate_ok:
  assumes "sqlPlayerUpdate p i d = Some d'" and "vdbOk d"
  shows "vdbOk d' \<and> keeps d d'"
proof -
  let ?ps = "map (\<lambda>r. if prID r = i then r\<lparr>prName := prName p, prTeamID := prTeamID p, prPositions := prPositions p\<rparr> else r) (vdPlayers d)"
  from assms(1) have d': "d' = d\<lparr>vdPlayers := ?ps\<rparr>"
    and t: "(\<exists>r \<in> set (vdPlayers d). prID r = i) \<longrightarrow> prTeamID p \<in> trID ` set (vdTeams d)"
    by (auto simp: sqlPlayerUpdate_def list_ex_key split: if_splits)
  have m: "map prID ?ps = map prID (vdPlayers d)" "map playerExt ?ps = map playerExt (vdPlayers d)" by (rule map_update_key; simp)+
  have i: "prID ` set ?ps = prID ` set (vdPlayers d)" "playerIdent ` set ?ps = playerIdent ` set (vdPlayers d)"
    by (rule image_update_key; simp add: playerIdent_def)+
  have "prTeamID ` set ?ps \<subseteq> trID ` set (vdTeams d)"
    using assms(2) t by (auto simp: vdbOk_def playersOk_def split: if_splits)
  then have "playersOk (trID ` set (vdTeams d)) ?ps" using assms(2) m unfolding vdbOk_def playersOk_def by metis
  with assms(2) i show ?thesis unfolding d' vdbOk_def keeps_def vendorDb.simps by simp
qed

lemma sqlPlayerInsert_ok:
  assumes "sqlPlayerInsert p d = PlayerInserted d'" and "vdbOk d"
  shows "vdbOk d' \<and> keeps d d'"
proof -
  from assms(1) have d': "d' = d\<lparr>vdPlayers := vdPlayers d @ [p]\<rparr>" and n: "prID p \<notin> prID ` set (vdPlayers d)"
      "\<not> list_ex (\<lambda>r. playerExt r = playerExt p) (vdPlayers d)" "prTeamID p \<in> trID ` set (vdTeams d)"
    by (auto simp: sqlPlayerInsert_def list_ex_key split: if_splits)
  have "playerExt p \<notin> playerExt ` set (vdPlayers d)" by (rule n(2) [unfolded list_ex_key])
  with n have "playersOk (trID ` set (vdTeams d)) (vdPlayers d @ [p])" using assms(2) by (simp add: vdbOk_def playersOk_def)
  moreover have "prID ` set (vdPlayers d) \<subseteq> prID ` set (vdPlayers d @ [p])" by auto
  ultimately show ?thesis using assms(2) statsOk_mono [of "grID ` set (vdGames d)"] unfolding d' vdbOk_def keeps_def by auto
qed

text \<open>An update of games that keeps their identity, and leaves closed games closed.\<close>

lemma updateGames_ok:
  assumes "vdbOk d" and "\<And>g. gameIdent (u g) = gameIdent g" and "\<And>g. grStatus g = ''FINAL'' \<Longrightarrow> grStatus (u g) = ''FINAL''"
    and "d' = d\<lparr>vdGames := map (\<lambda>r. if P r then u r else r) (vdGames d)\<rparr>"
  shows "vdbOk d' \<and> keeps d d'"
proof -
  let ?gs = "map (\<lambda>r. if P r then u r else r) (vdGames d)"
  have u: "grID (u g) = grID g" "gameExt (u g) = gameExt g" "grLeagueID (u g) = grLeagueID g" "grSeasonYear (u g) = grSeasonYear g"
    "grHomeTeamID (u g) = grHomeTeamID g" "grAwayTeamID (u g) = grAwayTeamID g" for g
    using assms(2) [of g] by (simp_all add: gameIdent_def)
  have m: "map grID ?gs = map grID (vdGames d)" "map gameExt ?gs = map gameExt (vdGames d)" by (rule map_update_key; simp add: u)+
  have i: "grID ` set ?gs = grID ` set (vdGames d)" "gameIdent ` set ?gs = gameIdent ` set (vdGames d)"
    "(\<lambda>g. (grLeagueID g, grSeasonYear g)) ` set ?gs = (\<lambda>g. (grLeagueID g, grSeasonYear g)) ` set (vdGames d)"
    "grHomeTeamID ` set ?gs = grHomeTeamID ` set (vdGames d)" "grAwayTeamID ` set ?gs = grAwayTeamID ` set (vdGames d)"
    by (rule image_update_key; simp add: u assms(2))+
  have "gamesOk (set (vdSeasons d)) (trID ` set (vdTeams d)) ?gs"
    using assms(1) unfolding vdbOk_def gamesOk_def m i by blast
  moreover have "finals (vdGames d) \<subseteq> finals ?gs"
  proof
    fix i assume "i \<in> finals (vdGames d)"
    then obtain g where g: "g \<in> set (vdGames d)" "grStatus g = ''FINAL''" "i = grID g" by (auto simp: finals_def)
    then have "(if P g then u g else g) \<in> set ?gs" "grStatus (if P g then u g else g) = ''FINAL''" "grID (if P g then u g else g) = i"
      using assms(3) u(1) by auto
    then show "i \<in> finals ?gs" unfolding finals_def by blast
  qed
  ultimately show ?thesis using assms(1) i unfolding assms(4) vdbOk_def keeps_def vendorDb.simps by simp
qed

lemma sqlFinal_ok: "sqlFinal i h a d = Some d' \<Longrightarrow> vdbOk d \<Longrightarrow> vdbOk d' \<and> keeps d d'"
  by (rule updateGames_ok [where P = "\<lambda>r. grID r = i" and
        u = "\<lambda>r. r\<lparr>grStatus := ''FINAL'', grHomeScore := Some h, grAwayScore := Some a\<rparr>"])
    (simp_all add: sqlFinal_def gameIdent_def)

lemma sqlGame_ok:
  assumes "sqlGame g d = Some d'" and "vdbOk d"
  shows "vdbOk d' \<and> keeps d d'"
proof (cases "list_ex (\<lambda>r. gameExt r = gameExt g) (vdGames d)")
  case True
  with assms(1) show ?thesis
    by (intro updateGames_ok [OF assms(2), where P = "\<lambda>r. gameExt r = gameExt g" and
          u = "\<lambda>r. r\<lparr>grScheduledUnix := grScheduledUnix g, grExpiryUnix := grExpiryUnix g\<rparr>"])
      (simp_all add: sqlGame_def gameIdent_def)
next
  case False
  let ?g = "g\<lparr>grHomeScore := None, grAwayScore := None\<rparr>"
  from False assms(1) have d': "d' = d\<lparr>vdGames := vdGames d @ [?g]\<rparr>"
    and n: "grID g \<notin> grID ` set (vdGames d)" "(grLeagueID g, grSeasonYear g) \<in> set (vdSeasons d)"
      "grHomeTeamID g \<in> trID ` set (vdTeams d)" "grAwayTeamID g \<in> trID ` set (vdTeams d)"
    by (auto simp: sqlGame_def list_ex_key split: if_splits)
  have "gameExt g \<notin> gameExt ` set (vdGames d)" using False by (auto simp: list_ex_iff)
  then have "gamesOk (set (vdSeasons d)) (trID ` set (vdTeams d)) (vdGames d @ [?g])" using assms(2) n by (simp add: vdbOk_def gamesOk_def)
  moreover have "grID ` set (vdGames d) \<subseteq> grID ` set (vdGames d @ [?g])" "finals (vdGames d) \<subseteq> finals (vdGames d @ [?g])"
    by (auto simp: finals_def)
  ultimately show ?thesis using assms(2) statsOk_mono unfolding d' vdbOk_def keeps_def by auto
qed

lemma sqlStat_ok:
  assumes "sqlStat k v d = Some d'" and "vdbOk d"
  shows "vdbOk d' \<and> keeps d d'"
proof -
  from assms(1) have d': "d' = d\<lparr>vdStats := AList.update k v (vdStats d)\<rparr>"
    and k: "fst k \<in> grID ` set (vdGames d)" "fst (snd k) \<in> prID ` set (vdPlayers d)"
    by (auto simp: sqlStat_def list_ex_key split: if_splits)
  have keys: "fst ` set (AList.update k v (vdStats d)) = insert k (fst ` set (vdStats d))" by (simp add: dom_update)
  then have "statsOk (grID ` set (vdGames d)) (prID ` set (vdPlayers d)) (AList.update k v (vdStats d))"
    using assms(2) k unfolding vdbOk_def statsOk_def keys by (auto simp: distinct_update)
  then show ?thesis using assms(2) keys unfolding d' vdbOk_def keeps_def by auto
qed

lemma vStep_ok:
  assumes "vStep d d'" and "vdbOk d"
  shows "vdbOk d' \<and> keeps d d'"
  using assms(1) unfolding vStep_def
  by (auto elim!: refStep.cases resStep.cases
      dest!: sqlSeason_ok [OF _ assms(2)] sqlTeam_ok [OF _ assms(2)] sqlPlayerUpdate_ok [OF _ assms(2)] sqlPlayerInsert_ok [OF _ assms(2)]
        sqlGame_ok [OF _ assms(2)] sqlStat_ok [OF _ assms(2)] sqlFinal_ok [OF _ assms(2)])

lemma vRun_ok: "vStep\<^sup>*\<^sup>* d d' \<Longrightarrow> vdbOk d \<Longrightarrow> vdbOk d' \<and> keeps d d'"
  by (induction rule: rtranclp_induct) (use keeps_refl keeps_trans vStep_ok in \<open>blast\<close>)+

section \<open>Closed games\<close>

definition statsOf :: "string \<Rightarrow> vendorDb \<Rightarrow> (statKey \<times> int) list" where
  "statsOf i d = filter (\<lambda>s. fst (fst s) = i) (vdStats d)"

lemma filter_update_other: "\<not> P (k, v) \<Longrightarrow> (\<And>w. P (k, w) = P (k, v)) \<Longrightarrow> filter P (AList.update k v xs) = filter P xs"
  by (induction xs) auto

text \<open>Steps on other games leave a game and its statistics alone.\<close>

lemma resStep_other:
  assumes "resStep G F d d'" and "i \<notin> F"
  shows "filter (\<lambda>g. grID g = i) (vdGames d') = filter (\<lambda>g. grID g = i) (vdGames d)" and "i \<notin> G \<Longrightarrow> statsOf i d' = statsOf i d"
proof -
  have fin: "filter (\<lambda>g. grID g = i) (map (\<lambda>r. if grID r = j then u r else r) gs) = filter (\<lambda>g. grID g = i) gs"
    if "i \<noteq> j" "\<And>r. grID (u r) = grID r" for j u gs
    using that by (induction gs) auto
  show "filter (\<lambda>g. grID g = i) (vdGames d') = filter (\<lambda>g. grID g = i) (vdGames d)"
    using assms by (cases rule: resStep.cases) (auto simp: sqlStat_def sqlFinal_def intro!: fin split: if_splits)
  show "statsOf i d' = statsOf i d" if "i \<notin> G"
    using assms that by (cases rule: resStep.cases)
      (auto simp: sqlStat_def sqlFinal_def statsOf_def intro!: filter_update_other split: if_splits)
qed

lemma resRun_other:
  assumes "(resStep G F)\<^sup>*\<^sup>* d d'" and "i \<notin> F"
  shows "filter (\<lambda>g. grID g = i) (vdGames d') = filter (\<lambda>g. grID g = i) (vdGames d) \<and> (i \<notin> G \<longrightarrow> statsOf i d' = statsOf i d)"
  using assms(1) by (induction rule: rtranclp_induct) (use resStep_other [OF _ assms(2)] in auto)

end
