(* ===== verification/VendorProps.thy ===== *)
theory VendorProps
  imports VendorLaws
begin

text \<open>
  The properties of the vendor reference data: rows keep their identity whatever the
  vendors answer and whatever fails, when a game may be closed and what happens to its
  statistics, and what the two sports that share a vendor name do to each other.
\<close>

section \<open>The pages end\<close>

definition lastPage :: "soccerPage option \<Rightarrow> bool" where
  "lastPage r = (case r of None \<Rightarrow> True | Some resp \<Rightarrow> sgTotal resp \<le> sgCurrent resp)"

lemma soccerPages_ends:
  assumes "lastPage (netSoccerPlayers net lid year (page + int n))"
  shows "\<exists>res. soccerPages lib net f league lid year codes page d = Some res"
  using assms
proof (induction n arbitrary: page d)
  case 0
  then show ?case by (subst soccerPages.simps) (auto simp: lastPage_def split: option.splits prod.split)
next
  case (Suc n)
  have "\<exists>res. soccerPages lib net f league lid year codes (page + 1) d' = Some res" for d'
    using Suc.IH [of "page + 1" d'] Suc.prems by (simp add: algebra_simps)
  then show ?case by (subst soccerPages.simps) (auto split: option.split prod.split)
qed

lemma FetchSoccerRefData_ends:
  assumes "\<exists>n. lastPage (netSoccerPlayers net lid year (1 + int n))"
  shows "\<exists>res. FetchSoccerRefData lib net f lid year d = Some res"
proof -
  obtain n where n: "lastPage (netSoccerPlayers net lid year (1 + int n))" using assms by blast
  have e: "\<exists>d' r. soccerPages lib net f league lid year codes 1 d2 = Some (d', r)" for league codes d2
    using soccerPages_ends [OF n, of lib f league codes d2] by auto
  show ?thesis
  proof (cases "map_of soccerLeagueMap lid")
    case (Some league)
    obtain d1 ok where 1: "UpsertSeason f league year d = (d1, ok)" by fastforce
    show ?thesis
    proof (cases "netSoccerTeams net lid year")
      case teams: (Some teams)
      obtain codes d2 where 2: "teamsLoop lib f league soccerVendor teams [] d1 = (codes, d2)" by fastforce
      from e [of league codes d2] obtain d3 r3 where "soccerPages lib net f league lid year codes 1 d2 = Some (d3, r3)" by blast
      then show ?thesis using Some 1 teams 2 by (cases ok; cases "netSoccerFixtures net lid year") (simp_all add: FetchSoccerRefData_def)
    qed (use Some 1 in \<open>cases ok; simp add: FetchSoccerRefData_def\<close>)
  qed (simp add: FetchSoccerRefData_def)
qed

lemma populateSoccer_ends:
  assumes "\<forall>l \<in> set ls. \<exists>n. lastPage (netSoccerPlayers net l year (1 + int n))"
  shows "\<exists>res. populateSoccer lib net f year ls d = Some res"
  using assms
proof (induction ls arbitrary: d)
  case (Cons l ls)
  then obtain d' r where "FetchSoccerRefData lib net f l year d = Some (d', r)" using FetchSoccerRefData_ends [of net l year lib f d] by auto
  then show ?case using Cons by auto
qed auto

lemma populatorRunOnce_ends:
  assumes "\<forall>l \<in> set soccerLeagueIDs. \<exists>n. lastPage (netSoccerPlayers net l year (1 + int n))"
  shows "\<exists>res. populatorRunOnce lib net f year d = Some res"
proof -
  obtain d1 r where 1: "FetchMLBRefData lib net f year d = (d1, r)" by fastforce
  obtain d2 a where 2: "populateSoccer lib net f year soccerLeagueIDs d1 = Some (d2, a)"
    using populateSoccer_ends [OF assms, of lib f d1] by auto
  show ?thesis using 2 by (cases r) (auto simp: populatorRunOnce_def 1 split: prod.split)
qed

lemma populatorRun_ends:
  assumes "\<forall>(lib, net, f) \<in> set rounds. \<forall>l \<in> set soccerLeagueIDs. \<exists>n. lastPage (netSoccerPlayers net l year (1 + int n))"
  shows "\<exists>res. populatorRun rounds year d = Some res"
  using assms
proof (induction rounds arbitrary: d)
  case (Cons r rounds)
  obtain lib net f where r: "r = (lib, net, f)" by (cases r)
  with Cons.prems have "\<forall>l \<in> set soccerLeagueIDs. \<exists>n. lastPage (netSoccerPlayers net l year (1 + int n))" by simp
  from populatorRunOnce_ends [OF this, of lib f d] obtain d' a where "populatorRunOnce lib net f year d = Some (d', a)" by auto
  with Cons.IH [of d'] Cons.prems r show ?case by (cases a) auto
qed auto

section \<open>Active games\<close>

lemma finalsI: "g \<in> set gs \<Longrightarrow> grStatus g = ''FINAL'' \<Longrightarrow> grID g = i \<Longrightarrow> i \<in> finals gs"
  unfolding finals_def by blast

lemma active_rows:
  assumes "ListActiveGames f now order d = Some games" and "h \<in> set games"
  obtains g where "g \<in> set (vdGames d)" "h = noScores g" "grStatus g \<noteq> ''FINAL''"
  using assms by (auto simp: ListActiveGames_def split: if_splits)

lemma game_unique: "vdbOk d \<Longrightarrow> g \<in> set (vdGames d) \<Longrightarrow> h \<in> set (vdGames d) \<Longrightarrow> grID g = grID h \<Longrightarrow> g = h"
  by (simp add: vdbOk_def gamesOk_def distinct_map inj_on_def)

lemma active_not_final:
  assumes "ListActiveGames f now order d = Some games" and "vdbOk d" and "g \<in> set (vdGames d)" and "grStatus g = ''FINAL''"
  shows "grID g \<notin> grID ` set games"
proof
  assume "grID g \<in> grID ` set games"
  then obtain h where "h \<in> set games" "grID h = grID g" by auto
  with active_rows [OF assms(1)] obtain g' where "g' \<in> set (vdGames d)" "grID g' = grID g" "grStatus g' \<noteq> ''FINAL''"
    by (metis GameRecord.select_convs(1) GameRecord.surjective GameRecord.update_convs(9,10) noScores_def)
  with game_unique [OF assms(2) _ assms(3)] assms(4) show False by blast
qed

lemma final_untouched:
  assumes "vdbOk d" and "g \<in> set (vdGames d)" and "grStatus g = ''FINAL''"
  shows "g \<in> set (vdGames (eventRunOnce lib net f now order d)) \<and> statsOf (grID g) (eventRunOnce lib net f now order d) = statsOf (grID g) d"
proof -
  let ?d' = "eventRunOnce lib net f now order d"
  consider games where "ListActiveGames f now order d = Some games" "resRun net games d ?d'" | "?d' = d"
    using eventRunOnce_run [of f now order d net lib] by blast
  then show ?thesis
  proof cases
    case (1 games)
    from active_not_final [OF 1(1) assms] have n: "grID g \<notin> grID ` set games" .
    then have "grID g \<notin> grID ` {g \<in> set games. closable net g}" by blast
    from resRun_other [OF 1(2) this] n
    have e: "filter (\<lambda>h. grID h = grID g) (vdGames ?d') = filter (\<lambda>h. grID h = grID g) (vdGames d)" "statsOf (grID g) ?d' = statsOf (grID g) d" by auto
    have "g \<in> set (filter (\<lambda>h. grID h = grID g) (vdGames ?d'))" unfolding e(1) using assms(2) by simp
    with e(2) show ?thesis by simp
  qed (use assms in simp)
qed

lemma closed_mlb:
  assumes "vdbOk d" and "g \<in> set (vdGames d)" and "grStatus g \<noteq> ''FINAL''" and "grLeagueID g = League_MLB"
    and "grID g \<in> finals (vdGames (eventRunOnce lib net f now order d))"
  shows "\<exists>pk. itoa pk = grExternalID g \<and> netMlbBoxscore net pk \<noteq> None"
proof -
  let ?d' = "eventRunOnce lib net f now order d"
  have nf: "grID g \<notin> finals (vdGames d)" using assms(1-3) game_unique by (auto simp: finals_def)
  with assms(5) eventRunOnce_run [of f now order d net lib] obtain games where
    games: "ListActiveGames f now order d = Some games" "resRun net games d ?d'" by auto
  have "grID g \<in> grID ` {g \<in> set games. closable net g}"
  proof (rule ccontr)
    assume "grID g \<notin> grID ` {g \<in> set games. closable net g}"
    from resRun_other [OF games(2) this] have "filter (\<lambda>h. grID h = grID g) (vdGames ?d') = filter (\<lambda>h. grID h = grID g) (vdGames d)" by blast
    moreover from assms(5) obtain h where "h \<in> set (vdGames ?d')" "grID h = grID g" "grStatus h = ''FINAL''" by (auto simp: finals_def)
    then have "h \<in> set (filter (\<lambda>h. grID h = grID g) (vdGames ?d'))" by simp
    ultimately have "h \<in> set (vdGames d)" by simp
    with nf \<open>grID h = grID g\<close> \<open>grStatus h = ''FINAL''\<close> show False using finalsI by blast
  qed
  then obtain h where h: "h \<in> set games" "closable net h" "grID h = grID g" by auto
  from active_rows [OF games(1) h(1)] obtain g' where g': "g' \<in> set (vdGames d)" "h = noScores g'" by blast
  have "g' = g" using game_unique [OF assms(1) g'(1) assms(2)] h(3) g'(2) by (simp add: noScores_def)
  with h(2) g'(2) assms(4) show ?thesis by (simp add: closable_def noScores_def)
qed

section \<open>Lost statistics\<close>

lemma eventRunOnce_vRun: "vStep\<^sup>*\<^sup>* d (eventRunOnce lib net f now order d)"
  using eventRunOnce_run [of f now order d net lib] resRun_vRun by fastforce

lemma eventRun_vRun: "vStep\<^sup>*\<^sup>* d (eventRun evs d)"
  unfolding eventRun_def
  by (rule foldl_run) (auto intro: eventRunOnce_vRun split: prod.split)

lemma eventRun_final:
  assumes "vdbOk d" and "g \<in> set (vdGames d)" and "grStatus g = ''FINAL''"
  shows "g \<in> set (vdGames (eventRun evs d)) \<and> statsOf (grID g) (eventRun evs d) = statsOf (grID g) d"
  using assms
proof (induction evs arbitrary: d)
  case (Cons ev evs)
  obtain lib net f now order where ev: "ev = (lib, net, f, now, order)" by (cases ev)
  let ?d = "eventRunOnce lib net f now order d"
  have "vdbOk ?d" using vRun_ok [OF eventRunOnce_vRun Cons.prems(1)] by blast
  with Cons.IH [of ?d] final_untouched [OF Cons.prems, of lib net f now order] Cons.prems(3) show ?case by (simp add: eventRun_def ev)
qed (simp add: eventRun_def)

lemma nfl_closed_without_stats:
  assumes "vdbOk d" and "g \<in> set (vdGames d)" and "netNflDetail net (grExternalID g) = Some (r # rs)" and "vrStatus r = ''FT''"
    and "netNflStats net (grExternalID g) = None" and "f (VsFinal (grID g)) = StmtRuns"
  shows "statsOf (grID g) (eventRun evs (fetchNFLGameResult lib net f g d)) = statsOf (grID g) d \<and>
    grID g \<in> finals (vdGames (fetchNFLGameResult lib net f g d))"
proof -
  let ?u = "\<lambda>r'. r'\<lparr>grStatus := ''FINAL'', grHomeScore := Some (scoreOf (vrHomeScore r)), grAwayScore := Some (scoreOf (vrAwayScore r))\<rparr>"
  let ?d = "d\<lparr>vdGames := map (\<lambda>r'. if grID r' = grID g then ?u r' else r') (vdGames d)\<rparr>"
  have d: "fetchNFLGameResult lib net f g d = ?d"
    using assms(3-6) by (simp add: fetchNFLGameResult_def fetchNFLPlayerStats_def MarkGameFinal_def vexec_def sqlFinal_def)
  have "vdbOk ?d"
    using sqlFinal_ok [of "grID g" "scoreOf (vrHomeScore r)" "scoreOf (vrAwayScore r)" d ?d] assms(1) by (simp add: sqlFinal_def)
  moreover have u: "?u g \<in> set (vdGames ?d)" using assms(2) by force
  ultimately have "statsOf (grID g) (eventRun evs ?d) = statsOf (grID g) ?d"
    using eventRun_final [of ?d "?u g" evs] by simp
  moreover have "grID g \<in> finals (vdGames ?d)" by (rule finalsI [OF u]) simp_all
  ultimately show ?thesis unfolding d by (simp add: statsOf_def)
qed

section \<open>One vendor name for two sports\<close>

lemma same_vendor: "soccerVendor = nflVendor"
  by (simp add: soccerVendor_def nflVendor_def)

lemma team_collision:
  assumes "r \<in> set (vdTeams d)" and "teamExt r = (soccerVendor, itoa (vtID t))"
  shows "map trID (vdTeams (fst (UpsertTeam f (teamRec lib League_NFL nflVendor t) d))) = map trID (vdTeams d) \<and>
    (f (VsTeam (itoa (vtID t))) = StmtRuns \<longrightarrow>
       r\<lparr>trName := vtName t, trShortName := vtCode t\<rparr> \<in> set (vdTeams (fst (UpsertTeam f (teamRec lib League_NFL nflVendor t) d))))"
proof -
  let ?t = "teamRec lib League_NFL nflVendor t"
  let ?u = "\<lambda>r. r\<lparr>trName := vtName t, trShortName := vtCode t\<rparr>"
  let ?ts = "map (\<lambda>r. if teamExt r = teamExt ?t then ?u r else r) (vdTeams d)"
  have ext: "teamExt r = teamExt ?t" using assms(2) same_vendor by (simp add: teamRec_def)
  then have "list_ex (\<lambda>r. teamExt r = teamExt ?t) (vdTeams d)" using assms(1) by (auto simp: list_ex_iff)
  then have q: "sqlTeam ?t d = Some (d\<lparr>vdTeams := ?ts\<rparr>)" by (simp add: sqlTeam_def teamRec_def)
  have m: "map trID ?ts = map trID (vdTeams d)" by (rule map_update_key) simp
  have "?u r \<in> set ?ts" using assms(1) ext by force
  with m q show ?thesis unfolding UpsertTeam_def by (auto simp: vexec_def teamRec_def split: vrun.split)
qed

lemma player_collision:
  assumes "vdbOk d" and "r \<in> set (vdPlayers d)" and "playerExt r = (soccerVendor, itoa n)" and "prTeamID p \<in> trID ` set (vdTeams d)"
    and "playerExt p = (nflVendor, itoa n)" and "\<And>s. f s = StmtRuns"
  shows "r\<lparr>prName := prName p, prTeamID := prTeamID p, prPositions := prPositions p\<rparr> \<in> set (vdPlayers (fst (UpsertPlayer f p d)))"
proof -
  have ext: "playerExt r = playerExt p" using assms(3,5) same_vendor by simp
  have "find (\<lambda>r. playerExt r = playerExt p) (vdPlayers d) = Some r"
  proof (cases "find (\<lambda>r. playerExt r = playerExt p) (vdPlayers d)")
    case None
    with ext assms(2) show ?thesis by (auto simp: find_None_iff)
  next
    case (Some r')
    then have "r' \<in> set (vdPlayers d)" "playerExt r' = playerExt p" by (auto simp: find_Some_iff)
    moreover have "inj_on playerExt (set (vdPlayers d))" using assms(1) by (simp add: vdbOk_def playersOk_def distinct_map)
    ultimately have "r' = r" using ext assms(2) unfolding inj_on_def by metis
    with Some show ?thesis by simp
  qed
  then show ?thesis using assms(2,4,6) by (auto simp: UpsertPlayer_def vexec_def sqlPlayerUpdate_def list_ex_key)
qed

section \<open>A small season\<close>

definition demoVTeam :: TeamRecord where
  "demoVTeam = \<lparr>trID = ''EPL::MUN'', trName = ''Manchester United'', trShortName = ''MUN'', trLeagueID = 3,
     trExternalID = itoa 33, trExternalVendor = soccerVendor\<rparr>"

definition demoVGame :: GameRecord where
  "demoVGame = \<lparr>grID = ''G'', grLeagueID = 2, grSeasonYear = 2025, grHomeTeamID = ''EPL::MUN'', grAwayTeamID = ''EPL::MUN'',
     grScheduledUnix = 100, grExpiryUnix = 200, grStatus = ''SCHEDULED'', grHomeScore = None, grAwayScore = None,
     grExternalID = ''7'', grExternalVendor = nflVendor\<rparr>"

definition demoVDb :: vendorDb where
  "demoVDb = \<lparr>vdSeasons = [(2, 2025)], vdTeams = [demoVTeam], vdPlayers = [], vdGames = [demoVGame], vdStats = []\<rparr>"

definition demoLib :: vendorLib where
  "demoLib = \<lparr>libUpper = (\<lambda>s. s), libFloat = (\<lambda>s. None), libRange = (\<lambda>g. [])\<rparr>"

text \<open>Vendors of which only the NFL game's result can be read.\<close>

definition demoNet :: vendorNet where
  "demoNet = \<lparr>netMlbTeams = (\<lambda>_. None), netMlbRoster = (\<lambda>_ _. None), netMlbSchedule = (\<lambda>_. None), netMlbStatus = (\<lambda>_. None),
     netMlbBoxscore = (\<lambda>_. None), netNflTeams = (\<lambda>_. None), netNflPlayers = (\<lambda>_ _. None), netNflGames = (\<lambda>_ _. None),
     netNflDetail = (\<lambda>_. Some [\<lparr>vrStatus = ''FT'', vrHomeTeam = 1, vrAwayTeam = 2, vrHomeScore = Some 21, vrAwayScore = Some 14\<rparr>]),
     netNflStats = (\<lambda>_. None), netSoccerTeams = (\<lambda>_ _. None), netSoccerPlayers = (\<lambda>_ _ _. None), netSoccerFixtures = (\<lambda>_ _. None),
     netSoccerDetail = (\<lambda>_. None), netSoccerStats = (\<lambda>_ _. None)\<rparr>"

definition vcalm :: vfaults where
  "vcalm = (\<lambda>_. StmtRuns)"

lemma demoVDb_ok: "vdbOk demoVDb"
  by (simp add: vdbOk_def demoVDb_def teamsOk_def playersOk_def gamesOk_def statsOk_def demoVTeam_def demoVGame_def leagueIDs_def)

section \<open>Properties\<close>

text \<open>C35: The reference tables keep their constraints and every row its identity, whatever the vendors answer,
  whatever fails and however the populator and the event fetcher interleave: teams, players and games are
  never removed, their internal ids stay bound to the same number at the vendor, a closed game stays
  closed, and a statistic once written stays. Both processes are runs of the single statements, and the
  rounds of the populator end when the vendor's pages do.\<close>

theorem refdata_stable:
  assumes "vdbOk d"
  shows "(vStep\<^sup>*\<^sup>* d d' \<longrightarrow> vdbOk d' \<and> keeps d d') \<and>
    (populatorRun rounds year d = Some (d', alive) \<longrightarrow> vStep\<^sup>*\<^sup>* d d') \<and>
    vStep\<^sup>*\<^sup>* d (eventRun evs d) \<and>
    ((\<forall>(lib, net, f) \<in> set rounds. \<forall>l \<in> set soccerLeagueIDs. \<exists>n. lastPage (netSoccerPlayers net l year (1 + int n))) \<longrightarrow>
       (\<exists>res. populatorRun rounds year d = Some res))"
  using vRun_ok [OF _ assms] populatorRun_run refRun_vRun eventRun_vRun populatorRun_ends [of rounds year d] by blast

theorem refdata_stable_witness:
  "\<exists>d' alive. populatorRun [(demoLib, demoNet, vcalm)] 2025 demoVDb = Some (d', alive) \<and> vdbOk d' \<and> keeps demoVDb d'"
proof -
  let ?rounds = "[(demoLib, demoNet, vcalm)]"
  have "\<forall>(lib, net, f) \<in> set ?rounds. \<forall>l \<in> set soccerLeagueIDs. \<exists>n. lastPage (netSoccerPlayers net l 2025 (1 + int n))"
    by (simp add: demoNet_def lastPage_def)
  with refdata_stable [OF demoVDb_ok, of demoVDb ?rounds 2025 True "[]"] obtain res where
    "populatorRun ?rounds 2025 demoVDb = Some res" by blast
  then obtain d' alive where d': "populatorRun ?rounds 2025 demoVDb = Some (d', alive)" by (cases res) blast
  with refdata_stable [OF demoVDb_ok, of d' ?rounds 2025 alive "[]"] show ?thesis by blast
qed

text \<open>C36: A poll of the event fetcher leaves a closed game and its statistics as they are, and closes an MLB game
  only when the game's box score could be read. An NFL game, however, is closed when its result can be read
  even if its statistics cannot, and then no later poll ever writes them.\<close>

theorem results_final:
  assumes "vdbOk d" and "g \<in> set (vdGames d)"
  shows "(grStatus g = ''FINAL'' \<longrightarrow> g \<in> set (vdGames (eventRunOnce lib net f now order d)) \<and>
      statsOf (grID g) (eventRunOnce lib net f now order d) = statsOf (grID g) d) \<and>
    (grStatus g \<noteq> ''FINAL'' \<and> grLeagueID g = League_MLB \<and> grID g \<in> finals (vdGames (eventRunOnce lib net f now order d)) \<longrightarrow>
      (\<exists>pk. itoa pk = grExternalID g \<and> netMlbBoxscore net pk \<noteq> None)) \<and>
    (netNflDetail net (grExternalID g) = Some (r # rs) \<and> vrStatus r = ''FT'' \<and> netNflStats net (grExternalID g) = None \<and>
      f (VsFinal (grID g)) = StmtRuns \<longrightarrow>
      grID g \<in> finals (vdGames (fetchNFLGameResult lib net f g d)) \<and>
      (\<forall>evs. statsOf (grID g) (eventRun evs (fetchNFLGameResult lib net f g d)) = statsOf (grID g) d))"
  using final_untouched [OF assms, of lib net f now order] closed_mlb [OF assms, of lib net f now order]
    nfl_closed_without_stats [OF assms, of net r rs f _ lib] by blast

theorem results_final_witness:
  "grID demoVGame \<in> finals (vdGames (fetchNFLGameResult demoLib demoNet vcalm demoVGame demoVDb)) \<and>
   (\<forall>evs. statsOf ''G'' (eventRun evs (fetchNFLGameResult demoLib demoNet vcalm demoVGame demoVDb)) = [])"
proof -
  have "demoVGame \<in> set (vdGames demoVDb)" by (simp add: demoVDb_def)
  moreover have "statsOf ''G'' demoVDb = []" "grID demoVGame = ''G''" by (simp_all add: statsOf_def demoVDb_def demoVGame_def)
  ultimately show ?thesis
    using results_final [OF demoVDb_ok, of demoVGame demoLib demoNet vcalm 0 "[]"] by (simp add: demoNet_def vcalm_def)
qed

text \<open>C38: Soccer and NFL data share one vendor name although each interface numbers its teams and players from 1.
  When an NFL team has the number of a soccer team, storing it renames the soccer team and adds no team; when
  an NFL player has the number of a soccer player, storing it turns the soccer player's row into the NFL
  player's, under the soccer player's id.\<close>

theorem vendor_collision:
  assumes "vdbOk d"
  shows "(r \<in> set (vdTeams d) \<and> teamExt r = (soccerVendor, itoa (vtID t)) \<longrightarrow>
      map trID (vdTeams (fst (UpsertTeam f (teamRec lib League_NFL nflVendor t) d))) = map trID (vdTeams d) \<and>
      (f (VsTeam (itoa (vtID t))) = StmtRuns \<longrightarrow>
         r\<lparr>trName := vtName t, trShortName := vtCode t\<rparr> \<in> set (vdTeams (fst (UpsertTeam f (teamRec lib League_NFL nflVendor t) d))))) \<and>
    (q \<in> set (vdPlayers d) \<and> playerExt q = (soccerVendor, itoa n) \<and> playerExt p = (nflVendor, itoa n) \<and>
      prTeamID p \<in> trID ` set (vdTeams d) \<and> (\<forall>s. f s = StmtRuns) \<longrightarrow>
      q\<lparr>prName := prName p, prTeamID := prTeamID p, prPositions := prPositions p\<rparr> \<in> set (vdPlayers (fst (UpsertPlayer f p d))))"
  using team_collision [of r d t f lib] player_collision [OF assms, of q n p f] by blast

theorem vendor_collision_witness:
  "demoVTeam\<lparr>trName := ''Chicago'', trShortName := ''CHI''\<rparr> \<in>
     set (vdTeams (fst (UpsertTeam vcalm (teamRec demoLib League_NFL nflVendor \<lparr>vtID = 33, vtName = ''Chicago'', vtCode = ''CHI''\<rparr>) demoVDb)))"
proof -
  let ?t = "\<lparr>vtID = 33, vtName = ''Chicago'', vtCode = ''CHI''\<rparr> :: vteam"
  have "demoVTeam \<in> set (vdTeams demoVDb)" "teamExt demoVTeam = (soccerVendor, itoa (vtID ?t))" "vcalm (VsTeam (itoa (vtID ?t))) = StmtRuns"
    by (simp_all add: demoVDb_def demoVTeam_def vcalm_def)
  then show ?thesis using vendor_collision [OF demoVDb_ok, of demoVTeam ?t vcalm demoLib] by simp
qed

end
