(* ===== verification/VendorClient.thy ===== *)
theory VendorClient
  imports VendorResults
begin

text \<open>
  The clients of the two vendors (\<open>mlbclient.go\<close> and \<open>apisportsclient.go\<close> of \<open>vendor_refdata/internal\<close>): the requests
  behind every answer that \<open>VendorFetch\<close> and \<open>VendorResults\<close> use, and the throttle that the populator and the
  event fetcher share, as steps of any number of callers. The HTTP exchange and the decoding of a
  body are arguments. Times are nanoseconds of the monotonic clock.
\<close>

section \<open>Requests\<close>

datatype clientErr = CtxErr | RequestErr | TransportErr | StatusErr int | DecodeErr

record httpResp =
  hrStatus :: int
  hrBody :: string

text \<open>Whether a URL can be parsed, and the answer to a request with its headers.\<close>

record httpLib =
  hlParses :: "string \<Rightarrow> bool"
  hlDo :: "string \<Rightarrow> (string \<times> string) list \<Rightarrow> httpResp option"

definition httpGet :: "httpLib \<Rightarrow> (string \<Rightarrow> 'a option) \<Rightarrow> string \<Rightarrow> (string \<times> string) list \<Rightarrow> clientErr + 'a" where
  "httpGet h decode url headers =
     (if \<not> hlParses h url then Inl RequestErr
      else case hlDo h url headers of
        None \<Rightarrow> Inl TransportErr
      | Some resp \<Rightarrow>
          if hrStatus resp \<noteq> 200 then Inl (StatusErr (hrStatus resp))
          else (case decode (hrBody resp) of None \<Rightarrow> Inl DecodeErr | Some out \<Rightarrow> Inr out))"

definition mlbBaseURL :: string where
  "mlbBaseURL = ''https://statsapi.mlb.com/api/v1''"

definition mlbGet :: "httpLib \<Rightarrow> (string \<Rightarrow> 'a option) \<Rightarrow> string \<Rightarrow> clientErr + 'a" where
  "mlbGet h decode path = httpGet h decode (mlbBaseURL @ path) []"

definition soccerBaseURL :: string where
  "soccerBaseURL = ''https://v3.football.api-sports.io''"

definition nflBaseURL :: string where
  "nflBaseURL = ''https://v1.american-football.api-sports.io''"

definition apSend :: "httpLib \<Rightarrow> string \<Rightarrow> (string \<Rightarrow> 'a option) \<Rightarrow> string \<Rightarrow> string \<Rightarrow> clientErr + 'a" where
  "apSend h key decode base path = httpGet h decode (base @ path) [(''x-apisports-key'', key)]"

definition GetSoccer :: "httpLib \<Rightarrow> string \<Rightarrow> (string \<Rightarrow> 'a option) \<Rightarrow> string \<Rightarrow> clientErr + 'a" where
  "GetSoccer h key decode path = apSend h key decode soccerBaseURL path"

definition GetNFL :: "httpLib \<Rightarrow> string \<Rightarrow> (string \<Rightarrow> 'a option) \<Rightarrow> string \<Rightarrow> clientErr + 'a" where
  "GetNFL h key decode path = apSend h key decode nflBaseURL path"

text \<open>The paths of the requests.\<close>

definition mlbTeamsPath :: "int \<Rightarrow> string" where
  "mlbTeamsPath year = ''/teams?sportId=1&season='' @ itoa year"

definition mlbRosterPath :: "int \<Rightarrow> int \<Rightarrow> string" where
  "mlbRosterPath team year = ''/teams/'' @ itoa team @ ''/roster?rosterType=active&season='' @ itoa year"

definition mlbSchedulePath :: "int \<Rightarrow> string" where
  "mlbSchedulePath year = ''/schedule?sportId=1&season='' @ itoa year @ ''&gameType=R''"

definition mlbStatusPath :: "string list \<Rightarrow> string" where
  "mlbStatusPath pks = ''/schedule?gamePks='' @ joinComma pks"

definition mlbBoxscorePath :: "int \<Rightarrow> string" where
  "mlbBoxscorePath gamePk = ''/game/'' @ itoa gamePk @ ''/boxscore''"

definition nflTeamsPath :: "int \<Rightarrow> string" where
  "nflTeamsPath year = ''/teams?league=1&season='' @ itoa year"

definition nflPlayersPath :: "int \<Rightarrow> int \<Rightarrow> string" where
  "nflPlayersPath team year = ''/players?id='' @ itoa team @ ''&season='' @ itoa year"

definition nflGamesPath :: "int \<Rightarrow> int \<Rightarrow> string" where
  "nflGamesPath year week = ''/games?league=1&season='' @ itoa year @ ''&week='' @ itoa week"

definition nflDetailPath :: "string \<Rightarrow> string" where
  "nflDetailPath ext = ''/games?id='' @ ext"

definition nflStatsPath :: "string \<Rightarrow> string" where
  "nflStatsPath ext = ''/games/statistics/players?id='' @ ext"

definition soccerTeamsPath :: "int \<Rightarrow> int \<Rightarrow> string" where
  "soccerTeamsPath leagueID year = ''/teams?league='' @ itoa leagueID @ ''&season='' @ itoa year"

definition soccerPlayersPath :: "int \<Rightarrow> int \<Rightarrow> int \<Rightarrow> string" where
  "soccerPlayersPath leagueID year page = ''/players?league='' @ itoa leagueID @ ''&season='' @ itoa year @ ''&page='' @ itoa page"

definition soccerFixturesPath :: "int \<Rightarrow> int \<Rightarrow> string" where
  "soccerFixturesPath leagueID year = ''/fixtures?league='' @ itoa leagueID @ ''&season='' @ itoa year"

definition soccerDetailPath :: "string \<Rightarrow> string" where
  "soccerDetailPath ext = ''/fixtures?id='' @ ext"

definition soccerStatsPath :: "string \<Rightarrow> string \<Rightarrow> string" where
  "soccerStatsPath ext team = ''/fixtures/players?fixture='' @ ext @ ''&team='' @ team"

text \<open>The decoders of the response types.\<close>

record vendorJson =
  jsMlbTeams :: "string \<Rightarrow> vteam list option"
  jsMlbRoster :: "string \<Rightarrow> vplayer list option"
  jsMlbSchedule :: "string \<Rightarrow> mlbGame list list option"
  jsMlbBoxscore :: "string \<Rightarrow> (mlbBoxPlayer list \<times> mlbBoxPlayer list) option"
  jsNflTeams :: "string \<Rightarrow> vteam list option"
  jsNflPlayers :: "string \<Rightarrow> vplayer list option"
  jsNflGames :: "string \<Rightarrow> vgame list option"
  jsNflDetail :: "string \<Rightarrow> vresult list option"
  jsNflStats :: "string \<Rightarrow> nflGroup list list option"
  jsSoccerTeams :: "string \<Rightarrow> vteam list option"
  jsSoccerPlayers :: "string \<Rightarrow> soccerPage option"
  jsSoccerFixtures :: "string \<Rightarrow> vgame list option"
  jsSoccerDetail :: "string \<Rightarrow> vresult list option"
  jsSoccerStats :: "string \<Rightarrow> soccerStatPlayer list list option"

definition answer :: "clientErr + 'a \<Rightarrow> 'a option" where
  "answer r = (case r of Inl _ \<Rightarrow> None | Inr x \<Rightarrow> Some x)"

text \<open>The answers the fetchers see, each from the request the code sends. The throttle only delays them or
  gives the context's error.\<close>

definition clientNet :: "httpLib \<Rightarrow> string \<Rightarrow> vendorJson \<Rightarrow> vendorNet" where
  "clientNet h key js = \<lparr>
     netMlbTeams = (\<lambda>year. answer (mlbGet h (jsMlbTeams js) (mlbTeamsPath year))),
     netMlbRoster = (\<lambda>team year. answer (mlbGet h (jsMlbRoster js) (mlbRosterPath team year))),
     netMlbSchedule = (\<lambda>year. answer (mlbGet h (jsMlbSchedule js) (mlbSchedulePath year))),
     netMlbStatus = (\<lambda>pks. answer (mlbGet h (jsMlbSchedule js) (mlbStatusPath pks))),
     netMlbBoxscore = (\<lambda>pk. answer (mlbGet h (jsMlbBoxscore js) (mlbBoxscorePath pk))),
     netNflTeams = (\<lambda>year. answer (GetNFL h key (jsNflTeams js) (nflTeamsPath year))),
     netNflPlayers = (\<lambda>team year. answer (GetNFL h key (jsNflPlayers js) (nflPlayersPath team year))),
     netNflGames = (\<lambda>year week. answer (GetNFL h key (jsNflGames js) (nflGamesPath year week))),
     netNflDetail = (\<lambda>ext. answer (GetNFL h key (jsNflDetail js) (nflDetailPath ext))),
     netNflStats = (\<lambda>ext. answer (GetNFL h key (jsNflStats js) (nflStatsPath ext))),
     netSoccerTeams = (\<lambda>lg year. answer (GetSoccer h key (jsSoccerTeams js) (soccerTeamsPath lg year))),
     netSoccerPlayers = (\<lambda>lg year page. answer (GetSoccer h key (jsSoccerPlayers js) (soccerPlayersPath lg year page))),
     netSoccerFixtures = (\<lambda>lg year. answer (GetSoccer h key (jsSoccerFixtures js) (soccerFixturesPath lg year))),
     netSoccerDetail = (\<lambda>ext. answer (GetSoccer h key (jsSoccerDetail js) (soccerDetailPath ext))),
     netSoccerStats = (\<lambda>ext team. answer (GetSoccer h key (jsSoccerStats js) (soccerStatsPath ext team)))\<rparr>"

section \<open>An outage\<close>

text \<open>No request is answered with status 200.\<close>

definition outage :: "httpLib \<Rightarrow> bool" where
  "outage h \<longleftrightarrow> (\<forall>url headers resp. hlDo h url headers = Some resp \<longrightarrow> hrStatus resp \<noteq> 200)"

lemma outage_get: "outage h \<Longrightarrow> answer (httpGet h decode url headers) = None"
  by (auto simp: outage_def answer_def httpGet_def split: option.split)

lemma outage_net:
  assumes "outage h"
  shows "netMlbTeams (clientNet h key js) year = None" "netMlbStatus (clientNet h key js) pks = None"
    "netNflTeams (clientNet h key js) year = None" "netNflDetail (clientNet h key js) ext = None"
    "netSoccerTeams (clientNet h key js) lg year = None" "netSoccerDetail (clientNet h key js) ext = None"
  using assms by (simp_all add: clientNet_def mlbGet_def GetNFL_def GetSoccer_def apSend_def outage_get)

definition sameRows :: "vendorDb \<Rightarrow> vendorDb \<Rightarrow> bool" where
  "sameRows d d' \<longleftrightarrow> vdTeams d' = vdTeams d \<and> vdPlayers d' = vdPlayers d \<and> vdGames d' = vdGames d \<and> vdStats d' = vdStats d"

lemma UpsertSeason_rows: "sameRows d (fst (UpsertSeason f league year d))"
  by (auto simp: UpsertSeason_def vexec_def sqlSeason_def sameRows_def Let_def split: vrun.split option.split)

lemma outage_soccer:
  assumes "outage h"
  shows "\<exists>d'. populateSoccer lib (clientNet h key js) f year ls d = Some (d', True) \<and> sameRows d d'"
proof (induction ls arbitrary: d)
  case (Cons l ls)
  have "\<exists>d1. FetchSoccerRefData lib (clientNet h key js) f l year d = Some (d1, FetchErr) \<and> sameRows d d1"
    using UpsertSeason_rows [of d f _ year]
    by (auto simp: FetchSoccerRefData_def outage_net [OF assms] sameRows_def split: option.split prod.split bool.split) (metis fst_conv)+
  then obtain d1 where d1: "FetchSoccerRefData lib (clientNet h key js) f l year d = Some (d1, FetchErr)" "sameRows d d1" by blast
  obtain d2 where "populateSoccer lib (clientNet h key js) f year ls d1 = Some (d2, True)" "sameRows d1 d2" using Cons.IH by blast
  with d1 show ?case by (auto simp: sameRows_def)
qed (simp add: sameRows_def)

lemma outage_mlb: "outage h \<Longrightarrow> \<exists>d'. FetchMLBRefData lib (clientNet h key js) f year d = (d', FetchErr) \<and> sameRows d d'"
  using UpsertSeason_rows [of d f League_MLB year] by (auto simp: FetchMLBRefData_def outage_net split: prod.split bool.split)

lemma outage_nfl: "outage h \<Longrightarrow> \<exists>d'. FetchNFLRefData lib (clientNet h key js) f year d = (d', FetchErr) \<and> sameRows d d'"
  using UpsertSeason_rows [of d f League_NFL year] by (auto simp: FetchNFLRefData_def outage_net split: prod.split bool.split)

lemma foldl_same: "(\<And>d x. g d x = d) \<Longrightarrow> foldl g d xs = d"
  by (induction xs) simp_all

text \<open>While the vendors do not answer, a round of the populator ends without a panic and writes at most the
  seasons, and a poll of the event fetcher writes nothing.\<close>

theorem outage_harmless:
  assumes "outage h"
  shows "\<exists>d'. populatorRunOnce lib (clientNet h key js) f year d = Some (d', True) \<and> sameRows d d'"
    and "eventRunOnce lib (clientNet h key js) f now order d = d"
proof -
  obtain d1 where 1: "FetchMLBRefData lib (clientNet h key js) f year d = (d1, FetchErr)" "sameRows d d1" using outage_mlb [OF assms] by blast
  obtain d2 where 2: "populateSoccer lib (clientNet h key js) f year soccerLeagueIDs d1 = Some (d2, True)" "sameRows d1 d2" using outage_soccer [OF assms] by blast
  obtain d3 where 3: "FetchNFLRefData lib (clientNet h key js) f year d2 = (d3, FetchErr)" "sameRows d2 d3" using outage_nfl [OF assms] by blast
  from 1 2 3 show "\<exists>d'. populatorRunOnce lib (clientNet h key js) f year d = Some (d', True) \<and> sameRows d d'"
    by (simp add: populatorRunOnce_def sameRows_def)
  show "eventRunOnce lib (clientNet h key js) f now order d = d"
    by (simp add: eventRunOnce_def FetchMLBResults_def FetchNFLResults_def FetchSoccerResults_def fetchNFLGameResult_def fetchSoccerGameResult_def
        outage_net [OF assms] Let_def foldl_same split: option.split)
qed

section \<open>The throttle\<close>

text \<open>\<open>apLast\<close> is the zero time before the first request, which is longer ago than any throttle.\<close>

record apClient =
  apLast :: "int option"
  apThrottle :: int

definition NewAPISportsClient :: apClient where
  "NewAPISportsClient = \<lparr>apLast = None, apThrottle = 30 * 1000000000\<rparr>"

text \<open>The first critical section: how long to wait, if at all.\<close>

definition throttleWait :: "apClient \<Rightarrow> int \<Rightarrow> int option" where
  "throttleWait c now =
     (if 0 < apThrottle c
      then (case apLast c of
          None \<Rightarrow> None
        | Some l \<Rightarrow> let elapsed = now - l in if elapsed < apThrottle c then Some (apThrottle c - elapsed) else None)
      else None)"

definition throttlePass :: "apClient \<Rightarrow> int \<Rightarrow> apClient" where
  "throttlePass c now = (if 0 < apThrottle c then c\<lparr>apLast := Some now\<rparr> else c)"

text \<open>A whole call that no other caller disturbs: it enters at \<open>now\<close>, and at \<open>later\<close> it sends or the context has ended.\<close>

definition apGet :: "httpLib \<Rightarrow> string \<Rightarrow> (string \<Rightarrow> 'a option) \<Rightarrow> int \<Rightarrow> int \<Rightarrow> bool \<Rightarrow> apClient \<Rightarrow> string \<Rightarrow> string \<Rightarrow>
    apClient \<times> (clientErr + 'a)" where
  "apGet h key decode now later ctxDone c base path = (case throttleWait c now of
     None \<Rightarrow> (throttlePass c later, apSend h key decode base path)
   | Some wait \<Rightarrow>
       if ctxDone then (c, Inl CtxErr)
       else (throttlePass c later, apSend h key decode base path))"

datatype apPhase = ApIdle | ApWait int | ApGo

record apSys =
  asNow :: int
  asClient :: apClient
  asPhase :: "nat \<Rightarrow> apPhase"
  asPassed :: "(nat \<times> int) list"

definition apPass :: "nat \<Rightarrow> int \<Rightarrow> apSys \<Rightarrow> apSys" where
  "apPass i t s = s\<lparr>asNow := t, asClient := throttlePass (asClient s) t, asPhase := (asPhase s)(i := ApGo), asPassed := (i, t) # asPassed s\<rparr>"

text \<open>\<open>n\<close> callers. The clock moves on between the two readings of a critical section, but nobody else can
  enter one; a waiting caller holds no lock and does not look at the client again when it wakes.\<close>

inductive apStep :: "nat \<Rightarrow> apSys \<Rightarrow> apSys \<Rightarrow> bool" for n where
  ap_tick: "asNow s \<le> t \<Longrightarrow> apStep n s (s\<lparr>asNow := t\<rparr>)"
| ap_wait: "\<lbrakk>i < n; asPhase s i = ApIdle; throttleWait (asClient s) (asNow s) = Some w\<rbrakk>
     \<Longrightarrow> apStep n s (s\<lparr>asPhase := (asPhase s)(i := ApWait (asNow s + w))\<rparr>)"
| ap_go: "\<lbrakk>i < n; asPhase s i = ApIdle; throttleWait (asClient s) (asNow s) = None; asNow s \<le> t\<rbrakk> \<Longrightarrow> apStep n s (apPass i t s)"
| ap_wake: "\<lbrakk>i < n; asPhase s i = ApWait d; d \<le> t; asNow s \<le> t\<rbrakk> \<Longrightarrow> apStep n s (apPass i t s)"
| ap_cancel: "\<lbrakk>i < n; asPhase s i = ApWait d\<rbrakk> \<Longrightarrow> apStep n s (s\<lparr>asPhase := (asPhase s)(i := ApIdle)\<rparr>)"
| ap_done: "\<lbrakk>i < n; asPhase s i = ApGo\<rbrakk> \<Longrightarrow> apStep n s (s\<lparr>asPhase := (asPhase s)(i := ApIdle)\<rparr>)"

definition apStart :: "int \<Rightarrow> int \<Rightarrow> apSys" where
  "apStart now throttle = \<lparr>asNow = now, asClient = NewAPISportsClient\<lparr>apThrottle := throttle\<rparr>, asPhase = (\<lambda>_. ApIdle), asPassed = []\<rparr>"

section \<open>Spacing\<close>

text \<open>The times of one caller's requests, newest first.\<close>

definition passesOf :: "nat \<Rightarrow> apSys \<Rightarrow> int list" where
  "passesOf i s = map snd (filter (\<lambda>p. fst p = i) (asPassed s))"

fun spaced :: "int \<Rightarrow> int list \<Rightarrow> bool" where
  "spaced T (x # y # zs) \<longleftrightarrow> y + T \<le> x \<and> spaced T (y # zs)"
| "spaced T _ \<longleftrightarrow> True"

lemma passesOf_pass: "passesOf j (apPass i t s) = (if i = j then t # passesOf j s else passesOf j s)"
  by (simp add: passesOf_def apPass_def)

lemma passesOf_mem: "t \<in> set (passesOf i s) \<longleftrightarrow> (i, t) \<in> set (asPassed s)"
  by (force simp: passesOf_def)

definition apInv :: "nat \<Rightarrow> int \<Rightarrow> apSys \<Rightarrow> bool" where
  "apInv n T s \<longleftrightarrow> apThrottle (asClient s) = T \<and>
     (\<forall>(i, t) \<in> set (asPassed s). i < n \<and> t \<le> asNow s \<and> (\<exists>l. apLast (asClient s) = Some l \<and> t \<le> l)) \<and>
     (\<forall>i d. asPhase s i = ApWait d \<longrightarrow> (\<forall>t \<in> set (passesOf i s). t + T \<le> d)) \<and>
     (\<forall>l. apLast (asClient s) = Some l \<longrightarrow> l \<le> asNow s) \<and>
     (\<forall>i. spaced T (passesOf i s))"

lemma spaced_Cons: "spaced T (x # xs) \<longleftrightarrow> spaced T xs \<and> (xs \<noteq> [] \<longrightarrow> hd xs + T \<le> x)"
  by (cases xs) auto

lemma apInv_pass:
  assumes "apInv n T s" and "0 < T" and "i < n" and "asNow s \<le> t" and late: "\<forall>t' \<in> set (passesOf i s). t' + T \<le> t"
  shows "apInv n T (apPass i t s)"
proof -
  have "spaced T (passesOf j (apPass i t s))" for j
    using assms(1) late by (simp add: passesOf_pass spaced_Cons apInv_def)
  moreover have "\<forall>j d. asPhase (apPass i t s) j = ApWait d \<longrightarrow> (\<forall>t' \<in> set (passesOf j (apPass i t s)). t' + T \<le> d)"
    using assms(1) by (simp add: passesOf_pass apInv_def) (simp add: apPass_def)
  ultimately show ?thesis
    using assms(1-4) by (fastforce simp: apInv_def apPass_def throttlePass_def)
qed

lemma throttle_late:
  assumes "apInv n T s" and "0 < T" and "t' \<in> set (passesOf i s)"
  shows "throttleWait (asClient s) (asNow s) = None \<Longrightarrow> t' + T \<le> asNow s"
    and "throttleWait (asClient s) (asNow s) = Some w \<Longrightarrow> t' + T \<le> asNow s + w"
proof -
  from assms obtain l where l: "apLast (asClient s) = Some l" "t' \<le> l" "apThrottle (asClient s) = T"
    by (fastforce simp: apInv_def passesOf_mem)
  show "throttleWait (asClient s) (asNow s) = None \<Longrightarrow> t' + T \<le> asNow s"
    "throttleWait (asClient s) (asNow s) = Some w \<Longrightarrow> t' + T \<le> asNow s + w"
    using l assms(2) by (simp_all add: throttleWait_def Let_def split: if_splits)
qed

lemma apStep_inv: "apStep n s s' \<Longrightarrow> apInv n T s \<Longrightarrow> 0 < T \<Longrightarrow> apInv n T s'"
proof (induction rule: apStep.induct)
  case (ap_tick s t)
  then show ?case by (fastforce simp: apInv_def passesOf_def)
next
  case (ap_wait i s w)
  have "\<forall>t' \<in> set (passesOf i s). t' + T \<le> asNow s + w" using throttle_late(2) [OF ap_wait.prems _ ap_wait.hyps(3)] by blast
  with ap_wait.prems show ?case by (simp add: apInv_def passesOf_def)
next
  case (ap_go i s t)
  have "\<forall>t' \<in> set (passesOf i s). t' + T \<le> t" using throttle_late(1) [OF ap_go.prems _ ap_go.hyps(3)] ap_go.hyps(4) by fastforce
  then show ?case by (rule apInv_pass [OF ap_go.prems ap_go.hyps(1,4)])
next
  case (ap_wake i s d t)
  have "\<forall>t' \<in> set (passesOf i s). t' + T \<le> t" using ap_wake by (fastforce simp: apInv_def)
  then show ?case by (rule apInv_pass [OF ap_wake.prems ap_wake.hyps(1,4)])
next
  case (ap_cancel i s d)
  then show ?case by (simp add: apInv_def passesOf_def)
next
  case (ap_done i s)
  then show ?case by (simp add: apInv_def passesOf_def)
qed

lemma apStart_inv: "apInv n T (apStart now T)"
  by (simp add: apInv_def apStart_def passesOf_def NewAPISportsClient_def)

lemma apReach_inv: "(apStep n)\<^sup>*\<^sup>* (apStart now T) s \<Longrightarrow> 0 < T \<Longrightarrow> apInv n T s"
  by (induction rule: rtranclp_induct) (auto intro: apStart_inv apStep_inv)

section \<open>Counting\<close>

lemma spaced_span: "spaced T (x # xs) \<Longrightarrow> 0 < T \<Longrightarrow> last (x # xs) + int (length xs) * T \<le> x"
proof (induction xs arbitrary: x)
  case (Cons y ys)
  then have "last (y # ys) + int (length ys) * T \<le> y" "y + T \<le> x" by simp_all
  then show ?case by (simp add: algebra_simps)
qed simp

lemma spaced_filter: "spaced T xs \<Longrightarrow> 0 < T \<Longrightarrow> spaced T (filter P xs)"
proof (induction xs)
  case (Cons x xs)
  have "y + T \<le> x" if "y \<in> set xs" for y
    using that Cons.prems
  proof (induction xs arbitrary: x)
    case (Cons z zs)
    then show ?case by (cases "y = z") fastforce+
  qed simp
  with Cons show ?case by (auto simp: spaced_Cons) (metis filter_is_subset hd_in_set subsetD)
qed simp

lemma spaced_window:
  assumes "spaced T ts" and "0 < T" and "\<forall>t \<in> set ts. a \<le> t \<and> t < a + int k * T"
  shows "length ts \<le> k"
proof (cases ts)
  case (Cons x xs)
  have "last ts + int (length xs) * T \<le> x" using spaced_span assms(1,2) Cons by blast
  moreover have "a \<le> last ts" "x < a + int k * T" using assms(3) Cons by (auto simp: last_in_set)
  ultimately have "int (length xs) * T < int k * T" by linarith
  then have "length xs < k" using assms(2) by (simp add: mult_less_cancel_right)
  with Cons show ?thesis by simp
qed simp

lemma count_callers:
  assumes "\<forall>p \<in> set ps. fst p < n" and "\<And>i. length (filter (\<lambda>p. fst p = i) ps) \<le> k"
  shows "length ps \<le> n * k"
  using assms
proof (induction n arbitrary: ps)
  case (Suc n)
  let ?rest = "filter (\<lambda>p. fst p \<noteq> n) ps"
  have "length ps = length (filter (\<lambda>p. fst p = n) ps) + length ?rest" by (simp add: sum_length_filter_compl)
  moreover have "\<forall>p \<in> set ?rest. fst p < n" using Suc.prems(1) by (auto simp: less_Suc_eq)
  moreover have "length (filter (\<lambda>p. fst p = i) ?rest) \<le> k" for i
    using Suc.prems(2) [of i] by (rule le_trans [rotated]) (induction ps; simp)
  ultimately show ?case using Suc.IH [of ?rest] Suc.prems(2) [of n] by simp
qed (metis length_greater_0_conv less_zeroE list.set_sel(1) mult_0 not_gr_zero le_refl)

lemma window_count:
  assumes "apInv n T s" and "0 < T"
  shows "length (filter (\<lambda>p. a \<le> snd p \<and> snd p < a + int k * T) (asPassed s)) \<le> n * k"
proof (rule count_callers)
  let ?w = "filter (\<lambda>p. a \<le> snd p \<and> snd p < a + int k * T) (asPassed s)"
  show "\<forall>p \<in> set ?w. fst p < n" using assms(1) by (auto simp: apInv_def)
  show "length (filter (\<lambda>p. fst p = i) ?w) \<le> k" for i
  proof -
    have "map snd (filter (\<lambda>p. fst p = i) (filter (\<lambda>p. Q (snd p)) ps)) = filter Q (map snd (filter (\<lambda>p. fst p = i) ps))"
      for Q and ps :: "(nat \<times> int) list" by (induction ps) simp_all
    then have l: "map snd (filter (\<lambda>p. fst p = i) ?w) = filter (\<lambda>t. a \<le> t \<and> t < a + int k * T) (passesOf i s)"
      unfolding passesOf_def .
    have "length (filter (\<lambda>t. a \<le> t \<and> t < a + int k * T) (passesOf i s)) \<le> k"
    proof (rule spaced_window [where a = a and T = T])
      have "spaced T (passesOf i s)" using assms(1) unfolding apInv_def by blast
      then show "spaced T (filter (\<lambda>t. a \<le> t \<and> t < a + int k * T) (passesOf i s))" using assms(2) by (rule spaced_filter)
    qed (use assms(2) in simp_all)
    then show ?thesis unfolding l [symmetric] length_map .
  qed
qed

section \<open>Calls as steps\<close>

lemma phase_back: "(apStep n)\<^sup>*\<^sup>* s (s'\<lparr>asPhase := (asPhase s')(i := ApGo)\<rparr>) \<Longrightarrow> i < n \<Longrightarrow> asPhase s' i = ApIdle \<Longrightarrow> (apStep n)\<^sup>*\<^sup>* s s'"
proof -
  assume 1: "(apStep n)\<^sup>*\<^sup>* s (s'\<lparr>asPhase := (asPhase s')(i := ApGo)\<rparr>)" and "i < n" and p: "asPhase s' i = ApIdle"
  then have "apStep n (s'\<lparr>asPhase := (asPhase s')(i := ApGo)\<rparr>) (s'\<lparr>asPhase := (asPhase s')(i := ApGo)\<rparr>\<lparr>asPhase := ((asPhase s')(i := ApGo))(i := ApIdle)\<rparr>)"
    using ap_done [of i n "s'\<lparr>asPhase := (asPhase s')(i := ApGo)\<rparr>"] by simp
  moreover have "s'\<lparr>asPhase := (asPhase s')(i := ApGo)\<rparr>\<lparr>asPhase := ((asPhase s')(i := ApGo))(i := ApIdle)\<rparr> = s'"
    using p by (cases s') (simp add: fun_upd_idem)
  ultimately show ?thesis using 1 by (simp add: rtranclp.rtrancl_into_rtrancl)
qed

lemma apGet_run:
  assumes "i < n" and "asPhase s i = ApIdle" and "asNow s \<le> later"
    and "\<And>w. throttleWait (asClient s) (asNow s) = Some w \<Longrightarrow> \<not> ctxDone \<Longrightarrow> asNow s + w \<le> later"
  shows "\<exists>s'. (apStep n)\<^sup>*\<^sup>* s s' \<and> asClient s' = fst (apGet h key decode (asNow s) later ctxDone (asClient s) base path) \<and> asPhase s' = asPhase s"
proof -
  let ?s' = "s\<lparr>asNow := later, asClient := throttlePass (asClient s) later, asPassed := (i, later) # asPassed s\<rparr>"
  have pass: "\<exists>s'. (apStep n)\<^sup>*\<^sup>* s s' \<and> asClient s' = throttlePass (asClient s) later \<and> asPhase s' = asPhase s"
    if "(apStep n)\<^sup>*\<^sup>* s (apPass i later s)"
  proof -
    have "apPass i later s = ?s'\<lparr>asPhase := (asPhase ?s')(i := ApGo)\<rparr>" by (simp add: apPass_def)
    with phase_back [of n s ?s' i] that assms(1,2) have "(apStep n)\<^sup>*\<^sup>* s ?s'" by simp
    then show ?thesis by (intro exI [of _ ?s']) simp
  qed
  show ?thesis
  proof (cases "throttleWait (asClient s) (asNow s)")
    case None
    then have "apStep n s (apPass i later s)" using assms by (intro ap_go) auto
    with pass None show ?thesis by (simp add: apGet_def r_into_rtranclp)
  next
    case (Some w)
    show ?thesis
    proof (cases ctxDone)
      case True
      with Some show ?thesis by (intro exI [of _ s]) (simp add: apGet_def)
    next
      case False
      let ?m = "s\<lparr>asPhase := (asPhase s)(i := ApWait (asNow s + w))\<rparr>"
      have "apStep n s ?m" using assms Some by (intro ap_wait) auto
      moreover have "apStep n ?m (apPass i later ?m)" using assms(4) [OF Some False] assms(1,3) by (intro ap_wake [where d = "asNow s + w"]) auto
      moreover have "apPass i later ?m = apPass i later s" by (simp add: apPass_def)
      ultimately have "(apStep n)\<^sup>*\<^sup>* s (apPass i later s)" by (metis converse_rtranclp_into_rtranclp r_into_rtranclp)
      with pass Some False show ?thesis by (simp add: apGet_def)
    qed
  qed
qed

lemma apReach_step: "(apStep n)\<^sup>*\<^sup>* s t \<Longrightarrow> apStep n t u \<Longrightarrow> (apStep n)\<^sup>*\<^sup>* s u"
  by (rule rtranclp.rtrancl_into_rtrancl)

text \<open>Two callers that wait for the same request wake together.\<close>

lemma burst:
  assumes "0 < T"
  shows "\<exists>s. (apStep 2)\<^sup>*\<^sup>* (apStart now T) s \<and> map snd (asPassed s) = [now + T, now + T, now]"
proof -
  let ?s0 = "apStart now T"
  let ?s1 = "apPass 0 now ?s0"
  let ?s2 = "?s1\<lparr>asPhase := (asPhase ?s1)(0 := ApIdle)\<rparr>"
  let ?s3 = "?s2\<lparr>asPhase := (asPhase ?s2)(0 := ApWait (asNow ?s2 + T))\<rparr>"
  let ?s4 = "?s3\<lparr>asPhase := (asPhase ?s3)(1 := ApWait (asNow ?s3 + T))\<rparr>"
  let ?s5 = "apPass 0 (now + T) ?s4"
  let ?s6 = "apPass 1 (now + T) ?s5"
  have 1: "apStep 2 ?s0 ?s1" by (rule ap_go) (simp_all add: apStart_def throttleWait_def NewAPISportsClient_def)
  have 2: "apStep 2 ?s1 ?s2" by (rule ap_done) (simp_all add: apPass_def)
  have 3: "apStep 2 ?s2 ?s3" by (rule ap_wait) (use assms in \<open>simp_all add: apPass_def apStart_def throttleWait_def throttlePass_def NewAPISportsClient_def\<close>)
  have 4: "apStep 2 ?s3 ?s4" by (rule ap_wait) (use assms in \<open>simp_all add: apPass_def apStart_def throttleWait_def throttlePass_def NewAPISportsClient_def\<close>)
  have 5: "apStep 2 ?s4 ?s5" by (rule ap_wake [where d = "now + T"]) (use assms in \<open>simp_all add: apPass_def\<close>)
  have 6: "apStep 2 ?s5 ?s6" by (rule ap_wake [where d = "now + T"]) (simp_all add: apPass_def)
  have "(apStep 2)\<^sup>*\<^sup>* ?s0 ?s6" by (rule apReach_step [OF apReach_step [OF apReach_step [OF apReach_step [OF apReach_step [OF apReach_step [OF rtranclp.rtrancl_refl 1] 2] 3] 4] 5] 6])
  moreover have "map snd (asPassed ?s6) = [now + T, now + T, now]" by (simp add: apPass_def apStart_def)
  ultimately show ?thesis by (intro exI conjI)
qed

section \<open>Property\<close>

text \<open>C37: The throttle bounds the rate of requests. Of any number of callers that share the client each sends at
  least one throttle interval after its own last request, so that n callers send at most n times k requests in k
  intervals; the two pollers stay at 4 in a minute, with 10 allowed. Requests of different callers are not kept
  apart, though: two callers that wait for the same earlier request send at the same instant. Every call is a run
  of these steps.\<close>

theorem throttle_rate:
  assumes "(apStep n)\<^sup>*\<^sup>* (apStart now T) s" and "0 < T"
  shows "length (filter (\<lambda>p. a \<le> snd p \<and> snd p < a + int k * T) (asPassed s)) \<le> n * k \<and>
    (\<forall>i. spaced T (passesOf i s)) \<and>
    (\<exists>s'. (apStep 2)\<^sup>*\<^sup>* (apStart now T) s' \<and> map snd (asPassed s') = [now + T, now + T, now]) \<and>
    (i < n \<and> asPhase s i = ApIdle \<and> asNow s \<le> later \<and> (\<forall>w. throttleWait (asClient s) (asNow s) = Some w \<and> \<not> ctxDone \<longrightarrow> asNow s + w \<le> later) \<longrightarrow>
      (\<exists>s'. (apStep n)\<^sup>*\<^sup>* s s' \<and> asClient s' = fst (apGet h key decode (asNow s) later ctxDone (asClient s) base path) \<and> asPhase s' = asPhase s))"
proof -
  have inv: "apInv n T s" by (rule apReach_inv [OF assms])
  show ?thesis
    using window_count [OF inv assms(2), of a k] inv burst [OF assms(2), of now] apGet_run [of i n s later ctxDone h key decode base path]
    unfolding apInv_def by blast
qed

theorem throttle_rate_witness:
  "\<exists>s. (apStep 2)\<^sup>*\<^sup>* (apStart 0 30000000000) s \<and> length (asPassed s) = 3 \<and>
     length (filter (\<lambda>p. 0 \<le> snd p \<and> snd p < 0 + int 2 * 30000000000) (asPassed s)) \<le> 2 * 2"
proof -
  have T: "0 < (30000000000 :: int)" by simp
  have r: "(apStep 2)\<^sup>*\<^sup>* (apStart 0 30000000000) (apStart 0 30000000000)" by (rule rtranclp.rtrancl_refl)
  from throttle_rate [OF r T, THEN conjunct2, THEN conjunct2, THEN conjunct1] obtain s where
    s: "(apStep 2)\<^sup>*\<^sup>* (apStart 0 30000000000) s" "map snd (asPassed s) = [0 + 30000000000, 0 + 30000000000, 0]" by (elim exE conjE) (rule that)
  have "length (asPassed s) = 3" using arg_cong [OF s(2), of length] by simp
  with s(1) throttle_rate [OF s(1) T, of 0 2, THEN conjunct1] show ?thesis by (intro exI conjI)
qed

end
