(* ===== verification/RefFlow.thy ===== *)
theory RefFlow
  imports RegistryProps VendorProps
begin

text \<open>
  The registry over the tables that the vendor reference data fills: what a refresh of the
  registry's cache reads from them (\<open>loadRefFromDB\<close>), and that checking legs against an old cache
  while the pollers go on is safe.
\<close>

section \<open>Reading the tables\<close>

definition teamOfRow :: "TeamRecord \<Rightarrow> Team" where
  "teamOfRow r = \<lparr>tmId = trID r, tmName = trName r, tmShortName = trShortName r, tmLeague = trLeagueID r\<rparr>"

definition playerOfRow :: "PlayerRecord \<Rightarrow> Player" where
  "playerOfRow r = \<lparr>plId = prID r, plName = prName r, plTeamId = prTeamID r, plPositions = prPositions r\<rparr>"

definition gameOfRow :: "GameRecord \<Rightarrow> Game" where
  "gameOfRow r = \<lparr>gmId = grID r, gmLeague = grLeagueID r, gmHomeTeamId = grHomeTeamID r, gmAwayTeamId = grAwayTeamID r,
     gmScheduledUnix = grScheduledUnix r, gmExpiryUnix = grExpiryUnix r\<rparr>"

lemma ofRow_simps [simp]:
  "tmId (teamOfRow t) = trID t" "plId (playerOfRow p) = prID p" "plTeamId (playerOfRow p) = prTeamID p" "plPositions (playerOfRow p) = prPositions p"
  "gmId (gameOfRow g) = grID g" "gmLeague (gameOfRow g) = grLeagueID g"
  "gmHomeTeamId (gameOfRow g) = grHomeTeamID g" "gmAwayTeamId (gameOfRow g) = grAwayTeamID g"
  by (simp_all add: teamOfRow_def playerOfRow_def gameOfRow_def)

text \<open>The three queries name no order.\<close>

definition readTables :: "(refQuery \<Rightarrow> string list) \<Rightarrow> vendorDb \<Rightarrow> refTables" where
  "readTables order v = \<lparr>rtTeams = map teamOfRow (orderBy trID (order QTeams) (vdTeams v)),
     rtPlayers = map playerOfRow (orderBy prID (order QPlayers) (vdPlayers v)),
     rtGames = map gameOfRow (orderBy grID (order QGames) (vdGames v))\<rparr>"

lemma distinct_orderBy: "distinct (map f (orderBy k ks xs)) \<longleftrightarrow> distinct (map f xs)"
  by (rule mset_eq_imp_distinct_iff) simp

lemma readTables_keys:
  assumes "vdbOk v"
  shows "distinct (map tmId (rtTeams (readTables order v)))" "distinct (map plId (rtPlayers (readTables order v)))"
    "distinct (map gmId (rtGames (readTables order v)))"
  using assms by (simp_all add: readTables_def comp_def distinct_orderBy vdbOk_def teamsOk_def playersOk_def gamesOk_def)

text \<open>The store of a cache whose last refresh read the tables \<open>v\<close>.\<close>

definition storeOf :: "(refQuery \<Rightarrow> string list) \<Rightarrow> vendorDb \<Rightarrow> refStore" where
  "storeOf order v = refGet (refresh (\<lambda>_. False) (readTables order v) newRefCache)"

lemma refresh_storeOf: "\<forall>q. \<not> failed q \<Longrightarrow> refGet (refresh failed (readTables order v) c) = storeOf order v"
  by (simp add: storeOf_def refGet_def refresh_def loadRefFromDB_def Let_def)

lemma storeOf_fields:
  assumes "vdbOk v"
  shows "rsTeams (storeOf order v) = map (\<lambda>r. (tmId r, r)) (rtTeams (readTables order v))"
    "rsPlayers (storeOf order v) = map (\<lambda>r. (plId r, r)) (rtPlayers (readTables order v))"
    "rsGames (storeOf order v) = map (\<lambda>r. (gmId r, r)) (rtGames (readTables order v))"
    "rsPropRules (storeOf order v) = defaultPropRules"
  by (simp_all add: storeOf_def refGet_def refresh_def loadRefFromDB_def Let_def foldl_update_keys [OF readTables_keys(1) [OF assms]]
      foldl_update_keys [OF readTables_keys(2) [OF assms]] foldl_update_keys [OF readTables_keys(3) [OF assms]])

lemma map_of_rows:
  "distinct (map k rows) \<Longrightarrow> map_of (map (\<lambda>r. (k r, r)) rows) i = Some x \<longleftrightarrow> x \<in> set rows \<and> k x = i"
  by (auto simp: map_of_eq_Some_iff comp_def)

lemma storeOf_lookups:
  assumes "vdbOk v"
  shows "getTeam (storeOf order v) i = Some t \<longleftrightarrow> (\<exists>r \<in> set (vdTeams v). t = teamOfRow r \<and> trID r = i)"
    "getPlayer (storeOf order v) i = Some p \<longleftrightarrow> (\<exists>r \<in> set (vdPlayers v). p = playerOfRow r \<and> prID r = i)"
    "getGame (storeOf order v) i = Some g \<longleftrightarrow> (\<exists>r \<in> set (vdGames v). g = gameOfRow r \<and> grID r = i)"
  unfolding getTeam_def getPlayer_def getGame_def storeOf_fields [OF assms]
    map_of_rows [OF readTables_keys(1) [OF assms]] map_of_rows [OF readTables_keys(2) [OF assms]] map_of_rows [OF readTables_keys(3) [OF assms]]
  by (auto simp: readTables_def)

lemma storeOf_roster:
  assumes "vdbOk v" and "p \<in> set (vdPlayers v)" and "g \<in> set (vdGames v)"
  shows "playerInGame (storeOf order v) (prID p) (grID g) \<longleftrightarrow> prTeamID p \<in> {grHomeTeamID g, grAwayTeamID g}"
proof -
  have "playerOfRow p \<in> set (rtPlayers (readTables order v))" "gameOfRow g \<in> set (rtGames (readTables order v))"
    using assms(2,3) by (simp_all add: readTables_def)
  moreover have "\<forall>p \<in> set (rtPlayers (readTables order v)). \<forall>g \<in> set (rtGames (readTables order v)).
      playerInGame (storeOf order v) (plId p) (gmId g) = (plTeamId p \<in> {gmHomeTeamId g, gmAwayTeamId g})"
    using roster_exact [OF readTables_keys(2) [OF assms(1), of order] readTables_keys(3) [OF assms(1), of order], of "\<lambda>_. False" newRefCache]
    by (simp only: storeOf_def Let_def) simp
  ultimately have "playerInGame (storeOf order v) (plId (playerOfRow p)) (gmId (gameOfRow g)) \<longleftrightarrow>
      plTeamId (playerOfRow p) \<in> {gmHomeTeamId (gameOfRow g), gmAwayTeamId (gameOfRow g)}" by blast
  then show ?thesis by simp
qed

text \<open>No reference of a row dangles.\<close>

lemma storeOf_teams:
  assumes "vdbOk v"
  shows "p \<in> set (vdPlayers v) \<Longrightarrow> getTeam (storeOf order v) (prTeamID p) \<noteq> None"
    "g \<in> set (vdGames v) \<Longrightarrow> getTeam (storeOf order v) (grHomeTeamID g) \<noteq> None \<and> getTeam (storeOf order v) (grAwayTeamID g) \<noteq> None"
proof -
  have t: "getTeam (storeOf order v) i \<noteq> None" if "i \<in> trID ` set (vdTeams v)" for i
    using storeOf_lookups(1) [OF assms, of order i] that by blast
  have s: "prTeamID ` set (vdPlayers v) \<subseteq> trID ` set (vdTeams v)" "grHomeTeamID ` set (vdGames v) \<subseteq> trID ` set (vdTeams v)"
    "grAwayTeamID ` set (vdGames v) \<subseteq> trID ` set (vdTeams v)"
    using assms by (simp_all add: vdbOk_def playersOk_def gamesOk_def)
  show "p \<in> set (vdPlayers v) \<Longrightarrow> getTeam (storeOf order v) (prTeamID p) \<noteq> None"
    "g \<in> set (vdGames v) \<Longrightarrow> getTeam (storeOf order v) (grHomeTeamID g) \<noteq> None \<and> getTeam (storeOf order v) (grAwayTeamID g) \<noteq> None"
    using t s by (simp_all add: image_subset_iff)
qed

section \<open>An old cache over newer tables\<close>

text \<open>The instruments' foreign keys refer to the tables \<open>v\<close>.\<close>

definition overTables :: "vendorDb \<Rightarrow> regDb \<Rightarrow> bool" where
  "overTables v d \<longleftrightarrow> rdGames d = grID ` set (vdGames v) \<and> rdPlayers d = prID ` set (vdPlayers v)"

lemma game_kept:
  assumes "keeps v v'" and "g \<in> set (vdGames v)"
  obtains g' where "g' \<in> set (vdGames v')" "grID g' = grID g" "grLeagueID g' = grLeagueID g"
    "grHomeTeamID g' = grHomeTeamID g" "grAwayTeamID g' = grAwayTeamID g"
proof -
  have "gameIdent g \<in> gameIdent ` set (vdGames v')" using assms unfolding keeps_def by blast
  then show ?thesis using that by (auto simp: gameIdent_def)
qed

lemma player_kept:
  assumes "keeps v v'" and "p \<in> set (vdPlayers v)"
  obtains p' where "p' \<in> set (vdPlayers v')" "prID p' = prID p"
proof -
  have "playerIdent p \<in> playerIdent ` set (vdPlayers v')" using assms unfolding keeps_def by blast
  then show ?thesis using that by (auto simp: playerIdent_def)
qed

lemma stale_present:
  assumes "vdbOk v" and "keeps v v'" and "overTables v' d"
  shows "refPresent (storeOf order v) d"
proof -
  have "fst ` set (rsGames (storeOf order v)) = grID ` set (vdGames v)" "fst ` set (rsPlayers (storeOf order v)) = prID ` set (vdPlayers v)"
    by (simp_all add: storeOf_fields [OF assms(1)] readTables_def image_image)
  moreover have "grID ` set (vdGames v) \<subseteq> grID ` set (vdGames v')" "prID ` set (vdPlayers v) \<subseteq> prID ` set (vdPlayers v')"
    by (metis assms(2) game_kept image_eqI image_subsetI) (metis assms(2) player_kept image_eqI image_subsetI)
  ultimately show ?thesis using assms(3) by (simp add: refPresent_def overTables_def)
qed

definition propRuled :: "PropType \<Rightarrow> PlayerRecord \<Rightarrow> League \<Rightarrow> bool" where
  "propRuled pt p league \<longleftrightarrow> (\<exists>pos \<in> set (prPositions p). pt \<in> set (slice defaultPropRules (league, pos)))"

lemma storeOf_allowed:
  "vdbOk v \<Longrightarrow> propAllowedForPlayer pt (playerOfRow p) league (storeOf order v) \<longleftrightarrow> propRuled pt p league"
  by (simp add: propAllowedForPlayer_def propRuled_def allowedPropTypes_def storeOf_fields list_ex_iff)

text \<open>A leg that was accepted stays acceptable unless its player has changed team or positions.\<close>

lemma legOk_outcome:
  assumes "vdbOk v" and "vdbOk v'" and "keeps v v'" and "legOk (storeOf order v) l" and "lgPredicate l = GameOutcome out"
  shows "legOk (storeOf order' v') l"
proof -
  from assms(4,5) storeOf_lookups(3) [OF assms(1)] obtain g where g: "g \<in> set (vdGames v)" "grID g = lgGameId l" "lgGameId l \<noteq> []"
    "out \<noteq> Outcome_OUTCOME_UNSPECIFIED" "out = Outcome_DRAW \<longrightarrow> grLeagueID g \<in> set soccerLeagues"
    by (auto simp: legOk_def)
  from game_kept [OF assms(3) g(1)] obtain g' where g': "g' \<in> set (vdGames v')" "grID g' = grID g" "grLeagueID g' = grLeagueID g" by metis
  then have "getGame (storeOf order' v') (lgGameId l) = Some (gameOfRow g')" using storeOf_lookups(3) [OF assms(2)] g(2) by auto
  with g g'(3) assms(5) show ?thesis by (simp add: legOk_def)
qed

lemma legOk_prop:
  assumes "vdbOk v" and "vdbOk v'" and "keeps v v'" and "legOk (storeOf order v) l" and "lgPredicate l = LegPlayerProp pp"
  obtains p p' where "p \<in> set (vdPlayers v)" "p' \<in> set (vdPlayers v')" "prID p = ppPlayerId pp" "prID p' = ppPlayerId pp"
    "prTeamID p' = prTeamID p \<and> prPositions p' = prPositions p \<longrightarrow> legOk (storeOf order' v') l"
proof -
  from assms(4,5) storeOf_lookups(2,3) [OF assms(1)] obtain g p where
    g: "g \<in> set (vdGames v)" "grID g = lgGameId l" and p: "p \<in> set (vdPlayers v)" "prID p = ppPlayerId pp"
    and in_g: "playerInGame (storeOf order v) (prID p) (grID g)"
    and ruled: "propAllowedForPlayer (ppPropType pp) (playerOfRow p) (grLeagueID g) (storeOf order v)"
    and st: "structuralLeg l = None"
    by (auto simp: legOk_def legOk_iff [THEN iffD1, OF assms(4)])
  from game_kept [OF assms(3) g(1)] obtain g' where g': "g' \<in> set (vdGames v')" "grID g' = grID g" "grLeagueID g' = grLeagueID g"
    "grHomeTeamID g' = grHomeTeamID g" "grAwayTeamID g' = grAwayTeamID g" by metis
  from player_kept [OF assms(3) p(1)] obtain p' where p': "p' \<in> set (vdPlayers v')" "prID p' = prID p" by metis
  have "legOk (storeOf order' v') l" if same: "prTeamID p' = prTeamID p" "prPositions p' = prPositions p"
  proof -
    have "getGame (storeOf order' v') (lgGameId l) = Some (gameOfRow g')" "getPlayer (storeOf order' v') (ppPlayerId pp) = Some (playerOfRow p')"
      using storeOf_lookups(2,3) [OF assms(2)] g(2) p(2) g'(1,2) p' by auto
    moreover have "playerInGame (storeOf order' v') (ppPlayerId pp) (lgGameId l)"
      using storeOf_roster [OF assms(2) p'(1) g'(1), of order'] storeOf_roster [OF assms(1) p(1) g(1), of order] in_g same(1) g'(2,4,5) g(2) p(2) p'(2) by simp
    moreover have "propAllowedForPlayer (ppPropType pp) (playerOfRow p') (grLeagueID g') (storeOf order' v')"
      using ruled same(2) g'(3) by (simp add: storeOf_allowed [OF assms(1)] storeOf_allowed [OF assms(2)] propRuled_def)
    ultimately show ?thesis using st assms(5) by (simp add: legOk_iff entityLeg_def)
  qed
  with that [OF p(1) p'(1) p(2)] p(2) p'(2) show ?thesis by simp
qed

section \<open>Property\<close>


definition demoHomeWin :: Leg where
  "demoHomeWin = \<lparr>lgGameId = ''G'', lgPredicate = GameOutcome 1\<rparr>"

text \<open>An encoding good enough for a single leg.\<close>

definition demoByGame :: marshaller where
  "demoByGame l = Some (lgGameId l)"

definition demoOver :: "vendorDb \<Rightarrow> regDb" where
  "demoOver v = emptyReg\<lparr>rdGames := grID ` set (vdGames v), rdPlayers := prID ` set (vdPlayers v)\<rparr>"

lemma demo_refGet: "refGet (refresh (\<lambda>_. False) (readTables (\<lambda>_. []) demoVDb) newRefCache) = storeOf (\<lambda>_. []) demoVDb"
  by (simp add: storeOf_def)

lemma demoHomeWin_wellFormed: "wellFormed demoByGame (storeOf (\<lambda>_. []) demoVDb) [demoHomeWin]"
proof -
  have "getGame (storeOf (\<lambda>_. []) demoVDb) ''G'' = Some (gameOfRow demoVGame)"
    using storeOf_lookups(3) [OF demoVDb_ok, of "\<lambda>_. []" "''G''" "gameOfRow demoVGame"] by (auto simp: demoVDb_def demoVGame_def)
  then have "legOk (storeOf (\<lambda>_. []) demoVDb) demoHomeWin" by (simp add: legOk_def demoHomeWin_def)
  moreover have "encodable demoByGame [demoHomeWin]" by (simp add: encodable_def demoByGame_def)
  ultimately show ?thesis by (auto simp: wellFormed_def hashesOf_def outcomeGames_def contradicts_irrefl)
qed


end
