(* ===== verification/Startup.thy ===== *)
theory Startup
  imports MarketService GoParse
begin

text \<open>
  The commands (\<open>main.go\<close> under every \<open>cmd\<close>): what they read from the environment, in which order they open
  what they need, and the configuration with which the service then runs. A fatal log
  entry ends the process and is a value. Which of the steps outside the program fails is an
  argument; a variable that is not set reads as the empty string.
\<close>

section \<open>Environment\<close>

type_synonym osEnv = "string \<Rightarrow> string"

datatype startOp = StHostname | StOpenDB | StDriver | StSource | StUp | StDsn | StPool | StUserPool | StEtcd | StDial | StNode | StListen | StAws

text \<open>\<open>OpNoChange\<close> is the error \<open>migrate.ErrNoChange\<close>.\<close>

datatype opResult = OpOk | OpNoChange | OpErr

datatype fatal = FatalEnv string | FatalInt string | FatalDuration string | FatalOp startOp

definition andThen :: "fatal + 'a \<Rightarrow> ('a \<Rightarrow> fatal + 'b) \<Rightarrow> fatal + 'b" where
  "andThen r k = (case r of Inl e \<Rightarrow> Inl e | Inr x \<Rightarrow> k x)"

definition mustEnv :: "osEnv \<Rightarrow> string \<Rightarrow> fatal + string" where
  "mustEnv env key = (if env key = [] then Inl (FatalEnv key) else Inr (env key))"

definition envOr :: "osEnv \<Rightarrow> string \<Rightarrow> string \<Rightarrow> string" where
  "envOr env key dflt = (if env key \<noteq> [] then env key else dflt)"

definition mustInt :: "string \<Rightarrow> fatal + int" where
  "mustInt s = (case Atoi s of (n, ok) \<Rightarrow> if ok then Inr n else Inl (FatalInt s))"

definition optInt :: "string \<Rightarrow> int" where
  "optInt s = fst (Atoi s)"

definition parseDur :: "fracMul \<Rightarrow> string \<Rightarrow> fatal + int" where
  "parseDur frac s = (case ParseDuration frac s of None \<Rightarrow> Inl (FatalDuration s) | Some d \<Rightarrow> Inr d)"

definition optDuration :: "fracMul \<Rightarrow> string \<Rightarrow> int" where
  "optDuration frac s = (case ParseDuration frac s of None \<Rightarrow> 0 | Some d \<Rightarrow> d)"

definition attempt :: "(startOp \<Rightarrow> opResult) \<Rightarrow> startOp \<Rightarrow> fatal + unit" where
  "attempt run op = (if run op \<noteq> OpOk then Inl (FatalOp op) else Inr ())"

definition runMigrations :: "(startOp \<Rightarrow> opResult) \<Rightarrow> fatal + unit" where
  "runMigrations run =
     andThen (attempt run StOpenDB) (\<lambda>_.
     andThen (attempt run StDriver) (\<lambda>_.
     andThen (attempt run StSource) (\<lambda>_.
     if run StUp \<noteq> OpOk \<and> run StUp \<noteq> OpNoChange then Inl (FatalOp StUp) else Inr ())))"

text \<open>\<open>int32 (n)\<close>.\<close>

definition wrap32 :: "int \<Rightarrow> int" where
  "wrap32 x = (x + 2 ^ 31) mod 2 ^ 32 - 2 ^ 31"

definition minute :: int where
  "minute = 60000000000"

section \<open>Market\<close>

record marketCommand =
  mcBrokers :: "string list"
  mcTopic :: string
  mcPartition :: int
  mcDataDir :: string
  mcService :: Config

definition marketMain :: "fracMul \<Rightarrow> osEnv \<Rightarrow> fatal + marketCommand" where
  "marketMain frac env =
     andThen (mustEnv env ''KAFKA_BROKERS'') (\<lambda>brokers.
     andThen (mustEnv env ''MARKET_CARDINAL'') (\<lambda>cardinal.
     andThen (mustInt cardinal) (\<lambda>partition.
     Inr \<lparr>mcBrokers = splitComma brokers, mcTopic = envOr env ''KAFKA_IN_TOPIC'' ''incoming_orders'', mcPartition = partition,
          mcDataDir = envOr env ''MARKET_DATA_DIR'' ''/data'',
          mcService = \<lparr>cfgExecTopic = envOr env ''KAFKA_EXEC_TOPIC'' ''order_executions'',
            cfgDepthTopic = envOr env ''KAFKA_DEPTH_TOPIC'' ''depth_updates'',
            cfgFlushEvery = optInt (envOr env ''MARKET_FLUSH_EVERY'' ''1000''),
            cfgMinBytes = optInt (envOr env ''MARKET_KAFKA_MIN_BYTES'' ''0''),
            cfgMaxBytes = optInt (envOr env ''MARKET_KAFKA_MAX_BYTES'' ''0''),
            cfgMaxWait = optDuration frac (envOr env ''MARKET_KAFKA_MAX_WAIT'' []), cfgPublisher = False\<rparr>\<rparr>)))"

section \<open>Cashier\<close>

record serverCommand =
  svDSN :: string
  svListen :: string
  svMaxConns :: int

definition cashierMain :: "(startOp \<Rightarrow> opResult) \<Rightarrow> osEnv \<Rightarrow> fatal + serverCommand" where
  "cashierMain run env =
     andThen (mustEnv env ''CASHIER_PG_DSN'') (\<lambda>pgDSN.
     andThen (mustInt (envOr env ''CASHIER_PG_POOL_SIZE'' ''10'')) (\<lambda>poolSize.
     andThen (runMigrations run) (\<lambda>_.
     andThen (attempt run StDsn) (\<lambda>_.
     andThen (attempt run StPool) (\<lambda>_.
     andThen (attempt run StListen) (\<lambda>_.
     Inr \<lparr>svDSN = pgDSN, svListen = envOr env ''CASHIER_LISTEN_ADDR'' ''0.0.0.0:50051'', svMaxConns = wrap32 poolSize\<rparr>))))))"

section \<open>Registry\<close>

record registryCommand =
  rgServer :: serverCommand
  rgRefresh :: int

definition registryDuration :: "fracMul \<Rightarrow> string \<Rightarrow> int" where
  "registryDuration frac s = (let d = optDuration frac s in if d \<le> 0 then 5 * minute else d)"

definition registryMain :: "fracMul \<Rightarrow> (startOp \<Rightarrow> opResult) \<Rightarrow> osEnv \<Rightarrow> fatal + registryCommand" where
  "registryMain frac run env =
     andThen (mustEnv env ''REGISTRY_PG_DSN'') (\<lambda>dsn.
     let poolSize = optInt (envOr env ''REGISTRY_PG_POOL_SIZE'' ''10'') in
     andThen (attempt run StDsn) (\<lambda>_.
     andThen (attempt run StPool) (\<lambda>_.
     andThen (runMigrations run) (\<lambda>_.
     andThen (attempt run StListen) (\<lambda>_.
     Inr \<lparr>rgServer = \<lparr>svDSN = dsn, svListen = envOr env ''REGISTRY_LISTEN_ADDR'' ''0.0.0.0:50053'', svMaxConns = wrap32 poolSize\<rparr>,
          rgRefresh = registryDuration frac (envOr env ''REGISTRY_REF_REFRESH_INTERVAL'' ''5m'')\<rparr>)))))"

section \<open>User registration\<close>

datatype netParams = TestNet3Params | RegressionNetParams | MainNetParams

definition btcNetworkParams :: "string \<Rightarrow> netParams" where
  "btcNetworkParams network =
     (if network = ''testnet3'' then TestNet3Params else if network = ''regtest'' then RegressionNetParams else MainNetParams)"

record userregCommand =
  ugServer :: serverCommand
  ugPoolID :: string
  ugRegion :: string
  ugKeyARN :: string
  ugNetwork :: netParams

definition userregMain :: "(startOp \<Rightarrow> opResult) \<Rightarrow> osEnv \<Rightarrow> fatal + userregCommand" where
  "userregMain run env =
     andThen (mustEnv env ''USERREG_PG_DSN'') (\<lambda>pgDSN.
     andThen (mustEnv env ''USERREG_COGNITO_POOL_ID'') (\<lambda>poolID.
     andThen (mustEnv env ''USERREG_KMS_KEY_ARN'') (\<lambda>kmsKeyARN.
     andThen (mustInt (envOr env ''USERREG_PG_POOL_SIZE'' ''10'')) (\<lambda>poolSize.
     andThen (runMigrations run) (\<lambda>_.
     andThen (attempt run StDsn) (\<lambda>_.
     andThen (attempt run StPool) (\<lambda>_.
     andThen (attempt run StAws) (\<lambda>_.
     andThen (attempt run StListen) (\<lambda>_.
     Inr \<lparr>ugServer = \<lparr>svDSN = pgDSN, svListen = envOr env ''USERREG_LISTEN_ADDR'' ''0.0.0.0:50052'', svMaxConns = wrap32 poolSize\<rparr>,
          ugPoolID = poolID, ugRegion = envOr env ''USERREG_COGNITO_REGION'' ''us-east-1'', ugKeyARN = kmsKeyARN,
          ugNetwork = btcNetworkParams (envOr env ''USERREG_BTC_NETWORK'' ''mainnet'')\<rparr>)))))))))"

section \<open>Bitcoin watcher\<close>

definition networkParams :: "string \<Rightarrow> netParams" where
  "networkParams network =
     (if network = ''testnet3'' then TestNet3Params else if network = ''regtest'' then RegressionNetParams else MainNetParams)"

text \<open>\<open>StartHeight\<close> is not set and keeps its zero value.\<close>

record watcherCommand =
  wkDSN :: string
  wkUserDSN :: string
  wkCashier :: string
  wkEtcd :: "string list"
  wkLeaseTTL :: int
  wkDataDir :: string
  wkPeers :: "string list"
  wkConfirmations :: int
  wkPollInterval :: int
  wkRetryInterval :: int
  wkReorgCancelAge :: int
  wkNetwork :: netParams
  wkStartHeight :: int

definition peersOf :: "string \<Rightarrow> string list" where
  "peersOf raw = (if raw \<noteq> [] then splitComma raw else [])"

definition btcwatcherMain :: "fracMul \<Rightarrow> (startOp \<Rightarrow> opResult) \<Rightarrow> osEnv \<Rightarrow> fatal + watcherCommand" where
  "btcwatcherMain frac run env =
     andThen (mustEnv env ''BTCWATCHER_PG_DSN'') (\<lambda>pgDSN.
     andThen (mustEnv env ''BTCWATCHER_USERREG_PG_DSN'') (\<lambda>userRegDSN.
     andThen (mustEnv env ''BTCWATCHER_CASHIER_ADDR'') (\<lambda>cashierAddr.
     andThen (mustEnv env ''ETCD_ENDPOINTS'') (\<lambda>etcd.
     andThen (mustInt (envOr env ''BTCWATCHER_CONFIRMATIONS'' ''6'')) (\<lambda>confirmations.
     andThen (mustInt (envOr env ''BTCWATCHER_LEASE_TTL'' ''60'')) (\<lambda>leaseTTL.
     andThen (parseDur frac (envOr env ''BTCWATCHER_POLL_INTERVAL'' ''60s'')) (\<lambda>pollInterval.
     andThen (parseDur frac (envOr env ''BTCWATCHER_CASHIER_RETRY_INTERVAL'' ''30s'')) (\<lambda>retryInterval.
     andThen (parseDur frac (envOr env ''BTCWATCHER_REORG_CANCEL_AGE'' ''20m'')) (\<lambda>cancelAge.
     andThen (attempt run StHostname) (\<lambda>_.
     andThen (runMigrations run) (\<lambda>_.
     andThen (attempt run StEtcd) (\<lambda>_.
     andThen (attempt run StPool) (\<lambda>_.
     andThen (attempt run StUserPool) (\<lambda>_.
     andThen (attempt run StDial) (\<lambda>_.
     andThen (attempt run StNode) (\<lambda>_.
     Inr \<lparr>wkDSN = pgDSN, wkUserDSN = userRegDSN, wkCashier = cashierAddr, wkEtcd = splitComma etcd, wkLeaseTTL = leaseTTL, wkDataDir = envOr env ''BTCWATCHER_DATA_DIR'' ''/data'',
          wkPeers = peersOf (envOr env ''BTCWATCHER_PEERS'' []), wkConfirmations = confirmations, wkPollInterval = pollInterval,
          wkRetryInterval = retryInterval, wkReorgCancelAge = cancelAge,
          wkNetwork = networkParams (envOr env ''BTCWATCHER_NETWORK'' ''mainnet''), wkStartHeight = 0\<rparr>))))))))))))))))"

text \<open>\<open>time.NewTicker\<close> panics unless the interval is positive. \<open>Run\<close> of the watcher makes two.\<close>

definition newTicker :: "int \<Rightarrow> bool" where
  "newTicker d \<longleftrightarrow> 0 < d"

definition watcherTickers :: "watcherCommand \<Rightarrow> bool" where
  "watcherTickers c \<longleftrightarrow> newTicker (wkPollInterval c) \<and>
     newTicker (if wkRetryInterval c = 0 then 30 * 1000000000 else wkRetryInterval c)"

section \<open>Vendor reference data\<close>

record vendorCommand =
  vcDSN :: string
  vcKey :: string
  vcYear :: int
  vcPopulate :: int
  vcResults :: int
  vcMigrations :: string

definition vendorDuration :: "fracMul \<Rightarrow> string \<Rightarrow> int \<Rightarrow> int" where
  "vendorDuration frac s fallback = (case ParseDuration frac s of
     None \<Rightarrow> fallback
   | Some d \<Rightarrow> if d \<le> 0 then fallback else d)"

definition minDuration :: "int \<Rightarrow> int \<Rightarrow> int" where
  "minDuration a b = (if a < b then a else b)"

definition seasonYear :: "osEnv \<Rightarrow> int \<Rightarrow> int" where
  "seasonYear env thisYear =
     (let y = env ''VENDOR_REFDATA_SEASON'' in
      if y \<noteq> [] then (case Atoi y of (n, ok) \<Rightarrow> if ok then n else thisYear) else thisYear)"

definition vendorMain :: "fracMul \<Rightarrow> (startOp \<Rightarrow> opResult) \<Rightarrow> int \<Rightarrow> osEnv \<Rightarrow> fatal + vendorCommand" where
  "vendorMain frac run thisYear env =
     andThen (mustEnv env ''VENDOR_REFDATA_PG_DSN'') (\<lambda>dsn.
     andThen (mustEnv env ''APISPORTS_KEY'') (\<lambda>apiKey.
     let roster = vendorDuration frac (envOr env ''VENDOR_REFDATA_ROSTER_INTERVAL'' ''1h'') (60 * minute);
         schedule = vendorDuration frac (envOr env ''VENDOR_REFDATA_SCHEDULE_INTERVAL'' ''1h'') (60 * minute);
         results = vendorDuration frac (envOr env ''VENDOR_REFDATA_RESULTS_INTERVAL'' ''5m'') (5 * minute) in
     andThen (runMigrations run) (\<lambda>_.
     andThen (attempt run StPool) (\<lambda>_.
     Inr \<lparr>vcDSN = dsn, vcKey = apiKey, vcYear = seasonYear env thisYear, vcPopulate = minDuration roster schedule, vcResults = results,
          vcMigrations = envOr env ''VENDOR_REFDATA_MIGRATIONS_PATH'' ''../../registry/db/migrations''\<rparr>))))"

section \<open>Laws\<close>

lemma andThen_Inr [simp]: "andThen r k = Inr y \<longleftrightarrow> (\<exists>x. r = Inr x \<and> k x = Inr y)"
  by (cases r) (simp_all add: andThen_def)

lemma mustEnv_Inr [simp]: "mustEnv env key = Inr v \<longleftrightarrow> env key \<noteq> [] \<and> v = env key"
  by (auto simp: mustEnv_def)

lemma attempt_Inr [simp]: "attempt run op = Inr u \<longleftrightarrow> run op = OpOk"
  by (simp add: attempt_def)

lemma mustInt_Inr: "mustInt s = Inr n \<longleftrightarrow> parseInt64 s = Some n"
  by (auto simp: mustInt_def Atoi_def Let_def split: prod.split option.split if_splits)

lemma parseDur_Inr: "parseDur frac s = Inr d \<longleftrightarrow> ParseDuration frac s = Some d"
  by (auto simp: parseDur_def split: option.split)

lemma vendorDuration_pos: "0 < fallback \<Longrightarrow> 0 < vendorDuration frac s fallback"
  by (simp add: vendorDuration_def split: option.split)

lemma registryDuration_pos: "0 < registryDuration frac s"
  by (simp add: registryDuration_def Let_def minute_def)

lemma networks_agree: "btcNetworkParams = networkParams"
  by (simp add: fun_eq_iff btcNetworkParams_def networkParams_def)

definition migrated :: "(startOp \<Rightarrow> opResult) \<Rightarrow> bool" where
  "migrated run \<longleftrightarrow> run StOpenDB = OpOk \<and> run StDriver = OpOk \<and> run StSource = OpOk \<and> run StUp \<in> {OpOk, OpNoChange}"

lemma runMigrations_Inr [simp]: "runMigrations run = Inr u \<longleftrightarrow> migrated run"
  by (auto simp: runMigrations_def migrated_def split: if_splits)

lemma migrated_ok [simp]: "migrated (\<lambda>_. OpOk)"
  by (simp add: migrated_def)

text \<open>A service runs only after its migrations, with what it must be told.\<close>

lemma started_cashier:
  "(\<exists>c. cashierMain run env = Inr c) \<longleftrightarrow> env ''CASHIER_PG_DSN'' \<noteq> [] \<and> parseInt64 (envOr env ''CASHIER_PG_POOL_SIZE'' ''10'') \<noteq> None \<and>
     migrated run \<and> run StDsn = OpOk \<and> run StPool = OpOk \<and> run StListen = OpOk"
  by (auto simp: cashierMain_def mustInt_Inr)

lemma started_registry:
  assumes "registryMain frac run env = Inr c"
  shows "migrated run \<and> newTicker (rgRefresh c) \<and> svDSN (rgServer c) \<noteq> []"
  using assms registryDuration_pos by (auto simp: registryMain_def newTicker_def Let_def)

lemma started_userreg:
  assumes "userregMain run env = Inr c"
  shows "migrated run \<and> svDSN (ugServer c) \<noteq> [] \<and> ugPoolID c \<noteq> [] \<and> ugKeyARN c \<noteq> [] \<and>
    ugNetwork c = networkParams (envOr env ''USERREG_BTC_NETWORK'' ''mainnet'')"
  using assms by (auto simp: userregMain_def networks_agree)

lemma started_btcwatcher:
  assumes "btcwatcherMain frac run env = Inr c"
  shows "migrated run \<and> wkDSN c \<noteq> [] \<and> wkUserDSN c \<noteq> [] \<and> wkCashier c \<noteq> [] \<and> wkStartHeight c = 0 \<and> joinComma (wkEtcd c) = env ''ETCD_ENDPOINTS'' \<and>
    wkNetwork c = networkParams (envOr env ''BTCWATCHER_NETWORK'' ''mainnet'') \<and>
    ParseDuration frac (envOr env ''BTCWATCHER_POLL_INTERVAL'' ''60s'') = Some (wkPollInterval c)"
  using assms by (auto simp: btcwatcherMain_def parseDur_Inr join_split)

lemma started_vendor:
  assumes "vendorMain frac run thisYear env = Inr c"
  shows "migrated run \<and> newTicker (vcPopulate c) \<and> newTicker (vcResults c)"
  using assms vendorDuration_pos by (auto simp: vendorMain_def newTicker_def minDuration_def minute_def Let_def)

lemma started_market:
  assumes "marketMain frac env = Inr c"
  shows "joinComma (mcBrokers c) = env ''KAFKA_BROKERS'' \<and> parseInt64 (env ''MARKET_CARDINAL'') = Some (mcPartition c) \<and>
    cfgFlushEvery (fillDefaults (mcService c)) \<noteq> 0 \<and> \<not> cfgPublisher (fillDefaults (mcService c))"
  using assms by (auto simp: marketMain_def mustInt_Inr join_split fillDefaults_def Let_def)

section \<open>Property\<close>

text \<open>The smallest environment of the watcher, with an interval between polls.\<close>

definition watcherEnv :: "string \<Rightarrow> osEnv" where
  "watcherEnv poll = (\<lambda>key. if key = ''BTCWATCHER_POLL_INTERVAL'' then poll
     else if key \<in> {''BTCWATCHER_PG_DSN'', ''BTCWATCHER_USERREG_PG_DSN'', ''BTCWATCHER_CASHIER_ADDR'', ''ETCD_ENDPOINTS''} then ''x'' else [])"

lemma small_numbers: "natStr 0 = ''0''" "natStr 10 = ''10''" "natStr 20 = ''20''" "natStr 30 = ''30''" "natStr 60 = ''60''"
  by code_simp+

lemma default_durations:
  "ParseDuration frac ''60s'' = Some (60 * 1000000000)" "ParseDuration frac ''30s'' = Some (30 * 1000000000)" "ParseDuration frac ''20m'' = Some (20 * minute)"
  using ParseDuration_whole [of "''s''" 1000000000 60 frac] ParseDuration_whole [of "''s''" 1000000000 30 frac]
    ParseDuration_whole [of "''m''" 60000000000 20 frac]
  by (simp_all add: unitMap_def small_numbers minute_def)

lemma default_ints: "mustInt ''6'' = Inr 6" "mustInt ''60'' = Inr 60"
  by (simp_all add: mustInt_Inr parseInt64_def signDigits_def isDigit_def readNat_def digitVal_def in_int64_def int64_min_def int64_max_def)

lemma watcher_starts:
  assumes "poll \<noteq> []" and "ParseDuration frac poll = Some d"
  shows "\<exists>c. btcwatcherMain frac (\<lambda>_. OpOk) (watcherEnv poll) = Inr c \<and> wkPollInterval c = d \<and> (watcherTickers c \<longleftrightarrow> 0 < d)"
  using assms by (auto simp: btcwatcherMain_def watcherEnv_def envOr_def parseDur_Inr default_durations default_ints watcherTickers_def newTicker_def minute_def)



end
