(* ===== verification/Spec2Isabelle.thy ===== *)
theory Spec2Isabelle
  imports MatchProps MarketProps CashierProps WatcherProps SpvStream Onboarding RegistryProps UserProps VendorProps VendorClient
    RefFlow Startup
begin

text \<open>
  A verification of secwager, a betting exchange written in Go: a matching engine, the
  market service that runs it over a Kafka partition, a cashier that keeps the traders'
  money, a watcher that turns bitcoin outputs into deposits, a registry of the instruments
  that are traded, the registration of users, and the loading of teams, players, games and
  results from data vendors. Each part is translated function by
  function; the theorems say what the parts promise and that the code keeps it, under the
  failures the code can meet.

  \<^bold>\<open>How the parts work together.\<close> A trader's order reaches \<open>market\<close> as a message of a
  partition; \<open>market\<close> hands it to the order book of its symbol (\<open>matchengine\<close>), publishes the
  events of the book and writes snapshots from which a restarted process replays the rest
  of the partition. Symbols are instruments of the \<open>registry\<close>, whose ids are hashes of their
  legs; the legs are checked against reference tables that \<open>vendor_refdata\<close> fills. Money is held by the \<open>cashier\<close>, a gRPC service on PostgreSQL. \<open>btcwatcher\<close> follows the
  chain for the addresses of the users that \<open>userregistration\<close> has created, and tells the
  cashier of deposits: escrowed when seen, confirmed when deep enough, cancelled when their
  block disappears.

  \<^bold>\<open>How code becomes definitions.\<close> A struct is a record, an enum or a tagged union a
  datatype, an open protobuf enum an integer. Machine integers keep their width where it
  matters (words in the engine, \<open>wrap64\<close> in the cashier). A Go map is a function or an
  association list, whose order stands for the order the map is ranged over in. A call that
  can panic or not end has an option type: \<open>None\<close> is the panic or the endless loop, and theorems
  say when it does not happen. Errors are values of sum types with the gRPC codes of the
  code; the texts of messages are left out. PostgreSQL is modelled by its tables, with the
  primary keys, unique and foreign keys the migrations declare; a transaction is a function
  on the tables, and an argument of each operation says which statement fails and whether
  the commit takes effect, is lost, or takes effect and is reported as failed. Rows a
  query returns without an order come in an order that is an argument (\<open>Prelude.orderBy\<close>).
  Where several processes touch the same tables, single statements or calls are the steps of
  an inductive relation, and the whole handlers are shown to be runs of it.

  \<^bold>\<open>Shared theories.\<close> \<open>Prelude\<close> has the Go integer types, strings and byte arrays, and lemmas on
  lists and options. \<open>Decimal\<close>, \<open>Sha256\<close>, \<open>Base64\<close>, \<open>GoTime\<close> and \<open>GoParse\<close> are the parts of the Go library that the code
  calls, executable: numbers, durations, dates, splitting and joining, hashing and encoding.

  \<^bold>\<open>Matching engine\<close> (\<open>matchengine/types.go\<close>, \<open>book.go\<close>).
  \<^item> \<open>MatchTypes\<close> and \<open>OrderBook\<close>: the pool of order slots, the price levels as linked lists through
    the pool, the two cursors, and \<open>Limit\<close>, \<open>Cancel\<close>, \<open>Snapshot\<close>, \<open>Restore\<close> with their loops as partial
    functions.
  \<^item> \<open>BookSpec\<close>: the abstract book, two lists in price-time order.
  \<^item> \<open>Chain\<close>, \<open>MatchSide\<close>, \<open>MatchLoops\<close>, \<open>BookRep\<close>: linked lists as lists; one side of the book and its
    matching loop as the locale \<open>match_side\<close>, interpreted for the asks and for the bids; the
    representation invariant.
  \<^item> \<open>BookRefine\<close>, \<open>BookRestore\<close>, \<open>BookLaws\<close>: every operation implements the abstract one; export and
    import are inverse; what the abstract book guarantees.
  \<^item> \<open>BookEngine\<close>: the interface of an engine as the locale \<open>engine\<close>, interpreted by the order book.
  \<^item> \<open>MatchProps\<close>: C1 to C9.

  \<^bold>\<open>Market service\<close> (\<open>market/internal/service\<close>).
  \<^item> \<open>MarketSnapshot\<close>: the snapshot messages and the file operations, each of which can fail.
  \<^item> \<open>MarketService\<close>: \<open>New\<close>, replay up to the high water mark, the live loop, dispatch and publishing.
    The protobuf codec and what Kafka delivers are arguments.
  \<^item> \<open>MarketRecovery\<close>: the service against a map of abstract books, on the interface of \<open>engine\<close>.
  \<^item> \<open>MarketProps\<close>: C10 to C13.

  \<^bold>\<open>Cashier\<close> (\<open>cashier/internal\<close>).
  \<^item> \<open>CashierDB\<close>: all operations on the three tables, with idempotency keys and versions.
  \<^item> \<open>CashierSpec\<close>: the effect of a command as one step of a ledger.
  \<^item> \<open>CashierService\<close>: the in-memory cashier and the gRPC service over either.
  \<^item> \<open>CashierProps\<close>: the contract of a client that retries as the locale \<open>retried\<close>, interpreted by the
    PostgreSQL cashier, and C14 to C20.

  \<^bold>\<open>Bitcoin watcher\<close> (\<open>btcwatcher/internal\<close>).
  \<^item> \<open>Watcher\<close>: the table of outputs with every statement, the cashier client over the modelled
    gRPC service with lost requests and replies, the chain follower, the watcher loop and the
    leader election.
  \<^item> \<open>WatcherSteps\<close>: any number of nodes, several of which may believe they lead, interleaved statement
    by statement together with the cashier.
  \<^item> \<open>WatcherInv\<close>, \<open>WatcherLive\<close>: the accounts of a growing chain; progress when nothing fails.
  \<^item> \<open>WatcherProps\<close>: C21 to C25, which span the watcher and the cashier.
  \<^item> \<open>SpvStream\<close>: the start of the node, and its notifications on their way through two channels to the
    watcher, each channel operation a step; C26.
  \<^item> \<open>Onboarding\<close>: the user store over the table of the user registration, and C27, which goes from a
    registration through a poll and a block to a balance at the cashier.

  \<^bold>\<open>Registry\<close> (\<open>registry/internal\<close>).
  \<^item> \<open>RefStore\<close>: teams, players, games and rosters, their loads, the product rules and the cache.
  \<^item> \<open>Registry\<close>: the hash of the legs, the three validation phases, the rows of a leg.
  \<^item> \<open>RegistryStore\<close>: \<open>Create\<close>, split at the point where another create can commit, \<open>Get\<close>, and the handlers
    of the service.
  \<^item> \<open>RegistryLaws\<close>: the loops in closed form. \<open>RegistryRun\<close>: the contract of the store as the locale
    \<open>instrument_store\<close>, interpreted by the PostgreSQL store, and creates in flight as a step relation.
    \<open>RegistryList\<close>: \<open>List\<close>, its query and its page tokens.
  \<^item> \<open>RegistryProps\<close>: C28 to C33.

  \<^bold>\<open>User registration\<close> (\<open>userregistration/internal\<close>).
  \<^item> \<open>UserRegistration\<close>: \<open>RegisterUser\<close> with its compensating delete, \<open>GetUser\<close>, the Cognito user manager and
    the KMS encryptor, and registrations in flight.
  \<^item> \<open>UserProps\<close>: the invariant and C34.

  \<^bold>\<open>Vendor reference data\<close> (\<open>vendor_refdata/internal\<close>).
  \<^item> \<open>VendorStore\<close>: ids, the tables with their constraints, and every statement of the store.
  \<^item> \<open>VendorFetch\<close>: teams, rosters and schedules of the three sports, and the populator.
    \<open>VendorResults\<close>: results and statistics, and the event fetcher.
  \<^item> \<open>VendorLaws\<close>: both pollers as runs of single statements, and what a statement keeps.
  \<^item> \<open>VendorProps\<close>: C35, C36 and C38.
  \<^item> \<open>VendorClient\<close>: the two HTTP clients with the request behind every answer (\<open>clientNet\<close>), what the
    pollers do while no vendor answers, and the throttle they share, for any number of callers; C37.
  \<^item> \<open>RefFlow\<close>: what a refresh of the registry's cache reads from the tables of the pollers, and C39: checking
    legs against an old cache is safe while the pollers go on.

  \<^bold>\<open>Commands\<close> (\<open>main.go\<close> of the six services).
  \<^item> \<open>Startup\<close>: the variables each command reads, the migrations, the order in which it opens what it needs,
    and the configuration the service gets. Fatal log entries are values; C40 says what holds of a service
    that runs.

  \<^bold>\<open>Parameters and assumptions.\<close> The protobuf encodings (\<open>codec\<close> of the market, \<open>marshal\<close> of the
  registry), the JSON of a page token, the chain library of the watcher, Cognito, KMS, the
  address derivation, the decoded answers of the vendors (\<open>vendorNet\<close>), the HTTP exchange and the
  decoding of its JSON (\<open>httpLib\<close>, \<open>vendorJson\<close>), the float product in \<open>ParseDuration\<close> (\<open>fracMul\<close>), the outcome of what a
  command opens (\<open>startOp\<close>), and upper-casing, the reading
  of floats and the order of a Go map (\<open>vendorLib\<close>) are arguments. Where a theorem needs what they document, it says so: the
  market codec and the page tokens can be read back, the encoding of a leg is injective, Cognito
  keeps user names unique and an error leaves its directory as it was. SHA-256 is computed and
  nothing is assumed of it; where two different texts would have to collide, the theorem names
  them.

  \<^bold>\<open>Bounds and fuel.\<close> Loops over linked lists and over messages are partial functions or
  recursions over what is left to do, without fuel; their termination on reachable states is
  C3 and C13. \<open>readPages\<close>, the client in C33, takes a number of calls, and more calls than there are
  instruments are enough. \<open>soccerPages\<close> follows the vendor's pages for as long as the vendor says there
  are more; C35 says that it ends when they do.

  \<^bold>\<open>Not modelled.\<close> The tool \<open>genaddr\<close> only calls the bitcoin library. The shutdown of the gRPC servers, signals,
  connection pools, constructors that only fill a struct, and the texts of errors and log entries are left
  out. Libraries are left out as the parameters say: the neutrino chain service, Kafka, etcd, PostgreSQL
  beyond its tables, AWS, HTTP and the codecs. The code under \<open>proto/gen\<close> is generated; its messages are
  records here.
\<close>

end
